(* ===== verification/Bridge_Prelude.thy ===== *)
theory Bridge_Prelude
  imports Main "HOL-Library.Word"
begin

text \<open>
  Shared vocabulary of the development: the undefined behaviours of C as values, the result
  type of the modelled routines, and the byte representation of integers in the memory of the
  32-bit little-endian target (bridge-tool/CMakeLists.txt compiles with \<open>-m32\<close>).

  A routine whose C code may have undefined behaviour returns \<open>fault + 'a\<close>: \<open>Inl\<close> names
  what went wrong, \<open>Inr\<close> carries the result. A theorem that a call is \<open>Inr\<close> therefore states
  memory safety as well as the value.
\<close>

unbundle bit_operations_syntax

section \<open>Undefined behaviour as a value\<close>

datatype fault =
    Null_Deref        \<comment> \<open>a NULL pointer is dereferenced\<close>
  | Out_Of_Bounds     \<comment> \<open>an access outside the object, or an unterminated string is read\<close>
  | Use_After_Free    \<comment> \<open>a freed (or never allocated) heap object is accessed\<close>
  | Uninit_Read       \<comment> \<open>an indeterminate value is used\<close>
  | Diverges          \<comment> \<open>a loop that never ends\<close>
  | Bad_Vararg        \<comment> \<open>a variadic argument that is not what the format reads\<close>

type_synonym 'a res = "fault + 'a"

text \<open>Sequencing: the first fault ends the routine.\<close>

definition bind_res :: "'a res \<Rightarrow> ('a \<Rightarrow> 'b res) \<Rightarrow> 'b res" where
  "bind_res m f = (case m of Inl e \<Rightarrow> Inl e | Inr x \<Rightarrow> f x)"

named_theorems bridge_safe \<open>facts that an operation has no undefined behaviour\<close>

lemma bind_res_simps [simp]:
  "bind_res (Inl e) f = Inl e"
  "bind_res (Inr x) f = f x"
  by (simp_all add: bind_res_def)

lemma bind_res_assoc [simp]: "bind_res (bind_res m f) g = bind_res m (\<lambda>x. bind_res (f x) g)"
  by (cases m) simp_all

lemma bind_res_Inr_iff: "bind_res m f = Inr y \<longleftrightarrow> (\<exists>x. m = Inr x \<and> f x = Inr y)"
  by (cases m) simp_all

lemma bind_res_Inl_iff: "bind_res m f = Inl e \<longleftrightarrow> m = Inl e \<or> (\<exists>x. m = Inr x \<and> f x = Inl e)"
  by (cases m) simp_all

lemma bind_res_InrE [elim]:
  assumes "bind_res m f = Inr y"
  obtains x where "m = Inr x" and "f x = Inr y"
  using assms by (auto simp: bind_res_Inr_iff)

section \<open>Integers in memory\<close>

type_synonym byte = "8 word"

text \<open>
  \<open>put_byte w i b\<close> is the object \<open>w\<close> after \<open>((unsigned char *)&w)[i] = b\<close>, and \<open>byte_at w i\<close>
  reads that byte; byte 0 is the least significant one on the target.
\<close>

definition put_byte :: "'a::len word \<Rightarrow> nat \<Rightarrow> byte \<Rightarrow> 'a word" where
  "put_byte w i b = (w AND NOT (push_bit (8 * i) (mask 8))) OR push_bit (8 * i) (ucast b)"

definition byte_at :: "'a::len word \<Rightarrow> nat \<Rightarrow> byte" where
  "byte_at w i = ucast (drop_bit (8 * i) w)"

text \<open>\<open>htons\<close> and \<open>ntohs\<close> swap the two bytes, \<open>htonl\<close> and \<open>ntohl\<close> reverse the four.\<close>

definition ntohs :: "16 word \<Rightarrow> 16 word" where
  "ntohs w = push_bit 8 w OR drop_bit 8 w"

definition ntohl :: "32 word \<Rightarrow> 32 word" where
  "ntohl w = push_bit 24 w OR (push_bit 8 w AND push_bit 16 (mask 8))
             OR (drop_bit 8 w AND push_bit 8 (mask 8)) OR drop_bit 24 w"

abbreviation htons :: "16 word \<Rightarrow> 16 word" where
  "htons \<equiv> ntohs"

abbreviation htonl :: "32 word \<Rightarrow> 32 word" where
  "htonl \<equiv> ntohl"

text \<open>The bytes \<open>(char *)&w\<close> points to.\<close>

definition mem16 :: "16 word \<Rightarrow> byte list" where
  "mem16 w = [byte_at w 0, byte_at w 1]"

definition mem32 :: "32 word \<Rightarrow> byte list" where
  "mem32 w = [byte_at w 0, byte_at w 1, byte_at w 2, byte_at w 3]"

lemma length_mem [simp]: "length (mem16 w) = 2" "length (mem32 v) = 4"
  by (simp_all add: mem16_def mem32_def)

lemma bit_put_byte:
  "bit (put_byte w i b) n \<longleftrightarrow>
     n < LENGTH('a) \<and> (if 8 * i \<le> n \<and> n < 8 * i + 8 then bit b (n - 8 * i) else bit w n)"
  for w :: "'a::len word"
  by (auto simp: put_byte_def bit_simps dest: bit_imp_le_length)

lemma bit_byte_at: "bit (byte_at w i) n \<longleftrightarrow> n < 8 \<and> bit w (8 * i + n)"
  by (auto simp: byte_at_def bit_simps)

lemma bit_ntohs: "bit (ntohs w) n \<longleftrightarrow> n < 16 \<and> (if n < 8 then bit w (n + 8) else bit w (n - 8))"
  by (auto simp: ntohs_def bit_simps ac_simps dest: bit_imp_le_length)

lemma bit_ntohl:
  "bit (ntohl w) n \<longleftrightarrow> n < 32 \<and>
     (if n < 8 then bit w (n + 24) else if n < 16 then bit w (n + 8)
      else if n < 24 then bit w (n - 8) else bit w (n - 24))"
  by (auto simp: ntohl_def bit_simps ac_simps dest: bit_imp_le_length)

lemma ntohs_ntohs [simp]: "ntohs (ntohs w) = w"
  by (rule bit_word_eqI) (auto simp: bit_ntohs)

lemma ntohl_ntohl [simp]: "ntohl (ntohl w) = w"
  by (rule bit_word_eqI) (auto simp: bit_ntohl ac_simps)

text \<open>
  Writing the transmitted bytes one by one into any object and swapping gives the sent value,
  whatever the object held before.
\<close>

lemma ntohs_received:
  "ntohs (put_byte (put_byte w 0 (byte_at (ntohs t) 0)) (Suc 0) (byte_at (ntohs t) (Suc 0))) = t"
  by (rule bit_word_eqI) (auto simp: bit_ntohs bit_put_byte bit_byte_at ac_simps)

lemma ntohl_received:
  "ntohl (put_byte (put_byte (put_byte (put_byte w 0 (byte_at (ntohl t) 0))
      (Suc 0) (byte_at (ntohl t) (Suc 0))) 2 (byte_at (ntohl t) 2)) 3 (byte_at (ntohl t) 3)) = t"
  by (rule bit_word_eqI) (auto simp: bit_ntohl bit_put_byte bit_byte_at ac_simps)

section \<open>Lists\<close>

lemma take_app_take: "take n (take n xs @ ys) = take n (xs @ ys)"
  by (simp add: min_def)

lemma takeWhile_notin: "x \<notin> set xs \<Longrightarrow> takeWhile (\<lambda>c. c \<noteq> x) (xs @ x # ys) = xs"
  by (induction xs) auto

lemma takeWhile_replicate_end:
  "x \<notin> set xs \<Longrightarrow> takeWhile (\<lambda>c. c \<noteq> x) (xs @ replicate n x) = xs"
  by (induction xs) (auto simp: takeWhile_eq_Nil_iff)

end
