(* ===== verification/Imrt_Link.thy ===== *)
theory Imrt_Link
  imports Bridge_Prelude
begin

text \<open>
  The receiving side of the IMRT link between the bridge and the WAMR runtime
  (bridge-tool/src/runtime_conn.h and runtime_conn.c): the byte-by-byte state machine
  \<open>on_imrt_link_byte_arrive\<close>, \<open>process_rcvd_data\<close> which drives it over one \<open>read\<close>, and the
  frame format the sender uses. Shown here: the machine leaves its buffers exactly when it stores a
  byte of the payload after \<open>malloc\<close> gave NULL, a frame is received whole under every
  fragmentation, junk before a frame is skipped, and what the machine does with oversized,
  coalesced and doubly led frames.

  \<open>malloc\<close> is an argument of the definitions: it gives the (indeterminate) initial bytes of
  the new block, or None. \<open>RESPONSE_PACKET\<close> and \<open>REQUEST_PACKET\<close> come from WAMR's
  \<open>host_link.h\<close>, which is not part of the repository, and are parameters as well.
\<close>

section \<open>The receive context\<close>

datatype recv_phase_t = Phase_Non_Start | Phase_Leading | Phase_Type | Phase_Size | Phase_Payload

record imrt_link_message_t =
  message_type :: "16 word"
  payload_size :: "32 word"
  payload :: "byte list option"

text \<open>
  \<open>size_in_phase\<close> is an \<open>int\<close> that starts at 0, is reset at every phase change and is
  incremented once per byte; \<open>link_typed\<close> bounds it by \<open>2 ^ 20\<close>, so it never wraps.
\<close>

record imrt_link_recv_context_t =
  phase :: recv_phase_t
  size_in_phase :: nat
  message :: imrt_link_message_t

type_synonym malloc_fn = "nat \<Rightarrow> byte list option"

definition leading :: "byte list" where
  "leading = [0x12, 0x34]"

text \<open>\<open>imrt_link_recv_context_t recv_ctx = { 0 }\<close> in \<open>main\<close>\<close>

definition recv_ctx_init :: imrt_link_recv_context_t where
  "recv_ctx_init = \<lparr>phase = Phase_Non_Start, size_in_phase = 0,
     message = \<lparr>message_type = 0, payload_size = 0, payload = None\<rparr>\<rparr>"

definition SET_RECV_PHASE :: "recv_phase_t \<Rightarrow> imrt_link_recv_context_t \<Rightarrow> imrt_link_recv_context_t" where
  "SET_RECV_PHASE p ctx = ctx\<lparr>phase := p, size_in_phase := 0\<rparr>"

section \<open>The state machine\<close>

definition recv_non_start :: "byte \<Rightarrow> imrt_link_recv_context_t \<Rightarrow> (int \<times> imrt_link_recv_context_t) res" where
  "recv_non_start ch ctx =
     (let m = message ctx;
          ctx = (if payload m \<noteq> None
                 then ctx\<lparr>message := m\<lparr>payload := None, payload_size := 0\<rparr>\<rparr> else ctx)
      in if leading ! 0 = ch then Inr (1, ctx\<lparr>phase := Phase_Leading\<rparr>) else Inr (- 1, ctx))"

definition recv_leading :: "byte \<Rightarrow> imrt_link_recv_context_t \<Rightarrow> (int \<times> imrt_link_recv_context_t) res" where
  "recv_leading ch ctx =
     (if leading ! 1 = ch then Inr (1, SET_RECV_PHASE Phase_Type ctx)
      else Inr (- 1, ctx\<lparr>phase := Phase_Non_Start\<rparr>))"

definition recv_type :: "byte \<Rightarrow> imrt_link_recv_context_t \<Rightarrow> (int \<times> imrt_link_recv_context_t) res" where
  "recv_type ch ctx =
     (let i = size_in_phase ctx; m = message ctx
      in if 2 \<le> i then Inl Out_Of_Bounds
         else let t = put_byte (message_type m) i ch
              in if Suc i = 2
                 then Inr (1, SET_RECV_PHASE Phase_Size (ctx\<lparr>message := m\<lparr>message_type := ntohs t\<rparr>\<rparr>))
                 else Inr (1, ctx\<lparr>message := m\<lparr>message_type := t\<rparr>, size_in_phase := Suc i\<rparr>))"

definition recv_size :: "malloc_fn \<Rightarrow> byte \<Rightarrow> imrt_link_recv_context_t \<Rightarrow> (int \<times> imrt_link_recv_context_t) res" where
  "recv_size malloc ch ctx =
     (let i = size_in_phase ctx; m = message ctx
      in if 4 \<le> i then Inl Out_Of_Bounds
         else let n = put_byte (payload_size m) i ch
              in if Suc i = 4
                 then let m = m\<lparr>payload_size := ntohl n, payload := None\<rparr>
                      in if payload_size m = 0
                         then Inr (0, SET_RECV_PHASE Phase_Non_Start (ctx\<lparr>message := m\<rparr>))
                         else if 1024 * 1024 < payload_size m
                         then Inr (- 1, SET_RECV_PHASE Phase_Non_Start (ctx\<lparr>message := m\<rparr>))
                         else Inr (1, SET_RECV_PHASE Phase_Payload
                                (ctx\<lparr>message := m\<lparr>payload := malloc (unat (payload_size m))\<rparr>\<rparr>))
                 else Inr (1, ctx\<lparr>message := m\<lparr>payload_size := n\<rparr>, size_in_phase := Suc i\<rparr>))"

definition recv_payload :: "byte \<Rightarrow> imrt_link_recv_context_t \<Rightarrow> (int \<times> imrt_link_recv_context_t) res" where
  "recv_payload ch ctx =
     (let i = size_in_phase ctx; m = message ctx
      in case payload m of
           None \<Rightarrow> Inl Null_Deref
         | Some b \<Rightarrow>
             if length b \<le> i then Inl Out_Of_Bounds
             else let ctx = ctx\<lparr>message := m\<lparr>payload := Some (b[i := ch])\<rparr>, size_in_phase := Suc i\<rparr>
                  in if Suc i = unat (payload_size m)
                     then Inr (0, SET_RECV_PHASE Phase_Non_Start ctx) else Inr (2, ctx))"

definition on_imrt_link_byte_arrive ::
    "malloc_fn \<Rightarrow> byte \<Rightarrow> imrt_link_recv_context_t \<Rightarrow> (int \<times> imrt_link_recv_context_t) res" where
  "on_imrt_link_byte_arrive malloc ch ctx =
     (case phase ctx of
        Phase_Non_Start \<Rightarrow> recv_non_start ch ctx
      | Phase_Leading \<Rightarrow> recv_leading ch ctx
      | Phase_Type \<Rightarrow> recv_type ch ctx
      | Phase_Size \<Rightarrow> recv_size malloc ch ctx
      | Phase_Payload \<Rightarrow> recv_payload ch ctx)"

record host_link_consts =
  RESPONSE_PACKET :: int
  REQUEST_PACKET :: int
  INSTALL_WASM_BYTECODE_APP :: int

definition REPLY_TYPE_EVENT :: int where
  "REPLY_TYPE_EVENT = 0"

definition REPLY_TYPE_RESPONSE :: int where
  "REPLY_TYPE_RESPONSE = 1"

text \<open>
  One \<open>read\<close>: the bytes are handed to the machine until a response or a request packet is
  complete; the rest of the buffer is not looked at.
\<close>

fun process_rcvd_data ::
    "malloc_fn \<Rightarrow> host_link_consts \<Rightarrow> byte list \<Rightarrow> imrt_link_recv_context_t \<Rightarrow> (int \<times> imrt_link_recv_context_t) res" where
  "process_rcvd_data malloc k [] ctx = Inr (- 1, ctx)"
| "process_rcvd_data malloc k (ch # buf) ctx =
     bind_res (on_imrt_link_byte_arrive malloc ch ctx) (\<lambda>(result, ctx).
       if result = 0 \<and> uint (message_type (message ctx)) = RESPONSE_PACKET k
       then Inr (REPLY_TYPE_RESPONSE, ctx)
       else if result = 0 \<and> uint (message_type (message ctx)) = REQUEST_PACKET k
       then Inr (REPLY_TYPE_EVENT, ctx)
       else process_rcvd_data malloc k buf ctx)"

lemmas recv_defs = recv_non_start_def recv_leading_def recv_type_def recv_size_def recv_payload_def
  SET_RECV_PHASE_def Let_def

section \<open>Memory safety\<close>

definition malloc_sized :: "malloc_fn \<Rightarrow> bool" where
  "malloc_sized malloc \<longleftrightarrow> (\<forall>n b. malloc n = Some b \<longrightarrow> length b = n)"

definition zeroed :: malloc_fn where
  "zeroed n = Some (replicate n 0)"

lemma zeroed_ok [simp]: "malloc_sized zeroed"
  by (simp add: malloc_sized_def zeroed_def)

text \<open>
  \<open>link_typed\<close>: the counter is inside the field of the phase, and the payload block, if there is
  one, has the announced size. \<open>payload_missing\<close>: the payload is awaited, but its pointer is NULL;
  the code gets there when \<open>malloc\<close> fails, the result of which it does not check.
\<close>

definition link_typed :: "imrt_link_recv_context_t \<Rightarrow> bool" where
  "link_typed ctx \<longleftrightarrow>
     (phase ctx = Phase_Type \<longrightarrow> size_in_phase ctx < 2)
     \<and> (phase ctx = Phase_Size \<longrightarrow> size_in_phase ctx < 4)
     \<and> (phase ctx = Phase_Payload \<longrightarrow>
          payload_size (message ctx) \<le> 1024 * 1024
          \<and> size_in_phase ctx < unat (payload_size (message ctx))
          \<and> (\<forall>b. payload (message ctx) = Some b \<longrightarrow> length b = unat (payload_size (message ctx))))"

definition payload_missing :: "imrt_link_recv_context_t \<Rightarrow> bool" where
  "payload_missing ctx \<longleftrightarrow> phase ctx = Phase_Payload \<and> payload (message ctx) = None"

definition malloc_fails :: "malloc_fn \<Rightarrow> bool" where
  "malloc_fails malloc \<longleftrightarrow> (\<exists>n > 0. n \<le> 1024 * 1024 \<and> malloc n = None)"

definition link_safe :: "malloc_fn \<Rightarrow> imrt_link_recv_context_t \<Rightarrow> bool" where
  "link_safe malloc ctx \<longleftrightarrow> link_typed ctx \<and> (payload_missing ctx \<longrightarrow> malloc_fails malloc)"

lemma link_safe_init [simp]: "link_safe malloc recv_ctx_init"
  by (simp add: link_safe_def link_typed_def payload_missing_def recv_ctx_init_def)

lemma missing_faults: "payload_missing ctx \<Longrightarrow> on_imrt_link_byte_arrive malloc ch ctx = Inl Null_Deref"
  by (simp add: payload_missing_def on_imrt_link_byte_arrive_def recv_payload_def Let_def)

lemma byte_arrive_safe:
  assumes "malloc_sized malloc" and "link_safe malloc ctx" and "\<not> payload_missing ctx"
  shows "\<exists>r ctx'. on_imrt_link_byte_arrive malloc ch ctx = Inr (r, ctx') \<and> link_safe malloc ctx' \<and> r \<in> {- 1, 0, 1, 2}"
proof (cases "phase ctx")
  case Phase_Size
  have "malloc_fails malloc" if "malloc (unat n) = None" "n \<noteq> 0" "n \<le> 1048576" for n :: "32 word"
  proof -
    have "unat n \<le> 1024 * 1024" using that(3) by (simp add: word_le_nat_alt)
    moreover have "0 < unat n" using that(2) by (simp add: unat_gt_0)
    ultimately show ?thesis using that(1) by (auto simp: malloc_fails_def)
  qed
  then show ?thesis using assms(1,2) Phase_Size
    by (auto simp: on_imrt_link_byte_arrive_def recv_defs malloc_sized_def link_safe_def link_typed_def payload_missing_def not_less unat_gt_0)
next
  case Phase_Payload
  with assms(2,3) obtain b where "payload (message ctx) = Some b" "length b = unat (payload_size (message ctx))"
    by (auto simp: link_safe_def link_typed_def payload_missing_def)
  with Phase_Payload assms(2) show ?thesis
    by (auto simp: on_imrt_link_byte_arrive_def recv_defs link_safe_def link_typed_def payload_missing_def)
qed (use assms in \<open>auto simp: on_imrt_link_byte_arrive_def recv_defs link_safe_def link_typed_def payload_missing_def\<close>)

text \<open>Any bytes: the only fault there is is the write through the NULL of a \<open>malloc\<close> that failed.\<close>

lemma process_safe:
  assumes "malloc_sized malloc" and "link_safe malloc ctx"
  shows "case process_rcvd_data malloc k buf ctx of
      Inl f \<Rightarrow> f = Null_Deref \<and> malloc_fails malloc
    | Inr (r, ctx') \<Rightarrow> link_safe malloc ctx' \<and> r \<in> {- 1, REPLY_TYPE_EVENT, REPLY_TYPE_RESPONSE}"
  using assms(2)
proof (induction buf arbitrary: ctx)
  case Nil
  then show ?case by simp
next
  case (Cons ch buf)
  show ?case
  proof (cases "payload_missing ctx")
    case True
    with Cons.prems show ?thesis by (simp add: missing_faults link_safe_def)
  next
    case False
    with byte_arrive_safe [OF assms(1) Cons.prems, of ch] Cons.IH show ?thesis by auto
  qed
qed

section \<open>Frames\<close>

text \<open>
  A frame is the two leading bytes, the type and the payload length in network order, and the
  payload: what \<open>send_request\<close> writes (theory Runtime_Send proves that it writes exactly this).
\<close>

definition link_frame :: "16 word \<Rightarrow> byte list \<Rightarrow> byte list" where
  "link_frame t p = leading @ mem16 (htons t) @ mem32 (htonl (word_of_nat (length p))) @ p"

definition payload_fits :: "byte list \<Rightarrow> bool" where
  "payload_fits p \<longleftrightarrow> 0 < length p \<and> length p \<le> 1024 * 1024"

lemma payload_fits_word:
  assumes "payload_fits p"
  shows "unat (word_of_nat (length p) :: 32 word) = length p"
    and "(word_of_nat (length p) :: 32 word) \<noteq> 0"
    and "(word_of_nat (length p) :: 32 word) \<le> 1024 * 1024"
proof -
  show u: "unat (word_of_nat (length p) :: 32 word) = length p"
    using assms by (simp add: payload_fits_def unat_of_nat)
  with assms show "(word_of_nat (length p) :: 32 word) \<noteq> 0"
    by (metis payload_fits_def less_irrefl unat_0)
  from u assms show "(word_of_nat (length p) :: 32 word) \<le> 1024 * 1024"
    by (simp add: payload_fits_def word_le_nat_alt)
qed

definition reply_of :: "host_link_consts \<Rightarrow> 16 word \<Rightarrow> int" where
  "reply_of k t = (if uint t = RESPONSE_PACKET k then REPLY_TYPE_RESPONSE
                   else if uint t = REQUEST_PACKET k then REPLY_TYPE_EVENT else - 1)"

text \<open>The context in the payload phase, after \<open>i\<close> of the payload bytes.\<close>

definition in_payload :: "16 word \<Rightarrow> 32 word \<Rightarrow> byte list \<Rightarrow> nat \<Rightarrow> imrt_link_recv_context_t" where
  "in_payload t n b i = \<lparr>phase = Phase_Payload, size_in_phase = i,
     message = \<lparr>message_type = t, payload_size = n, payload = Some b\<rparr>\<rparr>"

definition received :: "16 word \<Rightarrow> byte list \<Rightarrow> imrt_link_recv_context_t" where
  "received t p = \<lparr>phase = Phase_Non_Start, size_in_phase = 0,
     message = \<lparr>message_type = t, payload_size = word_of_nat (length p), payload = Some p\<rparr>\<rparr>"

lemmas byte_arrive_simps = on_imrt_link_byte_arrive_def recv_defs

lemma process_leading:
  assumes "phase ctx = Phase_Non_Start"
  shows "process_rcvd_data malloc k (leading @ buf) ctx
    = process_rcvd_data malloc k buf
        \<lparr>phase = Phase_Type, size_in_phase = 0,
         message = (if payload (message ctx) = None then message ctx
                    else (message ctx)\<lparr>payload := None, payload_size := 0\<rparr>)\<rparr>"
  using assms
  by (cases ctx) (auto simp: leading_def byte_arrive_simps)

lemma process_type:
  "process_rcvd_data malloc k (mem16 (htons t) @ buf) \<lparr>phase = Phase_Type, size_in_phase = 0, message = m\<rparr>
    = process_rcvd_data malloc k buf
        \<lparr>phase = Phase_Size, size_in_phase = 0, message = m\<lparr>message_type := t\<rparr>\<rparr>"
  by (simp add: mem16_def byte_arrive_simps ntohs_received)

lemma process_size_any:
  assumes "n \<noteq> 0" and "n \<le> 1024 * 1024"
  shows "process_rcvd_data malloc k (mem32 (htonl n) @ buf) \<lparr>phase = Phase_Size, size_in_phase = 0, message = m\<rparr>
    = process_rcvd_data malloc k buf \<lparr>phase = Phase_Payload, size_in_phase = 0,
        message = \<lparr>message_type = message_type m, payload_size = n, payload = malloc (unat n)\<rparr>\<rparr>"
proof -
  have "ntohl (put_byte (put_byte (put_byte (put_byte w 0 (byte_at (ntohl n) 0))
      (Suc 0) (byte_at (ntohl n) (Suc 0))) (Suc (Suc 0)) (byte_at (ntohl n) 2))
      (Suc (Suc (Suc 0))) (byte_at (ntohl n) 3)) = n" for w
    using ntohl_received [of w n] by (simp add: numeral_2_eq_2 numeral_3_eq_3)
  moreover have "\<not> 1024 * 1024 < n" using assms(2) by simp
  ultimately show ?thesis using assms(1)
    by (cases m) (simp add: mem32_def byte_arrive_simps)
qed

lemma process_size:
  assumes "n \<noteq> 0" and "n \<le> 1024 * 1024" and "malloc (unat n) = Some b"
  shows "process_rcvd_data malloc k (mem32 (htonl n) @ buf) \<lparr>phase = Phase_Size, size_in_phase = 0, message = m\<rparr>
    = process_rcvd_data malloc k buf (in_payload (message_type m) n b 0)"
  using process_size_any [OF assms(1,2)] assms(3) by (simp add: in_payload_def)

text \<open>Payload bytes short of the last one are stored and nothing is reported.\<close>

lemma process_payload_partial:
  assumes "length b = unat n" and "i + length xs < unat n"
  shows "process_rcvd_data malloc k (xs @ buf) (in_payload t n b i)
    = process_rcvd_data malloc k buf
        (in_payload t n (take i b @ xs @ drop (i + length xs) b) (i + length xs))"
  using assms
proof (induction xs arbitrary: b i)
  case Nil
  then show ?case by simp
next
  case (Cons x xs)
  have upd: "take (Suc i) (b[i := x]) = take i b @ [x]" "drop (Suc (i + length xs)) (b[i := x]) = drop (Suc (i + length xs)) b"
    using Cons.prems by (simp_all add: take_Suc_conv_app_nth)
  have "process_rcvd_data malloc k (x # xs @ buf) (in_payload t n b i)
      = process_rcvd_data malloc k (xs @ buf) (in_payload t n (b[i := x]) (Suc i))"
    using Cons.prems by (simp add: byte_arrive_simps in_payload_def)
  also have "\<dots> = process_rcvd_data malloc k buf
        (in_payload t n (take (Suc i) (b[i := x]) @ xs @ drop (Suc i + length xs) (b[i := x])) (Suc i + length xs))"
    using Cons.prems by (intro Cons.IH) simp_all
  finally show ?case by (simp add: upd)
qed

lemma process_payload_all:
  assumes "length b = length p" and "payload_fits p" and "reply_of k t \<noteq> - 1"
  shows "process_rcvd_data malloc k (p @ buf) (in_payload t (word_of_nat (length p)) b 0)
    = Inr (reply_of k t, received t p)"
proof -
  from assms(2) obtain q x where p: "p = q @ [x]"
    by (cases p rule: rev_cases) (auto simp: payload_fits_def)
  note n = payload_fits_word [OF assms(2)]
  have last: "(take 0 b @ q @ drop (0 + length q) b)[length q := x] = p"
    using assms(1) p by (auto simp: list_update_append Cons_nth_drop_Suc [symmetric])
  have "process_rcvd_data malloc k (q @ x # buf) (in_payload t (word_of_nat (length p)) b 0)
      = process_rcvd_data malloc k (x # buf)
          (in_payload t (word_of_nat (length p)) (take 0 b @ q @ drop (0 + length q) b) (0 + length q))"
    using assms(1) n(1) p by (intro process_payload_partial) simp_all
  also have "\<dots> = Inr (reply_of k t, received t p)"
    using assms(1,3) n(1) p last
    by (auto simp: byte_arrive_simps in_payload_def received_def reply_of_def split: if_splits)
  finally show ?thesis by (simp add: p)
qed

section \<open>Reception\<close>

lemma reply_types [simp]: "REPLY_TYPE_RESPONSE \<noteq> - 1" "REPLY_TYPE_EVENT \<noteq> - 1"
  by (simp_all add: REPLY_TYPE_RESPONSE_def REPLY_TYPE_EVENT_def)

lemma process_frame:
  assumes "phase ctx = Phase_Non_Start" and "payload_fits p" and "malloc (length p) = Some b"
    and "length b = length p" and "reply_of k t \<noteq> - 1"
  shows "process_rcvd_data malloc k (link_frame t p @ buf) ctx = Inr (reply_of k t, received t p)"
  using assms payload_fits_word [OF assms(2)]
  by (simp add: link_frame_def process_leading process_type process_size [where b = b] process_payload_all)

lemma process_frame_no_memory:
  assumes "phase ctx = Phase_Non_Start" and "payload_fits p" and "malloc (length p) = None"
  shows "process_rcvd_data malloc k (link_frame t p @ buf) ctx = Inl Null_Deref"
proof -
  obtain ch q where p: "p = ch # q" using assms(2) by (cases p) (auto simp: payload_fits_def)
  note n = payload_fits_word [OF assms(2)]
  have "process_rcvd_data malloc k (p @ buf) \<lparr>phase = Phase_Payload, size_in_phase = 0, message = \<lparr>message_type = t,
      payload_size = word_of_nat (length p), payload = malloc (length p)\<rparr>\<rparr> = Inl Null_Deref"
    using assms(3) unfolding p by (simp add: missing_faults payload_missing_def)
  then show ?thesis
    using assms(1) n by (simp add: link_frame_def process_leading process_type process_size_any)
qed

text \<open>A read cut in two behaves as the two pieces, unless the first already completes a packet.\<close>

lemma process_append:
  "process_rcvd_data malloc k (xs @ ys) ctx =
     bind_res (process_rcvd_data malloc k xs ctx)
       (\<lambda>(r, c). if r = - 1 then process_rcvd_data malloc k ys c else Inr (r, c))"
  by (induction xs arbitrary: ctx)
     (auto simp: bind_res_def split: sum.splits)

text \<open>
  No proper prefix of a frame completes a packet: otherwise the rest of the frame could be
  changed without changing what is received.
\<close>

lemma process_proper_prefix:
  assumes "link_frame t p = xs @ ys" and "ys \<noteq> []" and "phase ctx = Phase_Non_Start" and "payload_fits p"
    and "malloc (length p) = Some b" and "length b = length p" and "reply_of k t \<noteq> - 1"
  shows "\<exists>c. process_rcvd_data malloc k xs ctx = Inr (- 1, c)"
proof -
  from assms(4) obtain q x where p: "p = q @ [x]"
    by (cases p rule: rev_cases) (auto simp: payload_fits_def)
  from assms(2) obtain zs z where ys: "ys = zs @ [z]" by (cases ys rule: rev_cases) auto
  let ?p = "q @ [x + 1]"
  have other: "link_frame t ?p = xs @ zs @ [x + 1]"
    using assms(1) by (auto simp: link_frame_def p ys simp flip: append_assoc)
  have "process_rcvd_data malloc k (xs @ ys) ctx = Inr (reply_of k t, received t p)"
    using process_frame [of ctx p malloc b k t "[]"] assms by simp
  moreover have "process_rcvd_data malloc k (xs @ zs @ [x + 1]) ctx = Inr (reply_of k t, received t ?p)"
    using process_frame [of ctx ?p malloc b k t "[]"] assms(3-7) p other by (simp add: payload_fits_def)
  moreover have "received t p \<noteq> received t ?p" by (simp add: received_def p)
  ultimately show ?thesis
    by (auto simp: process_append bind_res_Inr_iff split: if_splits)
qed

lemma process_oversized:
  assumes "phase ctx = Phase_Non_Start" and "1024 * 1024 < n"
  shows "\<exists>c. phase c = Phase_Non_Start \<and> payload (message c) = None
    \<and> process_rcvd_data malloc k (leading @ mem16 (htons t) @ mem32 (htonl n) @ buf) ctx
        = process_rcvd_data malloc k buf c"
proof -
  have "n \<noteq> 0" using assms(2) by auto
  moreover have "ntohl (put_byte (put_byte (put_byte (put_byte w 0 (byte_at (ntohl n) 0))
      (Suc 0) (byte_at (ntohl n) (Suc 0))) (Suc (Suc 0)) (byte_at (ntohl n) 2))
      (Suc (Suc (Suc 0))) (byte_at (ntohl n) 3)) = n" for w
    using ntohl_received [of w n] by (simp add: numeral_2_eq_2 numeral_3_eq_3)
  ultimately show ?thesis using assms
    by (intro exI [of _ "\<lparr>phase = Phase_Non_Start, size_in_phase = 0,
          message = \<lparr>message_type = t, payload_size = n, payload = None\<rparr>\<rparr>"])
       (cases "message ctx", simp add: process_leading process_type mem32_def byte_arrive_simps)
qed

text \<open>
  The reads of \<open>main\<close>'s loop (bridge-tool.c, lines 116 to 172): each is handed to
  \<open>process_rcvd_data\<close>, and a reply is acted on with the message in the context.
\<close>

fun receive_reads ::
    "malloc_fn \<Rightarrow> host_link_consts \<Rightarrow> byte list list \<Rightarrow> imrt_link_recv_context_t
      \<Rightarrow> ((int \<times> imrt_link_message_t) list \<times> imrt_link_recv_context_t) res" where
  "receive_reads malloc k [] ctx = Inr ([], ctx)"
| "receive_reads malloc k (rd # rds) ctx =
     bind_res (process_rcvd_data malloc k rd ctx) (\<lambda>(r, ctx).
       bind_res (receive_reads malloc k rds ctx) (\<lambda>(ms, ctx').
         Inr (if r = - 1 then ms else (r, message ctx) # ms, ctx')))"

lemma receive_reads_empty: "concat rds = [] \<Longrightarrow> receive_reads malloc k rds ctx = Inr ([], ctx)"
  by (induction rds arbitrary: ctx) auto

lemma receive_reads_none:
  "process_rcvd_data malloc k (concat rds) ctx = Inr (- 1, c) \<Longrightarrow> receive_reads malloc k rds ctx = Inr ([], c)"
  by (induction rds arbitrary: ctx) (auto simp: process_append bind_res_Inr_iff split: if_splits)

lemma receive_reads_single:
  assumes "process_rcvd_data malloc k (concat rds) ctx = Inr (r, c)" and "r \<noteq> - 1"
    and "\<And>xs ys. concat rds = xs @ ys \<Longrightarrow> ys \<noteq> [] \<Longrightarrow> \<exists>c. process_rcvd_data malloc k xs ctx = Inr (- 1, c)"
  shows "receive_reads malloc k rds ctx = Inr ([(r, message c)], c)"
  using assms
proof (induction rds arbitrary: ctx)
  case Nil
  then show ?case by simp
next
  case (Cons rd rds)
  show ?case
  proof (cases "concat rds = []")
    case True
    with Cons.prems(1,2) show ?thesis by (simp add: receive_reads_empty)
  next
    case False
    with Cons.prems(3) [of rd "concat rds"] obtain c1 where
      c1: "process_rcvd_data malloc k rd ctx = Inr (- 1, c1)" by auto
    have "receive_reads malloc k rds c1 = Inr ([(r, message c)], c)"
    proof (rule Cons.IH)
      show "process_rcvd_data malloc k (concat rds) c1 = Inr (r, c)"
        using Cons.prems(1) c1 by (simp add: process_append)
      show "r \<noteq> - 1" by (rule Cons.prems(2))
      fix xs ys
      assume "concat rds = xs @ ys" and "ys \<noteq> []"
      with Cons.prems(3) [of "rd @ xs" ys] c1
      show "\<exists>c. process_rcvd_data malloc k xs c1 = Inr (- 1, c)"
        by (simp add: process_append)
    qed
    with c1 show ?thesis by simp
  qed
qed

text \<open>Bytes other than the first leading byte are dropped between frames.\<close>

lemma process_noise:
  "phase ctx = Phase_Non_Start \<Longrightarrow> leading ! 0 \<notin> set noise \<Longrightarrow>
   \<exists>c. phase c = Phase_Non_Start \<and> (\<forall>buf. process_rcvd_data malloc k (noise @ buf) ctx = process_rcvd_data malloc k buf c)"
proof (induction noise arbitrary: ctx)
  case Nil
  then show ?case by auto
next
  case (Cons x noise)
  obtain c where c: "on_imrt_link_byte_arrive malloc x ctx = Inr (- 1, c)" "phase c = Phase_Non_Start"
    using Cons.prems by (cases ctx) (auto simp: byte_arrive_simps)
  with Cons.IH [of c] Cons.prems show ?case by fastforce
qed

lemma receive_frame_fragmented:
  assumes "concat reads = link_frame t p" and "phase ctx = Phase_Non_Start" and "payload_fits p"
    and "malloc_sized malloc" and "malloc (length p) = Some b" and "reply_of k t \<noteq> - 1"
  shows "receive_reads malloc k reads ctx
    = Inr ([(reply_of k t, message (received t p))], received t p)"
proof (rule receive_reads_single)
  from assms(4,5) have len: "length b = length p" by (auto simp: malloc_sized_def)
  show "process_rcvd_data malloc k (concat reads) ctx = Inr (reply_of k t, received t p)"
    using process_frame [of ctx p malloc b k t "[]"] assms len by simp
  show "reply_of k t \<noteq> - 1" by (rule assms(6))
  fix xs ys
  assume "concat reads = xs @ ys" and "ys \<noteq> []"
  then show "\<exists>c. process_rcvd_data malloc k xs ctx = Inr (- 1, c)"
    using assms len by (intro process_proper_prefix [of t p xs ys ctx malloc b]) auto
qed

section \<open>Properties\<close>

text \<open>Frames one after the other, each in reads of its own.\<close>

lemma receive_reads_append:
  "receive_reads malloc k (xs @ ys) ctx =
    bind_res (receive_reads malloc k xs ctx) (\<lambda>(ms, c).
      bind_res (receive_reads malloc k ys c) (\<lambda>(ns, c'). Inr (ms @ ns, c')))"
proof (induction xs arbitrary: ctx)
  case Nil
  show ?case by (cases "receive_reads malloc k ys ctx") auto
next
  case (Cons x xs)
  show ?case
  proof (cases "process_rcvd_data malloc k x ctx")
    case (Inr v)
    obtain r c where v: "v = (r, c)" by fastforce
    show ?thesis
      by (cases "receive_reads malloc k xs c"; cases "receive_reads malloc k ys (snd (projr (receive_reads malloc k xs c)))")
         (auto simp: Inr v Cons.IH split: prod.splits)
  qed simp
qed

definition cut_into :: "(16 word \<times> byte list) list \<Rightarrow> byte list list list \<Rightarrow> bool" where
  "cut_into frames blocks \<longleftrightarrow> list_all2 (\<lambda>(t, p) reads. concat reads = link_frame t p) frames blocks"

lemma receive_frames:
  assumes "cut_into frames blocks" and "phase ctx = Phase_Non_Start" and "malloc_sized malloc"
    and "\<forall>(t, p) \<in> set frames. payload_fits p \<and> malloc (length p) \<noteq> None \<and> reply_of k t \<noteq> - 1"
  shows "\<exists>c. receive_reads malloc k (concat blocks) ctx
    = Inr (map (\<lambda>(t, p). (reply_of k t, message (received t p))) frames, c) \<and> phase c = Phase_Non_Start"
  using assms
proof (induction frames arbitrary: blocks ctx)
  case (Cons f frames)
  obtain t p where f: "f = (t, p)" by fastforce
  from Cons.prems(1) f obtain reads rest where
    b: "blocks = reads # rest" "concat reads = link_frame t p" "cut_into frames rest"
    by (auto simp: cut_into_def list_all2_Cons1)
  have "receive_reads malloc k reads ctx = Inr ([(reply_of k t, message (received t p))], received t p)"
    using receive_frame_fragmented [OF b(2) Cons.prems(2) _ Cons.prems(3)] Cons.prems(4) by (auto simp: f)
  moreover obtain c where "receive_reads malloc k (concat rest) (received t p)
      = Inr (map (\<lambda>(t, p). (reply_of k t, message (received t p))) frames, c)" "phase c = Phase_Non_Start"
    using Cons.IH [OF b(3), of "received t p"] Cons.prems(3,4) by (auto simp: received_def)
  ultimately show ?case by (simp add: b(1) receive_reads_append f)
qed (simp add: cut_into_def)

definition demo_consts :: host_link_consts where
  "demo_consts = \<lparr>RESPONSE_PACKET = 49, REQUEST_PACKET = 50, INSTALL_WASM_BYTECODE_APP = 51\<rparr>"

text \<open>
  Memory safety of the receiver: from any context the program can be in, whatever the bytes, the
  only fault is a write through NULL, and it needs a \<open>malloc\<close> of at most one megabyte that failed;
  otherwise the reply is one of the three documented ones and the context stays well formed.
\<close>

theorem receiver_memory_safe:
  assumes "malloc_sized malloc" and "link_safe malloc ctx"
  shows "case process_rcvd_data malloc k buf ctx of
      Inl f \<Rightarrow> f = Null_Deref \<and> malloc_fails malloc
    | Inr (r, ctx') \<Rightarrow> link_safe malloc ctx' \<and> r \<in> {- 1, REPLY_TYPE_EVENT, REPLY_TYPE_RESPONSE}"
  using process_safe [OF assms] .

text \<open>
  Reception: a receiver between frames that reads a whole frame with a response or request
  type and a payload of 1 byte to 1 MB reports that type, holds exactly the type, the length and
  the payload that were sent, and is again between frames. Whatever follows the frame in the
  same read is not looked at: the next frame of a coalesced read is lost.
\<close>

theorem frame_received_rest_dropped:
  assumes "phase ctx = Phase_Non_Start" and "payload_fits p"
    and "malloc_sized malloc" and "malloc (length p) = Some b" and "reply_of k t \<noteq> - 1"
  shows "process_rcvd_data malloc k (link_frame t p @ rest) ctx = Inr (reply_of k t, received t p)"
  using assms by (intro process_frame [where b = b]) (auto simp: malloc_sized_def)

theorem frame_received_rest_dropped_witness:
  "process_rcvd_data zeroed demo_consts (link_frame 49 [1, 2, 3] @ link_frame 50 [9]) recv_ctx_init
    = Inr (REPLY_TYPE_RESPONSE, received 49 [1, 2, 3])"
  using frame_received_rest_dropped [of recv_ctx_init "[1, 2, 3]" zeroed "[0, 0, 0]" demo_consts 49 "link_frame 50 [9]"]
  by (simp add: recv_ctx_init_def payload_fits_def zeroed_def reply_of_def demo_consts_def)

text \<open>
  Fragmentation: however the transport cuts a frame into reads, the loop of \<open>main\<close> acts
  exactly once, with the right reply type and the message that was sent.
\<close>

theorem frame_received_fragmented:
  assumes "concat reads = link_frame t p" and "phase ctx = Phase_Non_Start" and "payload_fits p"
    and "malloc_sized malloc" and "malloc (length p) = Some b" and "reply_of k t \<noteq> - 1"
  shows "receive_reads malloc k reads ctx
    = Inr ([(reply_of k t, message (received t p))], received t p)"
  using assms by (rule receive_frame_fragmented)

theorem frame_received_fragmented_witness:
  "receive_reads zeroed demo_consts [[0x12], [0x34, 0], [50, 0, 0], [0, 2, 7], [8]] recv_ctx_init
    = Inr ([(REPLY_TYPE_EVENT, message (received 50 [7, 8]))], received 50 [7, 8])"
  using frame_received_fragmented [of "[[0x12], [0x34, 0], [50, 0, 0], [0, 2, 7], [8]]" 50 "[7, 8]"
      recv_ctx_init zeroed "[0, 0]" demo_consts]
  by (simp add: recv_ctx_init_def payload_fits_def zeroed_def reply_of_def demo_consts_def link_frame_def
      leading_def mem16_def mem32_def byte_at_def ntohs_def ntohl_def mask_eq_exp_minus_1)

text \<open>
  C12. A stream of frames: when a read never holds bytes of two frames, and the transport is free to
  cut each frame in any way, the loop of \<open>main\<close> acts exactly once for each frame, in their order, with
  the right reply types and the messages that were sent, and is ready for the next one.
\<close>

theorem frames_received_in_order:
  assumes "cut_into frames blocks" and "phase ctx = Phase_Non_Start" and "malloc_sized malloc"
    and "\<forall>(t, p) \<in> set frames. payload_fits p \<and> malloc (length p) \<noteq> None \<and> reply_of k t \<noteq> - 1"
  shows "\<exists>c. receive_reads malloc k (concat blocks) ctx
    = Inr (map (\<lambda>(t, p). (reply_of k t, message (received t p))) frames, c) \<and> phase c = Phase_Non_Start"
  using assms by (rule receive_frames)

theorem frames_received_in_order_witness:
  "\<exists>c. receive_reads zeroed demo_consts [[0x12], [0x34, 0], [50, 0, 0], [0, 2, 7], [8], link_frame 49 [1]] recv_ctx_init
    = Inr ([(REPLY_TYPE_EVENT, message (received 50 [7, 8])), (REPLY_TYPE_RESPONSE, message (received 49 [1]))], c)"
proof -
  have "cut_into [(50, [7, 8]), (49, [1])] [[[0x12], [0x34, 0], [50, 0, 0], [0, 2, 7], [8]], [link_frame 49 [1]]]"
    by (simp add: cut_into_def link_frame_def leading_def mem16_def mem32_def byte_at_def ntohs_def ntohl_def mask_eq_exp_minus_1)
  moreover have "phase recv_ctx_init = Phase_Non_Start" by (simp add: recv_ctx_init_def)
  ultimately show ?thesis
    using frames_received_in_order [of _ _ recv_ctx_init zeroed demo_consts, OF _ _ zeroed_ok]
    by (fastforce simp: payload_fits_def zeroed_def reply_of_def demo_consts_def)
qed

text \<open>
  Resynchronisation: bytes in front of a frame that contain no \<open>0x12\<close> are skipped and the
  frame is received as if they were not there.
\<close>

theorem frame_received_after_noise:
  assumes "phase ctx = Phase_Non_Start" and "leading ! 0 \<notin> set noise" and "payload_fits p"
    and "malloc_sized malloc" and "malloc (length p) = Some b" and "reply_of k t \<noteq> - 1"
  shows "process_rcvd_data malloc k (noise @ link_frame t p) ctx = Inr (reply_of k t, received t p)"
proof -
  obtain c where c: "phase c = Phase_Non_Start"
    "\<And>buf. process_rcvd_data malloc k (noise @ buf) ctx = process_rcvd_data malloc k buf c"
    using process_noise [OF assms(1,2)] by blast
  then show ?thesis
    using process_frame [of c p malloc b k t "[]"] assms by (auto simp: malloc_sized_def)
qed

theorem frame_received_after_noise_witness:
  "process_rcvd_data zeroed demo_consts ([1, 0x34] @ link_frame 49 [5]) recv_ctx_init = Inr (REPLY_TYPE_RESPONSE, received 49 [5])"
  using frame_received_after_noise [of recv_ctx_init "[1, 0x34]" "[5]" zeroed "[0]" demo_consts 49]
  by (simp add: recv_ctx_init_def payload_fits_def zeroed_def reply_of_def demo_consts_def leading_def)

text \<open>
  A stray \<open>0x12\<close> right before a frame loses it: the second \<open>0x12\<close> is taken for a bad
  second leading byte and is not tried as a first one, so a frame with no other \<open>0x12\<close> in it
  is dropped silently and the receiver ends between frames.
\<close>

theorem doubled_leading_byte_loses_frame:
  assumes "phase ctx = Phase_Non_Start" and "leading ! 0 \<notin> set (tl (link_frame t p))"
  shows "\<exists>c. process_rcvd_data malloc k (leading ! 0 # link_frame t p) ctx = Inr (- 1, c) \<and> phase c = Phase_Non_Start"
proof -
  have two: "link_frame t p = leading ! 0 # tl (link_frame t p)"
    by (simp add: link_frame_def leading_def)
  have "\<exists>c. phase c = Phase_Non_Start
      \<and> process_rcvd_data malloc k (leading ! 0 # leading ! 0 # buf) ctx = process_rcvd_data malloc k buf c" for buf
    using assms(1)
    by (intro exI [of _ "ctx\<lparr>message := if payload (message ctx) = None then message ctx
          else (message ctx)\<lparr>payload := None, payload_size := 0\<rparr>\<rparr>"])
       (cases ctx, auto simp: leading_def byte_arrive_simps)
  then have "\<exists>c. phase c = Phase_Non_Start
      \<and> process_rcvd_data malloc k (leading ! 0 # link_frame t p) ctx = process_rcvd_data malloc k (tl (link_frame t p)) c"
    by (subst two)
  then obtain c where c: "phase c = Phase_Non_Start"
    "process_rcvd_data malloc k (leading ! 0 # link_frame t p) ctx = process_rcvd_data malloc k (tl (link_frame t p)) c"
    by blast
  obtain d where "phase d = Phase_Non_Start"
    "\<And>buf. process_rcvd_data malloc k (tl (link_frame t p) @ buf) c = process_rcvd_data malloc k buf d"
    using process_noise [OF c(1) assms(2)] by blast
  from this(1) this(2) [of "[]"] c(2) show ?thesis by simp
qed

theorem doubled_leading_byte_loses_frame_witness:
  "\<exists>c. process_rcvd_data zeroed demo_consts (leading ! 0 # link_frame 49 [5]) recv_ctx_init = Inr (- 1, c)
     \<and> phase c = Phase_Non_Start"
  by (rule doubled_leading_byte_loses_frame)
     (simp_all add: recv_ctx_init_def link_frame_def leading_def mem16_def mem32_def byte_at_def ntohs_def
       ntohl_def mask_eq_exp_minus_1)

text \<open>
  C35. An announced payload of more than 1 MB is refused before any memory is requested: the
  header is consumed, the receiver is between frames with no payload buffer, and the bytes that
  follow are read as the start of something new; this holds for every \<open>malloc\<close>, also a failing one.
\<close>

theorem oversized_frame_refused:
  assumes "phase ctx = Phase_Non_Start" and "1024 * 1024 < n"
  shows "\<exists>c. phase c = Phase_Non_Start \<and> payload (message c) = None
    \<and> process_rcvd_data malloc k (leading @ mem16 (htons t) @ mem32 (htonl n) @ rest) ctx
        = process_rcvd_data malloc k rest c"
  using assms by (rule process_oversized)

theorem oversized_frame_refused_witness:
  "\<exists>c. phase c = Phase_Non_Start \<and> payload (message c) = None
    \<and> process_rcvd_data (\<lambda>_. None) demo_consts (leading @ mem16 (htons 49) @ mem32 (htonl 0x200000) @ [1, 2]) recv_ctx_init
        = process_rcvd_data (\<lambda>_. None) demo_consts [1, 2] c"
  by (rule oversized_frame_refused) (simp_all add: recv_ctx_init_def)

end
