(* ===== verification/Runtime_Send.thy ===== *)
theory Runtime_Send
  imports Imrt_Link "HOL-Library.Sublist"
begin

text \<open>
  The sending side of the link: \<open>host_tool_send_data\<close> (bridge-tool/src/runtime_conn.c) with its
  bounded retry of \<open>write\<close>, and \<open>send_request\<close> (bridge-tool/src/runtime_request.c), which packs a
  request and writes it as one frame in four calls. \<open>write\<close> is an oracle indexed by the number
  of calls made so far; \<open>pack_request\<close> and \<open>init_request\<close> are WAMR's (shared-utils, not in the
  repository) and are fields of \<open>wamr_api\<close>.
\<close>

section \<open>Writing to the connection\<close>

datatype errno = ECONNRESET | EAGAIN | EOTHER \<comment> \<open>\<open>EWOULDBLOCK\<close> is \<open>EAGAIN\<close> on Linux\<close>

datatype write_result = Wrote nat | Write_Error errno

type_synonym kernel = "nat \<Rightarrow> write_result"

record link_out =
  g_runtime_conn_fd :: int
  closed_fds :: "int list"   \<comment> \<open>descriptors passed to \<open>close\<close>\<close>
  written :: "byte list"     \<comment> \<open>bytes the kernel accepted\<close>
  writes :: nat              \<comment> \<open>calls of \<open>write\<close>\<close>
  sleeps :: nat              \<comment> \<open>calls of \<open>sleep (1)\<close>\<close>

definition close_conn :: "link_out \<Rightarrow> link_out" where
  "close_conn s = s\<lparr>closed_fds := g_runtime_conn_fd s # closed_fds s\<rparr>"

definition runtime_conn_close :: "link_out \<Rightarrow> link_out" where
  "runtime_conn_close s = close_conn s"

text \<open>The loop at label \<open>resend\<close>; \<open>ret == len\<close> compares 32-bit values.\<close>

function send_loop :: "kernel \<Rightarrow> byte list \<Rightarrow> nat \<Rightarrow> link_out \<Rightarrow> bool \<times> link_out" where
  "send_loop kern buf cnt s =
     (let r = kern (writes s); s = s\<lparr>writes := Suc (writes s)\<rparr>;
          len = (word_of_nat (length buf) :: 32 word)
      in case r of
           Wrote n \<Rightarrow> (let m = min n (length buf)
                      in (word_of_nat m = len, s\<lparr>written := written s @ take m buf\<rparr>))
         | Write_Error e \<Rightarrow>
             (let s = (if e = ECONNRESET then close_conn s else s)
              in if e = EAGAIN
                 then if 10 < cnt + 1 then (False, close_conn s)
                      else send_loop kern buf (cnt + 1) (s\<lparr>sleeps := Suc (sleeps s)\<rparr>)
                 else (- 1 = len, s)))"
  by pat_completeness auto
termination
  by (relation "measure (\<lambda>(kern, buf, cnt, s). 11 - cnt)") auto

declare send_loop.simps [simp del]

definition host_tool_send_data :: "kernel \<Rightarrow> byte list option \<Rightarrow> link_out \<Rightarrow> bool \<times> link_out" where
  "host_tool_send_data kern buf s =
     (case buf of
        None \<Rightarrow> (False, s)
      | Some b \<Rightarrow> if g_runtime_conn_fd s = - 1 \<or> length b = 0 then (False, s)
                  else send_loop kern b 0 s)"

section \<open>Sending a request\<close>

record request_t =
  mid :: "32 word"
  url :: string
  action :: int
  fmt :: int
  rq_payload :: "byte list option"
  payload_len :: int
  sender :: int

record response_t =
  r_mid :: "32 word"
  r_status :: int
  r_fmt :: int
  r_payload :: "byte list option"
  r_payload_len :: int

record wamr_api =
  init_request :: "string \<Rightarrow> int \<Rightarrow> int \<Rightarrow> byte list option \<Rightarrow> int \<Rightarrow> request_t"
  pack_request :: "request_t \<Rightarrow> byte list option"
  unpack_request :: "byte list option \<Rightarrow> request_t option"
  unpack_response :: "byte list option \<Rightarrow> response_t option"
  link_consts :: host_link_consts
  COAP_GET :: int
  COAP_PUT :: int
  COAP_DELETE :: int
  COAP_EVENT_PUB :: int
  COAP_EVENT_SUB :: int
  COAP_EVENT_UNSUB :: int
  FMT_ATTR_CONTAINER :: int
  FMT_APP_RAW_BINARY :: int

definition request_msg_type :: "wamr_api \<Rightarrow> bool \<Rightarrow> 16 word" where
  "request_msg_type w is_install_wasm_bytecode_app =
     word_of_int (if is_install_wasm_bytecode_app then INSTALL_WASM_BYTECODE_APP (link_consts w)
                  else REQUEST_PACKET (link_consts w))"

definition send_request :: "wamr_api \<Rightarrow> kernel \<Rightarrow> request_t \<Rightarrow> bool \<Rightarrow> link_out \<Rightarrow> int \<times> link_out" where
  "send_request w kern request is_install_wasm_bytecode_app s =
     (case pack_request w request of
        None \<Rightarrow> (- 1, s)
      | Some req_p \<Rightarrow>
          (case host_tool_send_data kern (Some leading) s of
             (False, s) \<Rightarrow> (- 1, s)
           | (True, s) \<Rightarrow>
          (case host_tool_send_data kern
                  (Some (mem16 (htons (request_msg_type w is_install_wasm_bytecode_app)))) s of
             (False, s) \<Rightarrow> (- 1, s)
           | (True, s) \<Rightarrow>
          (case host_tool_send_data kern (Some (mem32 (htonl (word_of_nat (length req_p))))) s of
             (False, s) \<Rightarrow> (- 1, s)
           | (True, s) \<Rightarrow>
          (case host_tool_send_data kern (Some req_p) s of
             (False, s) \<Rightarrow> (- 1, s)
           | (True, s) \<Rightarrow> (0, s))))))"

section \<open>What reaches the wire\<close>

definition int_sized :: "byte list \<Rightarrow> bool" where
  "int_sized b \<longleftrightarrow> 0 < length b \<and> length b < 2 ^ 31"

lemma int_sized_word:
  assumes "int_sized b" and "m \<le> length b"
  shows "(word_of_nat m :: 32 word) = word_of_nat (length b) \<longleftrightarrow> m = length b"
    and "(- 1 :: 32 word) \<noteq> word_of_nat (length b)"
proof -
  from assms have u: "unat (word_of_nat m :: 32 word) = m" "unat (word_of_nat (length b) :: 32 word) = length b"
    by (simp_all add: int_sized_def unat_of_nat)
  then show "(word_of_nat m :: 32 word) = word_of_nat (length b) \<longleftrightarrow> m = length b"
    by metis
  show "(- 1 :: 32 word) \<noteq> word_of_nat (length b)"
  proof
    assume "(- 1 :: 32 word) = word_of_nat (length b)"
    then have "unat (- 1 :: 32 word) = length b" using u(2) by simp
    with assms(1) show False by (simp add: int_sized_def unsigned_minus_1_eq_mask mask_eq_exp_minus_1)
  qed
qed

lemma send_loop_written:
  assumes "int_sized buf"
  shows "\<exists>q. written (snd (send_loop kern buf cnt s)) = written s @ q \<and> prefix q buf
     \<and> (fst (send_loop kern buf cnt s) \<longleftrightarrow> q = buf)"
  using assms
proof (induction kern buf cnt s rule: send_loop.induct)
  case (1 kern buf cnt s)
  show ?case
  proof (cases "kern (writes s)")
    case (Wrote n)
    then show ?thesis using int_sized_word(1) [OF "1.prems", of "min n (length buf)"]
      by (auto simp: send_loop.simps [of kern buf cnt s] Let_def take_is_prefix min_def)
  next
    case (Write_Error e)
    show ?thesis
    proof (cases "e = EAGAIN \<and> cnt + 1 \<le> 10")
      case True
      let ?s = "s\<lparr>writes := Suc (writes s), sleeps := Suc (sleeps s)\<rparr>"
      from True Write_Error have "send_loop kern buf cnt s = send_loop kern buf (cnt + 1) ?s"
        by (simp add: send_loop.simps [of kern buf cnt s] Let_def)
      moreover have "\<exists>q. written (snd (send_loop kern buf (cnt + 1) ?s)) = written ?s @ q \<and> prefix q buf
          \<and> (fst (send_loop kern buf (cnt + 1) ?s) \<longleftrightarrow> q = buf)"
        using "1.IH" [OF refl refl refl Write_Error refl] True "1.prems" by simp
      ultimately show ?thesis by simp
    next
      case False
      then show ?thesis using Write_Error int_sized_word(2) [OF "1.prems"] "1.prems"
        by (auto simp: send_loop.simps [of kern buf cnt s] Let_def close_conn_def int_sized_def)
    qed
  qed
qed

lemma send_loop_writes: "cnt \<le> 10 \<Longrightarrow> writes (snd (send_loop kern buf cnt s)) \<le> writes s + (11 - cnt)"
proof (induction kern buf cnt s rule: send_loop.induct)
  case (1 kern buf cnt s)
  show ?case
  proof (cases "kern (writes s) = Write_Error EAGAIN \<and> cnt + 1 \<le> 10")
    case True
    let ?s = "s\<lparr>writes := Suc (writes s), sleeps := Suc (sleeps s)\<rparr>"
    from True have "send_loop kern buf cnt s = send_loop kern buf (cnt + 1) ?s"
      by (simp add: send_loop.simps [of kern buf cnt s] Let_def)
    moreover have "writes (snd (send_loop kern buf (cnt + 1) ?s)) \<le> writes ?s + (11 - (cnt + 1))"
      using "1.IH" [OF refl refl refl conjunct1 [OF True] refl] True by simp
    ultimately show ?thesis using conjunct2 [OF True] by simp
  next
    case False
    then show ?thesis using "1.prems"
      by (auto simp: send_loop.simps [of kern buf cnt s] Let_def close_conn_def split: write_result.splits)
  qed
qed

section \<open>The contract of a byte sink\<close>

text \<open>
  What \<open>send_request\<close> relies on: one call puts a prefix of its bytes on the wire, the whole of
  them exactly when it reports success. Several calls, stopped at the first failure, then put a
  prefix of the concatenation there.
\<close>

fun send_all :: "('b \<Rightarrow> 's \<Rightarrow> bool \<times> 's) \<Rightarrow> 'b list \<Rightarrow> 's \<Rightarrow> bool \<times> 's" where
  "send_all send [] s = (True, s)"
| "send_all send (b # bs) s = (case send b s of (True, s) \<Rightarrow> send_all send bs s | (False, s) \<Rightarrow> (False, s))"

locale byte_sink =
  fixes send :: "byte list \<Rightarrow> 's \<Rightarrow> bool \<times> 's"
    and out :: "'s \<Rightarrow> byte list"
    and cost :: "'s \<Rightarrow> nat"
    and sendable :: "byte list \<Rightarrow> bool"
  assumes send_out: "sendable b \<Longrightarrow> \<exists>q. out (snd (send b s)) = out s @ q \<and> prefix q b \<and> (fst (send b s) \<longleftrightarrow> q = b)"
    and send_cost: "cost (snd (send b s)) \<le> cost s + 11"
begin

lemma send_all_out:
  assumes "\<forall>b \<in> set bs. sendable b"
  shows "\<exists>q. out (snd (send_all send bs s)) = out s @ q \<and> prefix q (concat bs)
     \<and> (fst (send_all send bs s) \<longleftrightarrow> q = concat bs)"
  using assms
proof (induction bs arbitrary: s)
  case Nil
  then show ?case by simp
next
  case (Cons b bs)
  obtain r s1 where s1: "send b s = (r, s1)" by fastforce
  with Cons.prems send_out [of b s] obtain q where q: "out s1 = out s @ q" "prefix q b" "r \<longleftrightarrow> q = b"
    by auto
  show ?case
  proof (cases r)
    case True
    with Cons.IH [of s1] Cons.prems q s1 show ?thesis by auto
  next
    case False
    then have "q \<noteq> b @ concat bs" and "prefix q (b @ concat bs)"
      using q by (auto simp: prefix_def)
    with False q s1 show ?thesis by auto
  qed
qed

lemma send_all_cost: "cost (snd (send_all send bs s)) \<le> cost s + 11 * length bs"
proof (induction bs arbitrary: s)
  case Nil
  then show ?case by simp
next
  case (Cons b bs)
  obtain r s1 where s1: "send b s = (r, s1)" by fastforce
  with send_cost [of b s] Cons.IH [of s1] show ?case by (cases r) auto
qed

end

interpretation host_sink: byte_sink "\<lambda>b. host_tool_send_data kern (Some b)" written writes int_sized for kern
proof
  fix b and s :: link_out
  assume "int_sized b"
  then show "\<exists>q. written (snd (host_tool_send_data kern (Some b) s)) = written s @ q \<and> prefix q b
      \<and> (fst (host_tool_send_data kern (Some b) s) \<longleftrightarrow> q = b)"
    using send_loop_written [of b kern 0 s] by (auto simp: host_tool_send_data_def int_sized_def)
next
  fix b and s :: link_out
  show "writes (snd (host_tool_send_data kern (Some b) s)) \<le> writes s + 11"
    using send_loop_writes [of 0 kern b s] by (simp add: host_tool_send_data_def)
qed

text \<open>The four pieces of a frame.\<close>

definition frame_pieces :: "16 word \<Rightarrow> byte list \<Rightarrow> byte list list" where
  "frame_pieces t p = [leading, mem16 (htons t), mem32 (htonl (word_of_nat (length p))), p]"

lemma concat_frame_pieces: "concat (frame_pieces t p) = link_frame t p"
  by (simp add: frame_pieces_def link_frame_def)

lemma send_request_pieces:
  assumes "pack_request w request = Some req_p"
  shows "send_request w kern request b s =
    (case send_all (\<lambda>b. host_tool_send_data kern (Some b)) (frame_pieces (request_msg_type w b) req_p) s
     of (True, s) \<Rightarrow> (0, s) | (False, s) \<Rightarrow> (- 1, s))"
  using assms by (simp add: send_request_def frame_pieces_def split: prod.splits bool.splits)

lemma frame_pieces_sized:
  assumes "int_sized p"
  shows "\<forall>b \<in> set (frame_pieces t p). int_sized b"
  using assms by (auto simp: frame_pieces_def int_sized_def leading_def mem16_def mem32_def)

lemma send_request_out:
  assumes "pack_request w request = Some req_p" and "int_sized req_p"
  shows "\<exists>q. written (snd (send_request w kern request b s)) = written s @ q
     \<and> prefix q (link_frame (request_msg_type w b) req_p)
     \<and> fst (send_request w kern request b s) = (if q = link_frame (request_msg_type w b) req_p then 0 else - 1)"
proof -
  let ?bs = "frame_pieces (request_msg_type w b) req_p"
  obtain r s' where run: "send_all (\<lambda>b. host_tool_send_data kern (Some b)) ?bs s = (r, s')" by fastforce
  with host_sink.send_all_out [OF frame_pieces_sized [OF assms(2)],
      of kern "request_msg_type w b" s]
  obtain q where "written s' = written s @ q" "prefix q (concat ?bs)" "r \<longleftrightarrow> q = concat ?bs" by auto
  with run show ?thesis
    unfolding send_request_pieces [OF assms(1)] concat_frame_pieces by (cases r) auto
qed

lemma send_request_cost: "writes (snd (send_request w kern request b s)) \<le> writes s + 44"
proof (cases "pack_request w request")
  case None
  then show ?thesis by (simp add: send_request_def)
next
  case (Some p)
  show ?thesis
    using host_sink.send_all_cost [of kern "frame_pieces (request_msg_type w b) p" s]
    unfolding send_request_pieces [OF Some]
    by (auto simp: frame_pieces_def split: prod.splits bool.splits)
qed

text \<open>A connection that takes \<open>n\<close> bytes at every \<open>write\<close>.\<close>

definition accepts :: "nat \<Rightarrow> kernel \<Rightarrow> bool" where
  "accepts n kern \<longleftrightarrow> (\<forall>i. \<exists>m. kern i = Wrote m \<and> n \<le> m)"

lemma accepting_send:
  assumes "accepts n kern" and "length b \<le> n" and "b \<noteq> []" and "g_runtime_conn_fd w \<noteq> - 1"
  shows "host_tool_send_data kern (Some b) w = (True, w\<lparr>writes := Suc (writes w), written := written w @ b\<rparr>)"
proof -
  obtain m where "kern (writes w) = Wrote m" "n \<le> m" using assms(1) by (auto simp: accepts_def)
  with assms(2-4) show ?thesis by (simp add: host_tool_send_data_def send_loop.simps min_absorb2)
qed

lemma accepting_request:
  assumes "accepts n kern" and "pack_request w request = Some p" and "int_sized p" and "length p \<le> n" and "4 \<le> n"
    and "g_runtime_conn_fd s \<noteq> - 1"
  shows "send_request w kern request inst s
    = (0, s\<lparr>writes := writes s + 4, written := written s @ link_frame (request_msg_type w inst) p\<rparr>)"
proof -
  have "p \<noteq> []" using assms(3) by (auto simp: int_sized_def)
  moreover have "length leading = 2" "leading \<noteq> []" "\<And>t. mem16 t \<noteq> []" "\<And>v. mem32 v \<noteq> []"
    by (simp_all add: leading_def mem16_def mem32_def)
  ultimately show ?thesis using assms(4-6)
    by (simp add: send_request_pieces [OF assms(2)] frame_pieces_def link_frame_def accepting_send [OF assms(1)])
qed

section \<open>Properties\<close>

definition demo_wamr :: wamr_api where
  "demo_wamr = \<lparr>init_request = (\<lambda>u a f p n. \<lparr>mid = 0, url = u, action = a, fmt = f, rq_payload = p, payload_len = n, sender = 0\<rparr>),
     pack_request = (\<lambda>r. Some (word_of_int (action r) # map of_char (url r))),
     unpack_request = (\<lambda>_. None), unpack_response = (\<lambda>_. None), link_consts = demo_consts,
     COAP_GET = 1, COAP_PUT = 3, COAP_DELETE = 4, COAP_EVENT_PUB = 0xAA,
     COAP_EVENT_SUB = 0xAB, COAP_EVENT_UNSUB = 0xAC, FMT_ATTR_CONTAINER = 99, FMT_APP_RAW_BINARY = 98\<rparr>"

definition demo_out :: link_out where
  "demo_out = \<lparr>g_runtime_conn_fd = 5, closed_fds = [], written = [], writes = 0, sleeps = 0\<rparr>"

definition demo_request :: request_t where
  "demo_request = init_request demo_wamr ''/applet'' 1 99 None 0"

text \<open>
  C22. Sending is all or a prefix: \<open>send_request\<close> puts a prefix of the frame of the packed request
  on the wire, and returns 0 exactly when that prefix is the whole frame, whatever \<open>write\<close> does
  (short writes, full buffers, resets). \<open>int_sized\<close> says that the packed request is not empty and
  its length fits \<open>int\<close>, the type of \<open>req_size\<close>.
\<close>

theorem send_request_writes_frame:
  assumes "pack_request w request = Some req_p" and "int_sized req_p"
  shows "\<exists>q. written (snd (send_request w kern request inst s)) = written s @ q
     \<and> prefix q (link_frame (request_msg_type w inst) req_p)
     \<and> fst (send_request w kern request inst s) = (if q = link_frame (request_msg_type w inst) req_p then 0 else - 1)"
  using assms by (rule send_request_out)

theorem send_request_writes_frame_witness:
  "\<exists>q. written (snd (send_request demo_wamr (\<lambda>n. Wrote 3) demo_request False demo_out)) = written demo_out @ q
     \<and> prefix q (link_frame (request_msg_type demo_wamr False) [1, 47, 97, 112, 112, 108, 101, 116])
     \<and> fst (send_request demo_wamr (\<lambda>n. Wrote 3) demo_request False demo_out)
         = (if q = link_frame (request_msg_type demo_wamr False) [1, 47, 97, 112, 112, 108, 101, 116] then 0 else - 1)"
  by (rule send_request_writes_frame)
     (simp_all add: demo_request_def demo_wamr_def int_sized_def)

text \<open>
  C36. The retry loops end: a request costs at most 44 calls of \<open>write\<close> (four pieces, at most
  eleven attempts each), for every behaviour of the connection.
\<close>

theorem send_request_bounded_writes: "writes (snd (send_request w kern request inst s)) \<le> writes s + 44"
  by (rule send_request_cost)

text \<open>
  C1. End to end: when \<open>send_request\<close> returns 0 on a fresh connection, a receiver with the same
  constants that reads what was written, cut into reads in any way, gets exactly one message,
  with the type that was sent and the packed request as its payload.
\<close>

theorem sent_request_is_received:
  assumes "pack_request w request = Some req_p" and "payload_fits req_p"
    and "fst (send_request w kern request inst s) = 0"
    and "written (snd (send_request w kern request inst s)) = written s @ concat reads"
    and "phase ctx = Phase_Non_Start" and "malloc_sized malloc" and "malloc (length req_p) = Some b"
    and "reply_of k (request_msg_type w inst) \<noteq> - 1"
  shows "receive_reads malloc k reads ctx
    = Inr ([(reply_of k (request_msg_type w inst), message (received (request_msg_type w inst) req_p))],
        received (request_msg_type w inst) req_p)"
proof -
  have "int_sized req_p" using assms(2) by (simp add: payload_fits_def int_sized_def)
  with assms(1,3,4) have "concat reads = link_frame (request_msg_type w inst) req_p"
    using send_request_out [of w request req_p kern inst s] by (auto split: if_splits)
  then show ?thesis
    using assms(5,2,6-8) by (rule receive_frame_fragmented)
qed

definition demo_packed :: "byte list" where
  "demo_packed = [1, 47, 97, 112, 112, 108, 101, 116]"

lemma demo_send:
  "pack_request demo_wamr demo_request = Some demo_packed"
  "request_msg_type demo_wamr False = 50"
  "send_request demo_wamr (\<lambda>_. Wrote 100) demo_request False demo_out
     = (0, demo_out\<lparr>written := link_frame 50 demo_packed, writes := 4\<rparr>)"
  by (simp_all add: send_request_def host_tool_send_data_def send_loop.simps demo_request_def demo_wamr_def
      demo_out_def demo_packed_def link_frame_def leading_def mem16_def mem32_def request_msg_type_def demo_consts_def)

theorem sent_request_is_received_witness:
  "receive_reads zeroed demo_consts [take 3 (link_frame 50 demo_packed), drop 3 (link_frame 50 demo_packed)] recv_ctx_init
    = Inr ([(REPLY_TYPE_EVENT, message (received 50 demo_packed))], received 50 demo_packed)"
proof -
  have hyps: "payload_fits demo_packed" "phase recv_ctx_init = Phase_Non_Start"
      "zeroed (length demo_packed) = Some (replicate (length demo_packed) 0)"
      "reply_of demo_consts 50 = REPLY_TYPE_EVENT"
    by (simp_all add: payload_fits_def demo_packed_def recv_ctx_init_def zeroed_def reply_of_def demo_consts_def)
  show ?thesis
    using sent_request_is_received [of demo_wamr demo_request demo_packed "\<lambda>_. Wrote 100" False demo_out
      "[take 3 (link_frame 50 demo_packed), drop 3 (link_frame 50 demo_packed)]" recv_ctx_init zeroed
      "replicate (length demo_packed) 0" demo_consts] hyps
    unfolding demo_send by (simp add: demo_out_def)
qed

end
