(* ===== verification/Send_Threads.thy ===== *)
theory Send_Threads
  imports Runtime_Send
begin

text \<open>
  Two threads on one connection. The HTTP thread sends the requests of REST clients, the main
  thread those that come in through MQTT, both with \<open>send_request\<close>
  (bridge-tool/src/runtime_request.c), which writes a frame with four calls of
  \<open>host_tool_send_data\<close> and holds no lock. Here a step is one of these calls by one thread; a
  schedule is the list of the threads that take a step.
\<close>

section \<open>Threads\<close>

datatype sender_thread = Main_Thread | Http_Thread

text \<open>The threads are finitely many, so that what is said of all of them can be computed.\<close>

instantiation sender_thread :: enum
begin

definition enum_sender_thread :: "sender_thread list" where
  "enum_sender_thread = [Main_Thread, Http_Thread]"

definition enum_all_sender_thread :: "(sender_thread \<Rightarrow> bool) \<Rightarrow> bool" where
  "enum_all_sender_thread P \<longleftrightarrow> P Main_Thread \<and> P Http_Thread"

definition enum_ex_sender_thread :: "(sender_thread \<Rightarrow> bool) \<Rightarrow> bool" where
  "enum_ex_sender_thread P \<longleftrightarrow> P Main_Thread \<or> P Http_Thread"

instance
proof
  have "x \<in> set [Main_Thread, Http_Thread]" for x by (cases x) simp_all
  then show univ: "(UNIV :: sender_thread set) = set enum_class.enum"
    unfolding enum_sender_thread_def by blast
  show "distinct (enum_class.enum :: sender_thread list)"
    by (simp add: enum_sender_thread_def)
  fix P :: "sender_thread \<Rightarrow> bool"
  have "Ball UNIV P \<longleftrightarrow> P Main_Thread \<and> P Http_Thread" "Bex UNIV P \<longleftrightarrow> P Main_Thread \<or> P Http_Thread"
    unfolding univ by (simp_all add: enum_sender_thread_def)
  then show "enum_class.enum_all P \<longleftrightarrow> Ball UNIV P" and "enum_class.enum_ex P \<longleftrightarrow> Bex UNIV P"
    by (simp_all add: enum_all_sender_thread_def enum_ex_sender_thread_def)
qed

end

lemma all_threads: "(\<forall>i. P i) \<longleftrightarrow> P Main_Thread \<and> P Http_Thread"
  by (metis sender_thread.exhaust)

record senders =
  wire :: link_out
  todo :: "sender_thread \<Rightarrow> byte list list"   \<comment> \<open>what the thread has yet to hand over\<close>
  result :: "sender_thread \<Rightarrow> int"            \<comment> \<open>-1 once \<open>send_request\<close> has returned it\<close>

definition send_piece :: "kernel \<Rightarrow> sender_thread \<Rightarrow> senders \<Rightarrow> senders" where
  "send_piece kern i s =
     (case todo s i of
        [] \<Rightarrow> s
      | b # bs \<Rightarrow>
          (case host_tool_send_data kern (Some b) (wire s) of
             (True, w) \<Rightarrow> s\<lparr>wire := w, todo := (todo s)(i := bs)\<rparr>
           | (False, w) \<Rightarrow> s\<lparr>wire := w, todo := (todo s)(i := []), result := (result s)(i := - 1)\<rparr>))"

definition run_senders :: "kernel \<Rightarrow> sender_thread list \<Rightarrow> senders \<Rightarrow> senders" where
  "run_senders kern sched s = fold (send_piece kern) sched s"

definition two_senders :: "link_out \<Rightarrow> byte list list \<Rightarrow> byte list list \<Rightarrow> senders" where
  "two_senders w main http =
     \<lparr>wire = w, todo = (\<lambda>i. case i of Main_Thread \<Rightarrow> main | Http_Thread \<Rightarrow> http), result = (\<lambda>_. 0)\<rparr>"

definition both_sent :: "senders \<Rightarrow> bool" where
  "both_sent s \<longleftrightarrow> (\<forall>i. todo s i = [] \<and> result s i = 0)"

section \<open>Lemmas\<close>

lemma run_senders_simps [simp]:
  "run_senders kern [] s = s" "run_senders kern (i # is) s = run_senders kern is (send_piece kern i s)"
  by (simp_all add: run_senders_def)

lemma run_idle: "todo s i = [] \<Longrightarrow> run_senders kern (replicate n i) s = s"
  by (induction n) (simp_all add: send_piece_def)

lemma run_alone:
  assumes "length (todo s i) \<le> n"
  shows "run_senders kern (replicate n i) s =
    (case send_all (\<lambda>b. host_tool_send_data kern (Some b)) (todo s i) (wire s) of
       (True, w) \<Rightarrow> s\<lparr>wire := w, todo := (todo s)(i := [])\<rparr>
     | (False, w) \<Rightarrow> s\<lparr>wire := w, todo := (todo s)(i := []), result := (result s)(i := - 1)\<rparr>)"
  using assms
proof (induction n arbitrary: s)
  case 0
  then show ?case by (cases s) (simp add: fun_upd_idem)
next
  case (Suc n)
  show ?case
  proof (cases "todo s i")
    case Nil
    then show ?thesis using run_idle [of s i kern "Suc n"] by (cases s) (simp add: fun_upd_idem)
  next
    case (Cons b bs)
    obtain ok w where send: "host_tool_send_data kern (Some b) (wire s) = (ok, w)" by fastforce
    show ?thesis
    proof (cases ok)
      case True
      then show ?thesis using Suc.IH [of "s\<lparr>wire := w, todo := (todo s)(i := bs)\<rparr>"] Suc.prems Cons send
        by (cases s) (auto simp: send_piece_def split: prod.split bool.split)
    next
      case False
      then show ?thesis using Cons send by (simp add: send_piece_def run_idle)
    qed
  qed
qed

lemma result_stays: "result s i \<noteq> 0 \<Longrightarrow> result (run_senders kern sched s) i \<noteq> 0"
proof (induction sched arbitrary: s)
  case (Cons j sched)
  then have "result (send_piece kern j s) i \<noteq> 0"
    by (auto simp: send_piece_def split: list.splits prod.splits bool.splits)
  with Cons.IH show ?case by simp
qed simp

lemma run_interleaves:
  assumes "\<forall>i. \<forall>b \<in> set (todo s i). int_sized b" and "both_sent (run_senders kern sched s)"
  shows "\<exists>zs \<in> shuffles (todo s Main_Thread) (todo s Http_Thread).
    written (wire (run_senders kern sched s)) = written (wire s) @ concat zs"
  using assms
proof (induction sched arbitrary: s)
  case Nil
  then show ?case by (simp add: both_sent_def all_threads)
next
  case (Cons i sched)
  show ?case
  proof (cases "todo s i")
    case Nil
    then have "send_piece kern i s = s" by (simp add: send_piece_def)
    with Cons show ?thesis by simp
  next
    case piece: (Cons b bs)
    obtain ok w where send: "host_tool_send_data kern (Some b) (wire s) = (ok, w)" by fastforce
    have "b \<in> set (todo s i)" using piece by simp
    with Cons.prems(1) have sized: "int_sized b" by blast
    have ok
    proof (rule ccontr)
      assume "\<not> ok"
      then have "result (send_piece kern i s) i \<noteq> 0" using piece send by (simp add: send_piece_def)
      then show False using result_stays [of "send_piece kern i s" i kern sched] Cons.prems(2)
        by (cases i) (auto simp: both_sent_def all_threads)
    qed
    then have s1: "send_piece kern i s = s\<lparr>wire := w, todo := (todo s)(i := bs)\<rparr>" and w: "written w = written (wire s) @ b"
      using piece send host_sink.send_out [OF sized, of kern "wire s"] by (simp_all add: send_piece_def)
    have "\<forall>j. \<forall>b \<in> set (todo (send_piece kern i s) j). int_sized b"
      using Cons.prems(1) piece by (auto simp: s1) (metis list.set_intros(2))
    with Cons.IH [of "send_piece kern i s"] Cons.prems(2) obtain zs where
      zs: "zs \<in> shuffles (todo (send_piece kern i s) Main_Thread) (todo (send_piece kern i s) Http_Thread)"
        "written (wire (run_senders kern sched (send_piece kern i s))) = written w @ concat zs"
      by (auto simp: s1)
    from zs(1) [unfolded s1] have "b # zs \<in> shuffles (todo s Main_Thread) (todo s Http_Thread)"
      using piece by (cases i) (simp_all add: Cons_in_shuffles_leftI Cons_in_shuffles_rightI)
    with zs(2) w show ?thesis by (intro bexI [of _ "b # zs"]) simp_all
  qed
qed

text \<open>Two frames, cut where \<open>send_request\<close> cuts them.\<close>

definition two_requests :: "link_out \<Rightarrow> 16 word \<Rightarrow> byte list \<Rightarrow> 16 word \<Rightarrow> byte list \<Rightarrow> senders" where
  "two_requests w t1 p1 t2 p2 = two_senders w (frame_pieces t1 p1) (frame_pieces t2 p2)"

lemma two_requests_sized:
  "int_sized p1 \<Longrightarrow> int_sized p2 \<Longrightarrow> \<forall>i. \<forall>b \<in> set (todo (two_requests w t1 p1 t2 p2) i). int_sized b"
  using frame_pieces_sized [of p1 t1] frame_pieces_sized [of p2 t2]
  by (simp add: two_requests_def two_senders_def split: sender_thread.split)

lemma bit_bound: "2 ^ 28 \<le> w" if "bit w 28" for w :: "32 word"
proof -
  have "bit (unat w) 28" using that by (simp add: bit_unsigned_iff)
  then have "odd (unat w div 2 ^ 28)" by (simp add: bit_iff_odd)
  then have "2 ^ 28 \<le> unat w" by (cases "unat w < 2 ^ 28") auto
  then show ?thesis by (simp add: word_le_nat_alt)
qed

text \<open>A leading and a type that are read as a size announce more than 256 MB.\<close>

lemma huge_size: "\<exists>n. leading @ mem16 t = mem32 (htonl n) \<and> 1024 * 1024 < n"
proof -
  define w :: "32 word" where
    "w = put_byte (put_byte (put_byte (put_byte 0 0 0x12) 1 0x34) 2 (byte_at t 0)) 3 (byte_at t 1)"
  have "byte_at w 0 = 0x12" "byte_at w 1 = 0x34" "byte_at w 2 = byte_at t 0" "byte_at w 3 = byte_at t 1"
    by (rule bit_word_eqI; simp add: w_def bit_byte_at bit_put_byte; fail)+
  then have mem: "leading @ mem16 t = mem32 (htonl (ntohl w))" by (simp add: leading_def mem16_def mem32_def)
  have "bit w 4" by (simp add: w_def bit_put_byte)
  then have "bit (ntohl w) 28" by (simp add: bit_ntohl)
  then have "2 ^ 28 \<le> ntohl w" by (rule bit_bound)
  then have "1024 * 1024 < ntohl w" by (rule less_le_trans [rotated]) simp
  with mem show ?thesis by blast
qed

lemma accepting_piece:
  assumes "accepts n kern" and "g_runtime_conn_fd (wire s) \<noteq> - 1" and "todo s i = b # bs" and "b \<noteq> []" and "length b \<le> n"
  shows "send_piece kern i s
    = s\<lparr>wire := (wire s)\<lparr>writes := Suc (writes (wire s)), written := written (wire s) @ b\<rparr>, todo := (todo s)(i := bs)\<rparr>"
  using assms accepting_send [OF assms(1,5,4,2)] by (simp add: send_piece_def)

text \<open>The threads take turns after the leading bytes and the type.\<close>

definition bad_schedule :: "sender_thread list" where
  "bad_schedule = [Main_Thread, Main_Thread, Http_Thread, Http_Thread, Main_Thread, Main_Thread, Http_Thread, Http_Thread]"

lemma bad_run:
  assumes "accepts n kern" and "g_runtime_conn_fd w \<noteq> - 1" and "int_sized p1" and "int_sized p2"
    and "length p1 \<le> n" and "length p2 \<le> n" and "4 \<le> n"
  shows "both_sent (run_senders kern bad_schedule (two_requests w t1 p1 t2 p2))"
    and "written (wire (run_senders kern bad_schedule (two_requests w t1 p1 t2 p2)))
      = written w @ leading @ mem16 (htons t1) @ leading @ mem16 (htons t2)
          @ drop 4 (link_frame t1 p1) @ drop 4 (link_frame t2 p2)"
proof -
  have "p1 \<noteq> []" "p2 \<noteq> []" using assms(3,4) by (auto simp: int_sized_def)
  moreover have "length leading = 2" "leading \<noteq> []" "\<And>t. mem16 t \<noteq> []" "\<And>v. mem32 v \<noteq> []"
    by (simp_all add: leading_def mem16_def mem32_def)
  moreover have "drop 4 (link_frame t p) = mem32 (htonl (word_of_nat (length p))) @ p" for t p
    by (simp add: link_frame_def leading_def mem16_def)
  ultimately show "both_sent (run_senders kern bad_schedule (two_requests w t1 p1 t2 p2))"
    and "written (wire (run_senders kern bad_schedule (two_requests w t1 p1 t2 p2)))
      = written w @ leading @ mem16 (htons t1) @ leading @ mem16 (htons t2)
          @ drop 4 (link_frame t1 p1) @ drop 4 (link_frame t2 p2)"
    using assms
    by (simp_all add: bad_schedule_def two_requests_def two_senders_def frame_pieces_def accepting_piece both_sent_def all_threads)
qed

lemma garbled_reads:
  assumes "concat reads = leading @ mem16 (htons t1) @ leading @ mem16 t2 @ noise"
    and "leading ! 0 \<notin> set noise" and "phase ctx = Phase_Non_Start"
  shows "\<exists>c. receive_reads malloc k reads ctx = Inr ([], c) \<and> phase c = Phase_Non_Start"
proof -
  obtain n where n: "leading @ mem16 t2 = mem32 (htonl n)" "1024 * 1024 < n" using huge_size by blast
  have "concat reads = leading @ mem16 (htons t1) @ (leading @ mem16 t2) @ noise" using assms(1) by simp
  then have reads: "concat reads = leading @ mem16 (htons t1) @ mem32 (htonl n) @ noise" unfolding n(1) .
  obtain c where c: "phase c = Phase_Non_Start"
    "process_rcvd_data malloc k (concat reads) ctx = process_rcvd_data malloc k noise c"
    unfolding reads using process_oversized [OF assms(3) n(2)] by blast
  obtain d where d: "phase d = Phase_Non_Start"
    "\<And>buf. process_rcvd_data malloc k (noise @ buf) c = process_rcvd_data malloc k buf d"
    using process_noise [OF c(1) assms(2)] by blast
  from d(2) [of "[]"] c(2) have "process_rcvd_data malloc k (concat reads) ctx = Inr (- 1, d)" by simp
  from receive_reads_none [OF this] d(1) show ?thesis by blast
qed

section \<open>Properties\<close>

text \<open>
  The steps are those of \<open>send_request\<close>: a thread that takes its four steps without another one
  in between leaves the connection, and returns, what \<open>send_request\<close> does, and the other thread's
  work is as it was.
\<close>

theorem thread_alone_is_send_request:
  assumes "pack_request wa request = Some p" and "todo s i = frame_pieces (request_msg_type wa inst) p" and "result s i = 0"
  shows "\<exists>s'. run_senders kern (replicate 4 i) s = s'
    \<and> send_request wa kern request inst (wire s) = (result s' i, wire s')
    \<and> todo s' i = [] \<and> (\<forall>j. j \<noteq> i \<longrightarrow> todo s' j = todo s j \<and> result s' j = result s j)"
  using run_alone [of s i 4 kern] assms
  by (auto simp: frame_pieces_def send_request_pieces split: prod.splits bool.splits)

theorem thread_alone_is_send_request_witness:
  "\<exists>s'. run_senders (\<lambda>_. Wrote 100) (replicate 4 Http_Thread) (two_requests demo_out 50 [7] 50 demo_packed) = s'
    \<and> (0, demo_out\<lparr>written := link_frame 50 demo_packed, writes := 4\<rparr>) = (result s' Http_Thread, wire s')
    \<and> todo s' Main_Thread = frame_pieces 50 [7]"
proof -
  have s: "todo (two_requests demo_out 50 [7] 50 demo_packed) Http_Thread = frame_pieces (request_msg_type demo_wamr False) demo_packed"
    "result (two_requests demo_out 50 [7] 50 demo_packed) Http_Thread = 0" "wire (two_requests demo_out 50 [7] 50 demo_packed) = demo_out"
    "todo (two_requests demo_out 50 [7] 50 demo_packed) Main_Thread = frame_pieces 50 [7]"
    by (simp_all add: two_requests_def two_senders_def demo_send)
  show ?thesis
    using thread_alone_is_send_request [OF demo_send(1) s(1,2), of "\<lambda>_. Wrote 100"]
    unfolding s(3) demo_send(3) by (auto simp: s(4))
qed

text \<open>
  C21. What two threads put on the wire: whatever the schedule and however \<open>write\<close> behaves, when both
  calls of \<open>send_request\<close> have returned 0 the connection has taken the four pieces of either frame,
  each thread's in order, and nothing else. Nothing says more: the pieces of the two may be mixed.
\<close>

theorem concurrent_sends_interleave:
  assumes "int_sized p1" and "int_sized p2" and "both_sent (run_senders kern sched (two_requests w t1 p1 t2 p2))"
  shows "\<exists>zs \<in> shuffles (frame_pieces t1 p1) (frame_pieces t2 p2).
    written (wire (run_senders kern sched (two_requests w t1 p1 t2 p2))) = written w @ concat zs"
  using run_interleaves [OF two_requests_sized [OF assms(1,2)] assms(3)]
  by (simp add: two_requests_def two_senders_def)

theorem concurrent_sends_interleave_witness:
  "\<exists>zs \<in> shuffles (frame_pieces 50 [7]) (frame_pieces 51 [8, 9]).
    written (wire (run_senders (\<lambda>_. Wrote 100) bad_schedule (two_requests demo_out 50 [7] 51 [8, 9]))) = concat zs"
proof -
  have sized: "int_sized [7]" "int_sized [8, 9]" by (simp_all add: int_sized_def)
  have "both_sent (run_senders (\<lambda>_. Wrote 100) bad_schedule (two_requests demo_out 50 [7] 51 [8, 9]))"
    by (rule bad_run [where n = 100]) (simp_all add: accepts_def demo_out_def int_sized_def)
  from concurrent_sends_interleave [OF sized this] show ?thesis by (simp add: demo_out_def)
qed

text \<open>
  C13. What the missing lock costs: when both threads send at the same time on a connection that
  takes everything, there is a schedule in which both calls of \<open>send_request\<close> return 0 and yet a
  receiver gets neither request, however the bytes are cut into reads: it takes the second frame's
  beginning for the size of the first one. Payloads without the first leading byte are not even
  taken for the start of another frame.
\<close>

theorem concurrent_requests_lost:
  assumes "accepts n kern" and "g_runtime_conn_fd w \<noteq> - 1" and "int_sized p1" and "int_sized p2"
    and "length p1 \<le> n" and "length p2 \<le> n" and "4 \<le> n" and "phase ctx = Phase_Non_Start"
    and "leading ! 0 \<notin> set (drop 4 (link_frame t1 p1)) \<union> set (drop 4 (link_frame t2 p2))"
  shows "\<exists>s. run_senders kern bad_schedule (two_requests w t1 p1 t2 p2) = s \<and> both_sent s
    \<and> (\<forall>reads. written (wire s) = written w @ concat reads
        \<longrightarrow> (\<exists>c. receive_reads malloc k reads ctx = Inr ([], c) \<and> phase c = Phase_Non_Start))"
proof -
  have "\<exists>c. receive_reads malloc k reads ctx = Inr ([], c) \<and> phase c = Phase_Non_Start"
    if "written w @ concat reads = written (wire (run_senders kern bad_schedule (two_requests w t1 p1 t2 p2)))" for reads
    using that bad_run(2) [OF assms(1-7), of t1 t2] assms(8,9)
    by (intro garbled_reads [where noise = "drop 4 (link_frame t1 p1) @ drop 4 (link_frame t2 p2)"]) auto
  with bad_run(1) [OF assms(1-7), of t1 t2] show ?thesis by auto
qed

theorem concurrent_requests_lost_witness:
  "both_sent (run_senders (\<lambda>_. Wrote 100) bad_schedule (two_requests demo_out 50 [7] 50 demo_packed))
   \<and> (\<exists>c. receive_reads zeroed demo_consts
        [written (wire (run_senders (\<lambda>_. Wrote 100) bad_schedule (two_requests demo_out 50 [7] 50 demo_packed)))] recv_ctx_init = Inr ([], c))"
proof -
  have "accepts 100 (\<lambda>_. Wrote 100)" "g_runtime_conn_fd demo_out \<noteq> - 1" "int_sized [7]" "int_sized demo_packed"
    "length [7 :: byte] \<le> 100" "length demo_packed \<le> 100" "4 \<le> (100 :: nat)" "phase recv_ctx_init = Phase_Non_Start"
    "leading ! 0 \<notin> set (drop 4 (link_frame 50 [7])) \<union> set (drop 4 (link_frame 50 demo_packed))"
    by (simp_all add: accepts_def demo_out_def int_sized_def demo_packed_def recv_ctx_init_def link_frame_def leading_def
        mem16_def mem32_def byte_at_def ntohl_def mask_eq_exp_minus_1)
  from concurrent_requests_lost [OF this, of zeroed demo_consts] obtain s where
    s: "run_senders (\<lambda>_. Wrote 100) bad_schedule (two_requests demo_out 50 [7] 50 demo_packed) = s" "both_sent s"
      "\<And>reads. written (wire s) = written demo_out @ concat reads
        \<Longrightarrow> \<exists>c. receive_reads zeroed demo_consts reads recv_ctx_init = Inr ([], c)"
    by blast
  have "written (wire s) = written demo_out @ concat [written (wire s)]" by (simp add: demo_out_def)
  from s(3) [OF this] s(2) show ?thesis unfolding s(1) by blast
qed

text \<open>The threads one after the other, as a lock around \<open>send_request\<close> would have it.\<close>

definition frame_of :: "16 word \<times> byte list \<Rightarrow> 16 word \<times> byte list \<Rightarrow> sender_thread \<Rightarrow> 16 word \<times> byte list" where
  "frame_of main http i = (case i of Main_Thread \<Rightarrow> main | Http_Thread \<Rightarrow> http)"

lemma serial_run:
  assumes "accepts n kern" and "g_runtime_conn_fd w \<noteq> - 1" and "int_sized p1" and "int_sized p2"
    and "length p1 \<le> n" and "length p2 \<le> n" and "4 \<le> n" and "i \<noteq> j"
  shows "both_sent (run_senders kern (replicate 4 i @ replicate 4 j) (two_requests w t1 p1 t2 p2))"
    and "written (wire (run_senders kern (replicate 4 i @ replicate 4 j) (two_requests w t1 p1 t2 p2)))
      = written w @ concat (map (\<lambda>x. case_prod link_frame (frame_of (t1, p1) (t2, p2) x)) [i, j])"
proof -
  have four: "replicate 4 x = [x, x, x, x]" for x :: sender_thread by (simp add: eval_nat_numeral)
  have pieces: "p1 \<noteq> []" "p2 \<noteq> []" "length leading = 2" "leading \<noteq> []" "\<And>t. mem16 t \<noteq> []" "\<And>v. mem32 v \<noteq> []"
    using assms(3,4) by (auto simp: int_sized_def leading_def mem16_def mem32_def)
  consider "i = Main_Thread" "j = Http_Thread" | "i = Http_Thread" "j = Main_Thread"
    using assms(8) by (cases i; cases j) simp_all
  then have "both_sent (run_senders kern (replicate 4 i @ replicate 4 j) (two_requests w t1 p1 t2 p2))
    \<and> written (wire (run_senders kern (replicate 4 i @ replicate 4 j) (two_requests w t1 p1 t2 p2)))
      = written w @ concat (map (\<lambda>x. case_prod link_frame (frame_of (t1, p1) (t2, p2) x)) [i, j])"
    by cases (use assms(1-7) pieces in \<open>simp_all add: four two_requests_def two_senders_def frame_pieces_def accepting_piece
        both_sent_def all_threads frame_of_def link_frame_def\<close>)
  then show "both_sent (run_senders kern (replicate 4 i @ replicate 4 j) (two_requests w t1 p1 t2 p2))"
    and "written (wire (run_senders kern (replicate 4 i @ replicate 4 j) (two_requests w t1 p1 t2 p2)))
      = written w @ concat (map (\<lambda>x. case_prod link_frame (frame_of (t1, p1) (t2, p2) x)) [i, j])"
    by simp_all
qed

text \<open>
  C14. What a lock around \<open>send_request\<close> would give, and what not: when the two calls come one after
  the other, in either order, on a connection that takes everything that is written, both return 0
  and the two frames are on the wire one behind the other. A receiver that is between frames and
  has memory for the two payloads gets both requests, in that order, when each frame is cut into
  reads of its own, in any way. When one read holds both frames it gets the first request only:
  the second one is lost although both calls returned 0.
\<close>

theorem serial_requests_received:
  assumes "accepts n kern" and "g_runtime_conn_fd w \<noteq> - 1" and "length p1 \<le> n" and "length p2 \<le> n" and "4 \<le> n"
    and "payload_fits p1" and "payload_fits p2" and "phase ctx = Phase_Non_Start"
    and "malloc_sized malloc" and "malloc (length p1) \<noteq> None" and "malloc (length p2) \<noteq> None"
    and "reply_of k t1 \<noteq> - 1" and "reply_of k t2 \<noteq> - 1" and "i \<noteq> j"
  shows "\<exists>s. run_senders kern (replicate 4 i @ replicate 4 j) (two_requests w t1 p1 t2 p2) = s \<and> both_sent s
    \<and> (\<forall>blocks. cut_into (map (frame_of (t1, p1) (t2, p2)) [i, j]) blocks \<longrightarrow>
        written (wire s) = written w @ concat (concat blocks)
        \<and> (\<exists>c. receive_reads malloc k (concat blocks) ctx
            = Inr (map (\<lambda>x. case frame_of (t1, p1) (t2, p2) x of (t, p) \<Rightarrow> (reply_of k t, message (received t p))) [i, j], c)))
    \<and> (\<exists>rd. written (wire s) = written w @ rd \<and>
        receive_reads malloc k [rd] ctx
          = (case frame_of (t1, p1) (t2, p2) i of (t, p) \<Rightarrow> Inr ([(reply_of k t, message (received t p))], received t p)))"
proof -
  have sized: "int_sized p1" "int_sized p2" using assms(6,7) by (simp_all add: payload_fits_def int_sized_def)
  note run = serial_run [OF assms(1,2) sized assms(3-5,14), of t1 t2]
  have each: "\<forall>(t, p) \<in> set (map (frame_of (t1, p1) (t2, p2)) [i, j]). payload_fits p \<and> malloc (length p) \<noteq> None \<and> reply_of k t \<noteq> - 1"
    using assms(6,7,10-13) by (auto simp: frame_of_def split: sender_thread.splits)
  have "written w @ concat (map (\<lambda>x. case_prod link_frame (frame_of (t1, p1) (t2, p2) x)) [i, j]) = written w @ concat (concat blocks)"
    if "cut_into (map (frame_of (t1, p1) (t2, p2)) [i, j]) blocks" for blocks
    using that by (auto simp: cut_into_def list_all2_Cons1 split: prod.splits)
  moreover have "\<exists>c. receive_reads malloc k (concat blocks) ctx
      = Inr (map (\<lambda>x. case frame_of (t1, p1) (t2, p2) x of (t, p) \<Rightarrow> (reply_of k t, message (received t p))) [i, j], c)"
    if "cut_into (map (frame_of (t1, p1) (t2, p2)) [i, j]) blocks" for blocks
    using receive_frames [OF that assms(8,9) each] by auto
  moreover have "receive_reads malloc k [concat (map (\<lambda>x. case_prod link_frame (frame_of (t1, p1) (t2, p2) x)) [i, j])] ctx
      = (case frame_of (t1, p1) (t2, p2) i of (t, p) \<Rightarrow> Inr ([(reply_of k t, message (received t p))], received t p))"
  proof -
    obtain t p where tp: "frame_of (t1, p1) (t2, p2) i = (t, p)" by fastforce
    with each obtain b where "payload_fits p" "malloc (length p) = Some b" "reply_of k t \<noteq> - 1" by auto
    moreover from this(2) assms(9) have "length b = length p" by (simp add: malloc_sized_def)
    ultimately show ?thesis using process_frame [OF assms(8)] by (simp add: tp)
  qed
  ultimately show ?thesis using run by auto
qed

theorem serial_requests_received_witness:
  "\<exists>s c. run_senders (\<lambda>_. Wrote 100) (replicate 4 Http_Thread @ replicate 4 Main_Thread) (two_requests demo_out 50 [7] 50 demo_packed) = s
    \<and> both_sent s \<and> written (wire s) = link_frame 50 demo_packed @ link_frame 50 [7]
    \<and> receive_reads zeroed demo_consts [link_frame 50 demo_packed, link_frame 50 [7]] recv_ctx_init
        = Inr ([(REPLY_TYPE_EVENT, message (received 50 demo_packed)), (REPLY_TYPE_EVENT, message (received 50 [7]))], c)"
proof -
  have "accepts 100 (\<lambda>_. Wrote 100)" "g_runtime_conn_fd demo_out \<noteq> - 1" "length [7 :: byte] \<le> 100" "length demo_packed \<le> 100"
    "4 \<le> (100 :: nat)" "payload_fits [7]" "payload_fits demo_packed" "phase recv_ctx_init = Phase_Non_Start"
    by (simp_all add: accepts_def demo_out_def payload_fits_def demo_packed_def recv_ctx_init_def)
  moreover have "reply_of demo_consts 50 \<noteq> - 1" and "Http_Thread \<noteq> Main_Thread" and "reply_of demo_consts 50 = REPLY_TYPE_EVENT"
    by (simp_all add: reply_of_def demo_consts_def)
  moreover have "cut_into (map (frame_of (50, [7]) (50, demo_packed)) [Http_Thread, Main_Thread]) [[link_frame 50 demo_packed], [link_frame 50 [7]]]"
    by (simp add: cut_into_def frame_of_def)
  moreover have "written demo_out = []" by (simp add: demo_out_def)
  ultimately show ?thesis
    using serial_requests_received [of 100 "\<lambda>_. Wrote 100" demo_out "[7]" demo_packed recv_ctx_init zeroed demo_consts 50 50 Http_Thread Main_Thread]
      zeroed_ok zeroed_def
    by (fastforce simp: frame_of_def)
qed

end
