(* ===== verification/C_Strings.thy ===== *)
theory C_Strings
  imports Bridge_Prelude
begin

text \<open>
  The C standard library's string routines on fixed-size \<open>char\<close> arrays, as the program uses
  them: \<open>strlen\<close> (through \<open>read_cstr\<close>), \<open>strncpy\<close>, \<open>snprintf\<close>, \<open>sprintf\<close>, \<open>strspn\<close>,
  \<open>atoi\<close>/\<open>atol\<close> and \<open>%d\<close>. An array is the list of its bytes, a write outside it or a read that
  finds no terminator is \<open>Out_Of_Bounds\<close>. The locale \<open>bounded_text\<close> is the contract of a
  truncating text buffer, which the URL builders rely on.
\<close>

section \<open>Strings in arrays\<close>

type_synonym cbuf = "char list"

definition NUL :: char where
  "NUL = CHR 0x00"

text \<open>The content of a C string has no terminator inside.\<close>

definition cstring :: "string \<Rightarrow> bool" where
  "cstring s \<longleftrightarrow> NUL \<notin> set s"

definition buf_write :: "'a list \<Rightarrow> nat \<Rightarrow> 'a list \<Rightarrow> 'a list res" where
  "buf_write buf off xs =
     (if off + length xs \<le> length buf
      then Inr (take off buf @ xs @ drop (off + length xs) buf) else Inl Out_Of_Bounds)"

definition read_cstr :: "cbuf \<Rightarrow> nat \<Rightarrow> string res" where
  "read_cstr buf off =
     (if NUL \<in> set (drop off buf) then Inr (takeWhile (\<lambda>c. c \<noteq> NUL) (drop off buf))
      else Inl Out_Of_Bounds)"

definition strncpy_at :: "cbuf \<Rightarrow> nat \<Rightarrow> string \<Rightarrow> nat \<Rightarrow> cbuf res" where
  "strncpy_at buf off src n = buf_write buf off (take n (src @ replicate n NUL))"

definition snprintf_at :: "cbuf \<Rightarrow> nat \<Rightarrow> nat \<Rightarrow> string \<Rightarrow> cbuf res" where
  "snprintf_at buf off n s =
     (if n = 0 then Inr buf else buf_write buf off (take (n - 1) s @ [NUL]))"

definition sprintf_at :: "cbuf \<Rightarrow> nat \<Rightarrow> string \<Rightarrow> cbuf res" where
  "sprintf_at buf off s = buf_write buf off (s @ [NUL])"

definition zero_buf :: "nat \<Rightarrow> cbuf" where
  "zero_buf n = replicate n NUL"

lemma cstring_simps [simp]:
  "cstring []" "cstring (c # s) \<longleftrightarrow> c \<noteq> NUL \<and> cstring s" "cstring (s @ t) \<longleftrightarrow> cstring s \<and> cstring t"
  by (auto simp: cstring_def)

lemma char_NUL [simp]:
  "Char b0 b1 b2 b3 b4 b5 b6 b7 = NUL \<longleftrightarrow> \<not> (b0 \<or> b1 \<or> b2 \<or> b3 \<or> b4 \<or> b5 \<or> b6 \<or> b7)"
  "NUL = Char b0 b1 b2 b3 b4 b5 b6 b7 \<longleftrightarrow> \<not> (b0 \<or> b1 \<or> b2 \<or> b3 \<or> b4 \<or> b5 \<or> b6 \<or> b7)"
  by (auto simp: NUL_def)

lemma cstring_take [simp]: "cstring s \<Longrightarrow> cstring (take n s)"
  by (auto simp: cstring_def dest: in_set_takeD)

lemma length_zero_buf [simp]: "length (zero_buf n) = n"
  by (simp add: zero_buf_def)

lemma takeWhile_cstring: "cstring s \<Longrightarrow> takeWhile (\<lambda>c. c \<noteq> NUL) (s @ NUL # r) = s"
  by (rule takeWhile_notin) (simp add: cstring_def)

lemma read_cstr_terminated: "cstring s \<Longrightarrow> read_cstr (s @ NUL # r) 0 = Inr s"
  by (simp add: read_cstr_def takeWhile_cstring)

lemma read_cstr_cstring: "read_cstr buf off = Inr s \<Longrightarrow> cstring s"
  by (auto simp: read_cstr_def cstring_def split: if_splits dest: set_takeWhileD)

text \<open>\<open>text_of buf s\<close>: the array holds exactly the string \<open>s\<close>.\<close>

definition text_of :: "cbuf \<Rightarrow> string \<Rightarrow> bool" where
  "text_of buf s \<longleftrightarrow> read_cstr buf 0 = Inr s"

lemma text_of_iff: "text_of buf s \<longleftrightarrow> cstring s \<and> (\<exists>r. buf = s @ NUL # r)"
proof
  assume r: "text_of buf s"
  then have nul: "NUL \<in> set buf" and s: "s = takeWhile (\<lambda>c. c \<noteq> NUL) buf"
    by (auto simp: text_of_def read_cstr_def split: if_splits)
  from nul have "dropWhile (\<lambda>c. c \<noteq> NUL) buf \<noteq> []"
    by (auto simp: dropWhile_eq_Nil_conv)
  then obtain c d where d: "dropWhile (\<lambda>c. c \<noteq> NUL) buf = c # d" by (cases "dropWhile (\<lambda>c. c \<noteq> NUL) buf") auto
  then have "c = NUL" by (simp add: dropWhile_eq_Cons_conv)
  with d s have "buf = s @ NUL # d"
    using takeWhile_dropWhile_id [of "\<lambda>c. c \<noteq> NUL" buf] by simp
  with r show "cstring s \<and> (\<exists>r. buf = s @ NUL # r)"
    by (auto simp: text_of_def dest: read_cstr_cstring)
next
  assume "cstring s \<and> (\<exists>r. buf = s @ NUL # r)"
  then show "text_of buf s" by (auto simp: text_of_def read_cstr_terminated)
qed

lemma text_of_length: "text_of buf s \<Longrightarrow> length s < length buf"
  by (auto simp: text_of_iff)

lemma text_of_zero: "0 < n \<Longrightarrow> text_of (zero_buf n) []"
  by (auto simp: text_of_iff zero_buf_def gr0_conv_Suc)

lemma buf_write_length: "buf_write buf off xs = Inr b \<Longrightarrow> length b = length buf"
  by (auto simp: buf_write_def split: if_splits)

text \<open>\<open>snprintf\<close> at the end of the text already there appends, cut at the size of the array.\<close>

lemma snprintf_at_append:
  assumes "text_of buf s" and "cstring t" and "length s < n" and "n \<le> length buf"
  shows "\<exists>b. snprintf_at buf (length s) (n - length s) t = Inr b \<and> length b = length buf
             \<and> text_of b (take (n - 1) (s @ t))"
proof -
  let ?w = "take (n - length s - 1) t @ [NUL]"
  have cut: "length s + length ?w \<le> n" using assms(3) by simp
  with assms have ok: "snprintf_at buf (length s) (n - length s) t
      = Inr (take (length s) buf @ ?w @ drop (length s + length ?w) buf)"
    by (simp add: snprintf_at_def buf_write_def)
  have "take (length s) buf = s" using assms(1) by (auto simp: text_of_iff)
  moreover have "take (n - 1) (s @ t) = s @ take (n - length s - 1) t"
    using assms(3) by (simp add: min_def)
  ultimately have "text_of (take (length s) buf @ ?w @ drop (length s + length ?w) buf) (take (n - 1) (s @ t))"
    using assms(1,2) by (auto simp: text_of_iff)
  with ok cut assms(3,4) show ?thesis by (auto simp: min_def)
qed

text \<open>\<open>snprintf\<close> at the start overwrites, whatever the array held.\<close>

lemma snprintf_at_start:
  assumes "cstring t" and "0 < n" and "n \<le> length buf"
  shows "\<exists>b. snprintf_at buf 0 n t = Inr b \<and> length b = length buf \<and> text_of b (take (n - 1) t)"
proof -
  have "length (take (n - 1) t @ [NUL]) \<le> length buf" using assms by simp
  then show ?thesis using assms
    by (auto simp: snprintf_at_def buf_write_def text_of_iff min_def)
qed

text \<open>\<open>strncpy\<close> terminates the destination exactly when the source is shorter than the count.\<close>

lemma strncpy_at_short:
  assumes "cstring s" and "length s < n" and "n \<le> length buf"
  shows "\<exists>b. strncpy_at buf 0 s n = Inr b \<and> length b = length buf \<and> text_of b s"
proof -
  have "take n (s @ replicate n NUL) = s @ NUL # replicate (n - length s - 1) NUL"
    using assms(2) by (cases "n - length s") (auto simp: min_def)
  with assms show ?thesis
    by (auto simp: strncpy_at_def buf_write_def text_of_iff)
qed

lemma strncpy_at_full:
  assumes "cstring s" and "n \<le> length s" and "n = length buf"
  shows "strncpy_at buf 0 s n = Inr (take n s) \<and> read_cstr (take n s) 0 = Inl Out_Of_Bounds"
  using assms by (auto simp: strncpy_at_def buf_write_def read_cstr_def cstring_def dest: in_set_takeD)

lemma strncpy_at_ok: "n \<le> length buf \<Longrightarrow> \<exists>b. strncpy_at buf 0 s n = Inr b \<and> length b = length buf"
  by (auto simp: strncpy_at_def buf_write_def min_def)

lemma sprintf_at_iff:
  assumes "cstring s"
  shows "(\<exists>b. sprintf_at buf 0 s = Inr b \<and> length b = length buf \<and> text_of b s) \<longleftrightarrow> length s < length buf"
    and "sprintf_at buf 0 s = Inl Out_Of_Bounds \<longleftrightarrow> length buf \<le> length s"
  using assms by (auto simp: sprintf_at_def buf_write_def text_of_iff Suc_le_eq)

section \<open>The contract of a truncating text buffer\<close>

locale bounded_text =
  fixes cap :: nat
    and holds :: "'b \<Rightarrow> string \<Rightarrow> bool"
    and app :: "'b \<Rightarrow> string \<Rightarrow> 'b res"
  assumes holds_fits: "holds b s \<Longrightarrow> length s \<le> cap"
    and app_holds: "holds b s \<Longrightarrow> cstring t \<Longrightarrow> \<exists>b'. app b t = Inr b' \<and> holds b' (take cap (s @ t))"
begin

lemma app_all_holds:
  assumes "holds b s" and "\<forall>t \<in> set ts. cstring t"
  shows "\<exists>b'. foldl (\<lambda>r t. bind_res r (\<lambda>b. app b t)) (Inr b) ts = Inr b' \<and> holds b' (take cap (s @ concat ts))"
  using assms
proof (induction ts arbitrary: b s)
  case Nil
  then show ?case using holds_fits by fastforce
next
  case (Cons t ts)
  then obtain b1 where "app b t = Inr b1" and "holds b1 (take cap (s @ t))"
    using app_holds by fastforce
  with Cons.IH [of b1 "take cap (s @ t)"] Cons.prems show ?case
    by (simp add: take_app_take del: take_append)
qed

lemma app_two_holds:
  assumes "holds b s" and "cstring t" and "cstring u"
  shows "\<exists>b'. bind_res (app b t) (\<lambda>b. app b u) = Inr b' \<and> holds b' (take cap (s @ t @ u))"
  using app_all_holds [of b s "[t, u]"] assms by simp

end

section \<open>Numbers as text\<close>

fun dec_digits :: "nat \<Rightarrow> string" where
  "dec_digits n = (if n < 10 then [char_of (48 + n)] else dec_digits (n div 10) @ [char_of (48 + n mod 10)])"

declare dec_digits.simps [simp del]

text \<open>\<open>%d\<close>\<close>

definition show_int :: "int \<Rightarrow> string" where
  "show_int i = (if i < 0 then CHR ''-'' # dec_digits (nat (- i)) else dec_digits (nat i))"

definition digit_val :: "char \<Rightarrow> nat option" where
  "digit_val c = (let n = of_char c in if 48 \<le> n \<and> n \<le> 57 then Some (n - 48) else None)"

fun scan_dec :: "nat \<Rightarrow> string \<Rightarrow> nat" where
  "scan_dec acc [] = acc"
| "scan_dec acc (c # s) = (case digit_val c of None \<Rightarrow> acc | Some d \<Rightarrow> scan_dec (10 * acc + d) s)"

definition is_space :: "char \<Rightarrow> bool" where
  "is_space c \<longleftrightarrow> of_char c \<in> {9, 10, 11, 12, 13, 32 :: nat}"

text \<open>
  \<open>atoi\<close> and \<open>atol\<close> (both 32 bits on the target): leading white space, an optional sign, digits
  up to the first other character; glibc clamps a value outside the range of \<open>long\<close>.
\<close>

definition atol :: "string \<Rightarrow> int" where
  "atol s =
     (let s = dropWhile is_space s;
          v = (case s of
                 [] \<Rightarrow> 0
               | c # t \<Rightarrow> if c = CHR ''-'' then - int (scan_dec 0 t)
                          else if c = CHR ''+'' then int (scan_dec 0 t) else int (scan_dec 0 s))
      in max (- 2147483648) (min 2147483647 v))"

lemma digit_val_char_of: "n < 10 \<Longrightarrow> digit_val (char_of (48 + n :: nat)) = Some n"
  by (simp add: digit_val_def)

lemma scan_dec_append:
  "(\<forall>c \<in> set s. digit_val c \<noteq> None) \<Longrightarrow> scan_dec acc (s @ t) = scan_dec (scan_dec acc s) t"
  by (induction s arbitrary: acc) auto

lemma dec_digits_digits: "c \<in> set (dec_digits n) \<Longrightarrow> digit_val c \<noteq> None"
proof (induction n arbitrary: c rule: dec_digits.induct)
  case (1 n)
  then show ?case
    by (subst (asm) (2) dec_digits.simps) (auto simp: digit_val_char_of split: if_splits)
qed

lemma scan_dec_digits: "scan_dec acc (dec_digits n) = acc * 10 ^ length (dec_digits n) + n"
proof (induction n arbitrary: acc rule: dec_digits.induct)
  case (1 n)
  show ?case
  proof (cases "n < 10")
    case True
    then show ?thesis by (simp add: dec_digits.simps [of n] digit_val_char_of)
  next
    case False
    have "scan_dec acc (dec_digits n)
        = 10 * scan_dec acc (dec_digits (n div 10)) + n mod 10"
      using False dec_digits_digits
      by (subst dec_digits.simps) (simp add: scan_dec_append digit_val_char_of)
    with False 1 show ?thesis by (simp add: dec_digits.simps [of n] algebra_simps)
  qed
qed

lemma dec_digits_Cons: "\<exists>c s. dec_digits n = c # s \<and> digit_val c \<noteq> None"
proof -
  have "dec_digits n \<noteq> []" by (subst dec_digits.simps) simp
  then obtain c s where "dec_digits n = c # s" by (cases "dec_digits n") auto
  then show ?thesis using dec_digits_digits [of c n] by auto
qed

lemma digit_not_space: "digit_val c \<noteq> None \<Longrightarrow> \<not> is_space c \<and> c \<noteq> CHR ''-'' \<and> c \<noteq> CHR ''+''"
  by (auto simp: digit_val_def is_space_def Let_def split: if_splits)

text \<open>Reading back a printed identifier gives it again.\<close>

lemma atol_show_int:
  assumes "- 2147483648 \<le> i" and "i \<le> 2147483647"
  shows "atol (show_int i) = i"
proof (cases "i < 0")
  case True
  then show ?thesis using assms
    by (simp add: atol_def show_int_def is_space_def scan_dec_digits)
next
  case False
  obtain c s where d: "dec_digits (nat i) = c # s" and c: "digit_val c \<noteq> None"
    using dec_digits_Cons by blast
  with False assms digit_not_space [OF c] scan_dec_digits [of 0 "nat i"] show ?thesis
    by (simp add: atol_def show_int_def)
qed

lemma dec_digits_cstring: "cstring (dec_digits n)"
  using dec_digits_digits [of NUL n] by (auto simp: cstring_def digit_val_def NUL_def)

lemma show_int_cstring [simp]: "cstring (show_int i)"
  by (simp add: show_int_def dec_digits_cstring NUL_def)

end
