(* ===== verification/Attr_Json.thy ===== *)
theory Attr_Json
  imports C_Strings
begin

text \<open>
  The two translations between WAMR's attribute containers and cJSON values
  (bridge-tool/src/bridge_tool_utils.c): \<open>attr2json\<close> walks the bytes of a container, \<open>json2attr\<close>
  builds one from a JSON object. The container functions and the type codes of attr_container.h
  and the conversions from and to \<open>double\<close> are fields of \<open>attr_api\<close>; a JSON value is the tree
  that cJSON's constructors build. \<open>alloc\<close> tells which requests for memory succeed, by number.
  Every read of \<open>attr2json\<close> is checked against the memory it is given.
\<close>

section \<open>Values\<close>

datatype 'd cJSON =
    CNull
  | CBool bool
  | CNumber 'd
  | CString string
  | CArray "'d cJSON list"
  | CObject "(string \<times> 'd cJSON) list"

text \<open>The \<open>case\<close> labels of the type switch.\<close>

datatype attr_kind =
    ATTR_SHORT | ATTR_INT | ATTR_INT64 | ATTR_BYTE | ATTR_UINT16 | ATTR_FLOAT | ATTR_DOUBLE
  | ATTR_BOOLEAN | ATTR_STRING | ATTR_BYTEARRAY

text \<open>
  \<open>attr_kind_of\<close> gives the label that a type value selects (None: no label). A container is its
  bytes. \<open>attr_begin\<close> is \<open>attr_container_get_attr_begin\<close>: offset of the first attribute,
  total length, number of attributes.
\<close>

record 'd attr_api =
  attr_get_tag :: "byte list \<Rightarrow> bool"
  attr_begin :: "byte list \<Rightarrow> (nat \<times> 32 word \<times> 16 word) option"
  attr_kind_of :: "16 word \<Rightarrow> attr_kind option"
  attr_create :: "string \<Rightarrow> byte list option"
  attr_set_double :: "byte list \<Rightarrow> string \<Rightarrow> 'd \<Rightarrow> byte list"
  attr_set_bool :: "byte list \<Rightarrow> string \<Rightarrow> bool \<Rightarrow> byte list"
  attr_set_string :: "byte list \<Rightarrow> string \<Rightarrow> string \<Rightarrow> byte list"
  attr_set_bytearray :: "byte list \<Rightarrow> string \<Rightarrow> byte list \<Rightarrow> byte list"
  attr_serialize_length :: "byte list \<Rightarrow> int"
  attr_get_as_string :: "byte list \<Rightarrow> string \<Rightarrow> string option"
  double_of_int :: "int \<Rightarrow> 'd"
  double_of_float :: "32 word \<Rightarrow> 'd"
  double_of_bits :: "64 word \<Rightarrow> 'd"
  int8_of_double :: "'d \<Rightarrow> byte"

section \<open>Reading memory\<close>

fun le_word :: "byte list \<Rightarrow> 'a::len word" where
  "le_word [] = 0"
| "le_word (b # bs) = ucast b OR push_bit 8 (le_word bs)"

definition read_bytes :: "byte list \<Rightarrow> nat \<Rightarrow> nat \<Rightarrow> byte list res" where
  "read_bytes m p n = (if p + n \<le> length m then Inr (take n (drop p m)) else Inl Out_Of_Bounds)"

definition get_uint16 :: "byte list \<Rightarrow> nat \<Rightarrow> 16 word res" where
  "get_uint16 m p = bind_res (read_bytes m p 2) (\<lambda>bs. Inr (le_word bs))"

definition get_uint32 :: "byte list \<Rightarrow> nat \<Rightarrow> 32 word res" where
  "get_uint32 m p = bind_res (read_bytes m p 4) (\<lambda>bs. Inr (le_word bs))"

definition chars :: "byte list \<Rightarrow> string" where
  "chars bs = map (\<lambda>b. char_of (unat b)) bs"

definition bytes :: "string \<Rightarrow> byte list" where
  "bytes s = map (\<lambda>c. word_of_nat (of_char c)) s"

definition read_str :: "byte list \<Rightarrow> nat \<Rightarrow> string res" where
  "read_str m p = read_cstr (chars m) p"

section \<open>attr2json\<close>

text \<open>
  The byte-array loop. Its counter \<open>j\<close> is a \<open>uint16_t\<close> and the length a \<open>uint32_t\<close>, so the loop
  need not end: None is the value of a loop that does not.
\<close>

partial_function (option) byte_items ::
    "'d attr_api \<Rightarrow> (nat \<Rightarrow> bool) \<Rightarrow> byte list \<Rightarrow> nat \<Rightarrow> 16 word \<Rightarrow> nat \<Rightarrow> 'd cJSON list
      \<Rightarrow> ('d cJSON list option \<times> nat) res option" where
  "byte_items w alloc m p j k acc =
     (case get_uint32 m p of
        Inl e \<Rightarrow> Some (Inl e)
      | Inr len \<Rightarrow>
          if ucast j < len
          then (case read_bytes m (p + 4 + unat j) 1 of
                  Inl e \<Rightarrow> Some (Inl e)
                | Inr bs \<Rightarrow>
                    if alloc k
                    then byte_items w alloc m p (j + 1) (Suc k) (acc @ [CNumber (double_of_int w (sint (hd bs)))])
                    else Some (Inr (None, Suc k)))
          else Some (Inr (Some acc, k)))"

text \<open>The value at \<open>p\<close> and the number of bytes it takes, for every label but the byte array.\<close>

definition attr_value :: "'d attr_api \<Rightarrow> byte list \<Rightarrow> nat \<Rightarrow> attr_kind \<Rightarrow> ('d cJSON \<times> nat) res" where
  "attr_value w m p kind =
     (case kind of
        ATTR_SHORT \<Rightarrow> bind_res (read_bytes m p 2)
          (\<lambda>bs. Inr (CNumber (double_of_int w (sint (le_word bs :: 16 word))), 2))
      | ATTR_INT \<Rightarrow> bind_res (read_bytes m p 4)
          (\<lambda>bs. Inr (CNumber (double_of_int w (sint (le_word bs :: 32 word))), 4))
      | ATTR_INT64 \<Rightarrow> bind_res (read_bytes m p 8)
          (\<lambda>bs. Inr (CNumber (double_of_int w (sint (le_word bs :: 64 word))), 8))
      | ATTR_BYTE \<Rightarrow> bind_res (read_bytes m p 1)
          (\<lambda>bs. Inr (CNumber (double_of_int w (sint (le_word bs :: 8 word))), 1))
      | ATTR_UINT16 \<Rightarrow> bind_res (read_bytes m p 2)
          (\<lambda>bs. Inr (CNumber (double_of_int w (uint (le_word bs :: 16 word))), 2))
      | ATTR_FLOAT \<Rightarrow> bind_res (read_bytes m p 4) (\<lambda>bs. Inr (CNumber (double_of_float w (le_word bs)), 4))
      | ATTR_DOUBLE \<Rightarrow> bind_res (read_bytes m p 8) (\<lambda>bs. Inr (CNumber (double_of_bits w (le_word bs)), 8))
      | ATTR_BOOLEAN \<Rightarrow> bind_res (read_bytes m p 1) (\<lambda>bs. Inr (CBool ((le_word bs :: 8 word) \<noteq> 0), 1))
      | ATTR_STRING \<Rightarrow> bind_res (read_str m (p + 2)) (\<lambda>s.
          bind_res (get_uint16 m p) (\<lambda>n. Inr (CString s, 2 + unat n)))
      | ATTR_BYTEARRAY \<Rightarrow> Inl Uninit_Read)"

text \<open>
  One turn of the attribute loop: None when an allocation fails, otherwise the items and the
  place of the next attribute. \<open>cJSON_AddItemToObject\<close> copies the key; when that copy cannot be
  made the item is not added, which the code does not notice.
\<close>

definition add_item :: "(nat \<Rightarrow> bool) \<Rightarrow> nat \<Rightarrow> (string \<times> 'd cJSON) list \<Rightarrow> string \<Rightarrow> 'd cJSON
    \<Rightarrow> (string \<times> 'd cJSON) list" where
  "add_item alloc k kvs key v = (if alloc k then kvs @ [(key, v)] else kvs)"

definition attr_step ::
    "'d attr_api \<Rightarrow> (nat \<Rightarrow> bool) \<Rightarrow> byte list \<Rightarrow> nat \<Rightarrow> nat \<Rightarrow> (string \<times> 'd cJSON) list
      \<Rightarrow> ((nat \<times> nat \<times> (string \<times> 'd cJSON) list) option) res" where
  "attr_step w alloc m p k kvs =
     bind_res (get_uint16 m p) (\<lambda>klen.
     let q = p + 2 + unat klen
     in bind_res (read_bytes m q 1) (\<lambda>t.
     let v = Suc q
     in case attr_kind_of w (scast (hd t)) of
          None \<Rightarrow> Inr (Some (v, k, kvs))
        | Some ATTR_BYTEARRAY \<Rightarrow>
            if alloc k
            then bind_res (read_str m (p + 2)) (\<lambda>key.
                 case byte_items w alloc m v 0 (Suc (Suc k)) [] of
                   None \<Rightarrow> Inl Diverges
                 | Some r \<Rightarrow> bind_res r (\<lambda>(items, k').
                     case items of
                       None \<Rightarrow> Inr None
                     | Some js \<Rightarrow> bind_res (get_uint32 m v) (\<lambda>n.
                         Inr (Some (v + 4 + unat n, k', add_item alloc (Suc k) kvs key (CArray js))))))
            else Inr None
        | Some kind \<Rightarrow>
            bind_res (attr_value w m v kind) (\<lambda>(j, n).
              if alloc k
              then bind_res (read_str m (p + 2)) (\<lambda>key.
                   Inr (Some (v + n, Suc (Suc k), add_item alloc (Suc k) kvs key j)))
              else Inr None)))"

fun attr_items ::
    "'d attr_api \<Rightarrow> (nat \<Rightarrow> bool) \<Rightarrow> byte list \<Rightarrow> nat \<Rightarrow> nat \<Rightarrow> nat \<Rightarrow> (string \<times> 'd cJSON) list
      \<Rightarrow> ((string \<times> 'd cJSON) list option) res" where
  "attr_items w alloc m 0 p k kvs = Inr (Some kvs)"
| "attr_items w alloc m (Suc i) p k kvs =
     bind_res (attr_step w alloc m p k kvs) (\<lambda>r.
       case r of None \<Rightarrow> Inr None | Some (p, k, kvs) \<Rightarrow> attr_items w alloc m i p k kvs)"

definition attr2json :: "'d attr_api \<Rightarrow> (nat \<Rightarrow> bool) \<Rightarrow> byte list option \<Rightarrow> 'd cJSON option res" where
  "attr2json w alloc attr_cont =
     (case attr_cont of
        None \<Rightarrow> Inr None
      | Some m \<Rightarrow>
          if \<not> alloc 0 then Inr None
          else if \<not> attr_get_tag w m then Inr None
          else (case attr_begin w m of
                  None \<Rightarrow> Inr None
                | Some (p, total_length, attr_num) \<Rightarrow>
                    bind_res (attr_items w alloc m (unat attr_num) p 1 [])
                      (\<lambda>r. Inr (map_option CObject r))))"

section \<open>json2attr\<close>

text \<open>The numbers before the first item that is not one.\<close>

fun array_bytes :: "'d attr_api \<Rightarrow> 'd cJSON list \<Rightarrow> byte list" where
  "array_bytes w [] = []"
| "array_bytes w (j # js) = (case j of CNumber d \<Rightarrow> int8_of_double w d # array_bytes w js | _ \<Rightarrow> [])"

text \<open>\<open>alloc\<close> numbers the arrays; None: the container is destroyed.\<close>

fun json_items :: "'d attr_api \<Rightarrow> (nat \<Rightarrow> bool) \<Rightarrow> nat \<Rightarrow> (string \<times> 'd cJSON) list \<Rightarrow> byte list \<Rightarrow> byte list option" where
  "json_items w alloc k [] c = Some c"
| "json_items w alloc k ((key, j) # items) c =
     (case j of
        CNumber d \<Rightarrow> json_items w alloc k items (attr_set_double w c key d)
      | CBool b \<Rightarrow> json_items w alloc k items (attr_set_bool w c key b)
      | CString s \<Rightarrow> json_items w alloc k items (attr_set_string w c key s)
      | CArray js \<Rightarrow>
          if js = [] \<or> \<not> alloc k then None
          else let bs = array_bytes w js
               in json_items w alloc (Suc k) items (if 0 < length bs then attr_set_bytearray w c key bs else c)
      | _ \<Rightarrow> json_items w alloc k items c)"

definition json2attr :: "'d attr_api \<Rightarrow> (nat \<Rightarrow> bool) \<Rightarrow> 'd cJSON \<Rightarrow> byte list option" where
  "json2attr w alloc json_obj =
     (case attr_create w '''' of
        None \<Rightarrow> None
      | Some c \<Rightarrow> (case json_obj of CObject items \<Rightarrow> json_items w alloc 0 items c | _ \<Rightarrow> None))"

section \<open>The layout attr2json reads\<close>

text \<open>
  The specification of the layout: an attribute is the 16-bit length of its key with the
  terminator, the key, a byte with the type code and the value; \<open>code\<close> gives the codes.
\<close>

datatype attr_val =
    VShort "16 word" | VInt "32 word" | VInt64 "64 word" | VByte byte | VUint16 "16 word"
  | VFloat "32 word" | VDouble "64 word" | VBool bool | VString string | VBytes "byte list"

fun kind_of_val :: "attr_val \<Rightarrow> attr_kind" where
  "kind_of_val (VShort w) = ATTR_SHORT"
| "kind_of_val (VInt w) = ATTR_INT"
| "kind_of_val (VInt64 w) = ATTR_INT64"
| "kind_of_val (VByte w) = ATTR_BYTE"
| "kind_of_val (VUint16 w) = ATTR_UINT16"
| "kind_of_val (VFloat w) = ATTR_FLOAT"
| "kind_of_val (VDouble w) = ATTR_DOUBLE"
| "kind_of_val (VBool b) = ATTR_BOOLEAN"
| "kind_of_val (VString s) = ATTR_STRING"
| "kind_of_val (VBytes bs) = ATTR_BYTEARRAY"

definition le_bytes :: "nat \<Rightarrow> 'a::len word \<Rightarrow> byte list" where
  "le_bytes n w = map (byte_at w) [0..<n]"

definition cstr_bytes :: "string \<Rightarrow> byte list" where
  "cstr_bytes s = bytes s @ [0]"

fun enc_val :: "attr_val \<Rightarrow> byte list" where
  "enc_val (VShort w) = le_bytes 2 w"
| "enc_val (VInt w) = le_bytes 4 w"
| "enc_val (VInt64 w) = le_bytes 8 w"
| "enc_val (VByte w) = [w]"
| "enc_val (VUint16 w) = le_bytes 2 w"
| "enc_val (VFloat w) = le_bytes 4 w"
| "enc_val (VDouble w) = le_bytes 8 w"
| "enc_val (VBool b) = [if b then 1 else 0]"
| "enc_val (VString s) = le_bytes 2 (word_of_nat (Suc (length s)) :: 16 word) @ cstr_bytes s"
| "enc_val (VBytes bs) = le_bytes 4 (word_of_nat (length bs) :: 32 word) @ bs"

definition enc_attr :: "(attr_kind \<Rightarrow> byte) \<Rightarrow> string \<times> attr_val \<Rightarrow> byte list" where
  "enc_attr code kv = le_bytes 2 (word_of_nat (Suc (length (fst kv))) :: 16 word) @ cstr_bytes (fst kv)
     @ [code (kind_of_val (snd kv))] @ enc_val (snd kv)"

fun json_of_val :: "'d attr_api \<Rightarrow> attr_val \<Rightarrow> 'd cJSON" where
  "json_of_val w (VShort v) = CNumber (double_of_int w (sint v))"
| "json_of_val w (VInt v) = CNumber (double_of_int w (sint v))"
| "json_of_val w (VInt64 v) = CNumber (double_of_int w (sint v))"
| "json_of_val w (VByte v) = CNumber (double_of_int w (sint v))"
| "json_of_val w (VUint16 v) = CNumber (double_of_int w (uint v))"
| "json_of_val w (VFloat v) = CNumber (double_of_float w v)"
| "json_of_val w (VDouble v) = CNumber (double_of_bits w v)"
| "json_of_val w (VBool b) = CBool b"
| "json_of_val w (VString s) = CString s"
| "json_of_val w (VBytes bs) = CArray (map (\<lambda>b. CNumber (double_of_int w (sint b))) bs)"

text \<open>Keys, strings and byte arrays whose lengths the 16-bit fields and counters hold.\<close>

fun val_fits :: "attr_val \<Rightarrow> bool" where
  "val_fits (VString s) \<longleftrightarrow> cstring s \<and> length s < 65535"
| "val_fits (VBytes bs) \<longleftrightarrow> length bs < 65536"
| "val_fits _ \<longleftrightarrow> True"

definition attr_fits :: "string \<times> attr_val \<Rightarrow> bool" where
  "attr_fits kv \<longleftrightarrow> cstring (fst kv) \<and> length (fst kv) < 65535 \<and> val_fits (snd kv)"

lemma bit_le_word:
  "bit (le_word bs :: 'a::len word) n \<longleftrightarrow> n < LENGTH('a) \<and> n div 8 < length bs \<and> bit (bs ! (n div 8)) (n mod 8)"
proof (induction bs arbitrary: n)
  case (Cons b bs)
  show ?case
  proof (cases "n < 8")
    case True
    then show ?thesis by (auto simp: bit_simps)
  next
    case False
    then have "n div 8 = Suc ((n - 8) div 8)" and "n mod 8 = (n - 8) mod 8"
      by (simp_all add: le_div_geq le_mod_geq)
    moreover have "\<not> bit b n" using False by (auto dest: bit_imp_le_length)
    ultimately show ?thesis using False Cons [of "n - 8"] by (auto simp: bit_simps)
  qed
qed simp

lemma le_word_bytes: "LENGTH('a) \<le> 8 * n \<Longrightarrow> le_word (le_bytes n w) = (w :: 'a::len word)"
proof (rule bit_word_eqI)
  fix k assume "LENGTH('a) \<le> 8 * n" and "k < LENGTH('a)"
  then have "k div 8 < n" by (simp add: less_mult_imp_div_less mult.commute)
  then show "bit (le_word (le_bytes n w) :: 'a word) k = bit w k"
    using \<open>k < LENGTH('a)\<close> by (simp add: bit_le_word le_bytes_def bit_byte_at)
qed

lemma length_le_bytes [simp]: "length (le_bytes n w) = n"
  by (simp add: le_bytes_def)

lemma read_bytes_at:
  "length pre = p \<Longrightarrow> length bs = n \<Longrightarrow> read_bytes (pre @ bs @ post) p n = Inr bs"
  by (auto simp: read_bytes_def)

lemma chars_bytes [simp]: "chars (bytes s) = s"
  by (induction s) (auto simp: chars_def bytes_def unat_of_nat)

lemma chars_append [simp]: "chars (a @ b) = chars a @ chars b"
  by (simp add: chars_def)

lemma length_chars [simp]: "length (chars b) = length b"
  by (simp add: chars_def)

lemma length_bytes [simp]: "length (bytes b) = length b"
  by (simp add: bytes_def)

lemma read_str_at: "length pre = p \<Longrightarrow> cstring s \<Longrightarrow> read_str (pre @ cstr_bytes s @ post) p = Inr s"
proof -
  assume a: "length pre = p" "cstring s"
  have "chars (0 # b) = NUL # chars b" for b by (simp add: chars_def NUL_def char_of_def)
  then have "drop p (chars (pre @ cstr_bytes s @ post)) = s @ NUL # chars post"
    using a by (simp add: cstr_bytes_def)
  with a show ?thesis
    by (simp add: read_str_def read_cstr_def takeWhile_cstring)
qed

lemma get_uint_at:
  "length pre = p \<Longrightarrow> get_uint16 (pre @ le_bytes 2 u @ post) p = Inr u"
  "length pre = p \<Longrightarrow> get_uint32 (pre @ le_bytes 4 v @ post) p = Inr v"
  by (simp_all add: get_uint16_def get_uint32_def read_bytes_at le_word_bytes)

lemma unat_small: "n < 65536 \<Longrightarrow> unat (word_of_nat n :: 16 word) = n" "n < 65536 \<Longrightarrow> unat (word_of_nat n :: 32 word) = n"
  by (simp_all add: unat_of_nat)

lemma unat_ucast_up: "unat (ucast (u :: 16 word) :: 32 word) = unat u"
proof -
  have "unat u < 2 ^ 16" using unsigned_less [of u] by simp
  then show ?thesis by (simp add: unsigned_ucast_eq take_bit_nat_eq_self)
qed

lemma attr_value_at:
  assumes "length pre = p" and "val_fits v" and "\<And>bs. v \<noteq> VBytes bs"
  shows "attr_value w (pre @ enc_val v @ post) p (kind_of_val v) = Inr (json_of_val w v, length (enc_val v))"
proof (cases v)
  case (VString s)
  let ?n = "word_of_nat (Suc (length s)) :: 16 word"
  have "read_str ((pre @ le_bytes 2 ?n) @ cstr_bytes s @ post) (p + 2) = Inr s"
    using assms VString by (intro read_str_at) simp_all
  moreover have "get_uint16 (pre @ le_bytes 2 ?n @ cstr_bytes s @ post) p = Inr ?n"
    by (rule get_uint_at(1) [OF assms(1)])
  ultimately show ?thesis using VString assms(2) unat_small(1) [of "Suc (length s)"]
    by (simp add: attr_value_def cstr_bytes_def)
next
  case (VByte b)
  show ?thesis using read_bytes_at [OF assms(1), of "[b]" 1 post] VByte by (simp add: attr_value_def)
next
  case (VBool b)
  show ?thesis using read_bytes_at [OF assms(1), of "[if b then 1 else 0]" 1 post] VBool
    by (simp add: attr_value_def)
qed (use assms in \<open>simp_all add: attr_value_def read_bytes_at le_word_bytes\<close>)

text \<open>One turn of the byte-array loop over an array that its counter can reach the end of, and its end.\<close>

lemma byte_items_turn:
  assumes m: "m = pre @ le_bytes 4 (word_of_nat (length bs) :: 32 word) @ bs @ post" and p: "length pre = p"
    and len: "length bs < 65536" and "j \<le> length bs"
  shows "byte_items w alloc m p (word_of_nat j) k acc
    = (if j = length bs then Some (Inr (Some acc, k))
       else if alloc k then byte_items w alloc m p (word_of_nat (Suc j)) (Suc k) (acc @ [CNumber (double_of_int w (sint (bs ! j)))])
       else Some (Inr (None, Suc k)))"
proof -
  have g: "get_uint32 m p = Inr (word_of_nat (length bs))" unfolding m by (rule get_uint_at(2) [OF p])
  have less: "ucast (word_of_nat j :: 16 word) < (word_of_nat (length bs) :: 32 word) \<longleftrightarrow> j < length bs"
    using assms(4) len by (simp add: word_less_nat_alt unat_ucast_up unat_small)
  have r: "read_bytes m (p + 4 + unat (word_of_nat j :: 16 word)) 1 = Inr [bs ! j]" if "j < length bs"
    using that len p unfolding m by (simp add: read_bytes_def unat_small take_Suc hd_drop_conv_nth nth_append)
  have suc: "word_of_nat (Suc j) = (word_of_nat j + 1 :: 16 word)" by simp
  show ?thesis
  proof (cases "j = length bs")
    case True
    with g less show ?thesis by (subst byte_items.simps) simp
  next
    case False
    with assms(4) have j: "j < length bs" by simp
    with r less show ?thesis by (subst byte_items.simps) (simp add: g suc del: of_nat_Suc)
  qed
qed

lemma byte_items_at:
  assumes m: "m = pre @ le_bytes 4 (word_of_nat (length bs) :: 32 word) @ bs @ post" and p: "length pre = p"
    and len: "length bs < 65536" and "j \<le> length bs"
  shows "byte_items w (\<lambda>_. True) m p (word_of_nat j) k acc
    = Some (Inr (Some (acc @ map (\<lambda>b. CNumber (double_of_int w (sint b))) (drop j bs)), k + (length bs - j)))"
  using assms(4)
proof (induction "length bs - j" arbitrary: j k acc)
  case 0
  with byte_items_turn [OF m p len 0(2), of w] show ?case by simp
next
  case (Suc d)
  then have j: "j < length bs" by simp
  have "byte_items w (\<lambda>_. True) m p (word_of_nat j) k acc
      = byte_items w (\<lambda>_. True) m p (word_of_nat (Suc j)) (Suc k) (acc @ [CNumber (double_of_int w (sint (bs ! j)))])"
    using byte_items_turn [OF m p len Suc.prems, of w] j by (simp del: of_nat_Suc)
  also have "\<dots> = Some (Inr (Some ((acc @ [CNumber (double_of_int w (sint (bs ! j)))])
      @ map (\<lambda>b. CNumber (double_of_int w (sint b))) (drop (Suc j) bs)), Suc k + (length bs - Suc j)))"
    using Suc by (intro Suc.hyps) simp_all
  finally show ?case using j by (simp add: Cons_nth_drop_Suc [symmetric])
qed

lemma byte_items_ends:
  assumes m: "m = pre @ le_bytes 4 (word_of_nat (length bs) :: 32 word) @ bs @ post" and p: "length pre = p"
    and len: "length bs < 65536" and "j \<le> length bs"
  shows "\<exists>js k'. byte_items w alloc m p (word_of_nat j) k acc = Some (Inr (js, k'))"
  using assms(4)
proof (induction "length bs - j" arbitrary: j k acc)
  case 0
  with byte_items_turn [OF m p len 0(2), of w] show ?case by simp
next
  case (Suc d)
  then have "\<exists>js k'. byte_items w alloc m p (word_of_nat (Suc j)) (Suc k) (acc @ [CNumber (double_of_int w (sint (bs ! j)))]) = Some (Inr (js, k'))"
    by (intro Suc.hyps) simp_all
  with byte_items_turn [OF m p len Suc.prems, of w alloc k acc] show ?case by (simp del: of_nat_Suc)
qed

lemma length_enc_attr [simp]: "length (enc_attr code (key, v)) = 4 + length key + length (enc_val v)"
  by (simp add: enc_attr_def cstr_bytes_def)

text \<open>What \<open>attr_step\<close> reads in front of the value, and where the value is.\<close>

lemma attr_head:
  assumes m: "m = pre @ enc_attr code (key, v) @ post" and p: "length pre = p"
    and key: "cstring key" "length key < 65535"
  obtains klen head where "get_uint16 m p = Inr klen" "unat klen = Suc (length key)" "read_str m (p + 2) = Inr key"
    "read_bytes m (p + 2 + Suc (length key)) 1 = Inr [code (kind_of_val v)]"
    "length head = Suc (p + 2 + Suc (length key))" "m = head @ enc_val v @ post"
proof -
  obtain klen :: "16 word" where klen_eq: "word_of_nat (Suc (length key)) = klen" by blast
  let ?head = "pre @ le_bytes 2 klen @ cstr_bytes key"
  have m1: "m = pre @ le_bytes 2 klen @ (cstr_bytes key @ [code (kind_of_val v)] @ enc_val v @ post)"
    and m2: "m = (pre @ le_bytes 2 klen) @ cstr_bytes key @ ([code (kind_of_val v)] @ enc_val v @ post)"
    and m3: "m = ?head @ [code (kind_of_val v)] @ (enc_val v @ post)"
    and m4: "m = (?head @ [code (kind_of_val v)]) @ enc_val v @ post"
    by (simp_all add: m enc_attr_def klen_eq del: of_nat_Suc)
  show ?thesis
  proof (rule that)
    show "get_uint16 m p = Inr klen" unfolding m1 by (rule get_uint_at(1) [OF p])
    show "unat klen = Suc (length key)" using key unfolding klen_eq [symmetric] by (intro unat_small) simp
    show "read_str m (p + 2) = Inr key" unfolding m2 using p key(1) by (intro read_str_at) simp
    show "read_bytes m (p + 2 + Suc (length key)) 1 = Inr [code (kind_of_val v)]"
      unfolding m3 using p by (intro read_bytes_at) (simp_all add: cstr_bytes_def)
    show "length (?head @ [code (kind_of_val v)]) = Suc (p + 2 + Suc (length key))" using p by (simp add: cstr_bytes_def)
  qed (rule m4)
qed

text \<open>The value is where the attribute starts, plus the key and the type byte.\<close>

lemma attr_step_at:
  assumes m: "m = pre @ enc_attr code (key, v) @ post" and p: "length pre = p" and fits: "attr_fits (key, v)"
    and code: "\<And>a. attr_kind_of w (scast (code a)) = Some a"
  shows "\<exists>k'. attr_step w (\<lambda>_. True) m p k kvs
    = Inr (Some (p + length (enc_attr code (key, v)), k', kvs @ [(key, json_of_val w v)]))"
proof -
  have key: "cstring key" "length key < 65535" and v: "val_fits v" using fits by (simp_all add: attr_fits_def)
  obtain klen head where head: "get_uint16 m p = Inr klen" "unat klen = Suc (length key)" "read_str m (p + 2) = Inr key"
    "read_bytes m (p + 2 + Suc (length key)) 1 = Inr [code (kind_of_val v)]"
    and hlen: "length head = Suc (p + 2 + Suc (length key))" and m4: "m = head @ enc_val v @ post"
    by (rule attr_head [OF m p key])
  note sim = attr_step_def head [simplified] code add_item_def
  show ?thesis
  proof (cases "\<exists>bs. v = VBytes bs")
    case True
    then obtain bs where bs: "v = VBytes bs" by blast
    have m5: "m = head @ le_bytes 4 (word_of_nat (length bs) :: 32 word) @ bs @ post"
      using m4 bs by simp
    have "length bs < 65536" using v bs by simp
    from byte_items_at [OF m5 hlen this, of 0 w "Suc (Suc k)" "[]"] get_uint_at(2) [OF hlen, of "word_of_nat (length bs)" "bs @ post", folded m5]
      unat_small(2) [OF this]
    show ?thesis by (simp add: sim [unfolded bs] bs)
  next
    case False
    with v have "attr_value w m (Suc (p + 2 + Suc (length key))) (kind_of_val v) = Inr (json_of_val w v, length (enc_val v))"
      unfolding m4 using hlen by (intro attr_value_at) auto
    with False show ?thesis by (cases v) (simp_all add: sim)
  qed
qed

text \<open>With any memory: the attribute is passed, or an allocation fails and the call gives up.\<close>

lemma attr_step_any:
  assumes m: "m = pre @ enc_attr code (key, v) @ post" and p: "length pre = p" and fits: "attr_fits (key, v)"
    and code: "\<And>a. attr_kind_of w (scast (code a)) = Some a"
  shows "attr_step w alloc m p k kvs = Inr None
    \<or> (\<exists>k' kvs'. attr_step w alloc m p k kvs = Inr (Some (p + length (enc_attr code (key, v)), k', kvs')))"
proof -
  have key: "cstring key" "length key < 65535" and v: "val_fits v" using fits by (simp_all add: attr_fits_def)
  obtain klen head where head: "get_uint16 m p = Inr klen" "unat klen = Suc (length key)" "read_str m (p + 2) = Inr key"
    "read_bytes m (p + 2 + Suc (length key)) 1 = Inr [code (kind_of_val v)]"
    and hlen: "length head = Suc (p + 2 + Suc (length key))" and m4: "m = head @ enc_val v @ post"
    by (rule attr_head [OF m p key])
  note sim = attr_step_def head [simplified] code
  show ?thesis
  proof (cases "\<exists>bs. v = VBytes bs")
    case True
    then obtain bs where bs: "v = VBytes bs" by blast
    have m5: "m = head @ le_bytes 4 (word_of_nat (length bs) :: 32 word) @ bs @ post"
      using m4 bs by simp
    have len: "length bs < 65536" using v bs by simp
    obtain js k' where "byte_items w alloc m (Suc (p + 2 + Suc (length key))) 0 (Suc (Suc k)) [] = Some (Inr (js, k'))"
      using byte_items_ends [OF m5 hlen len, of 0 w alloc "Suc (Suc k)" "[]"] by auto
    with get_uint_at(2) [OF hlen, of "word_of_nat (length bs)" "bs @ post", folded m5] unat_small(2) [OF len]
    show ?thesis by (cases js) (simp_all add: sim [unfolded bs] bs)
  next
    case False
    with v have "attr_value w m (Suc (p + 2 + Suc (length key))) (kind_of_val v) = Inr (json_of_val w v, length (enc_val v))"
      unfolding m4 using hlen by (intro attr_value_at) auto
    with False show ?thesis by (cases v) (simp_all add: sim)
  qed
qed

lemma attr_items_any:
  assumes "\<And>a. attr_kind_of w (scast (code a)) = Some a" and "\<forall>kv \<in> set kvs. attr_fits kv"
    and "m = pre @ concat (map (enc_attr code) kvs) @ post" and "length pre = p"
  shows "attr_items w alloc m (length kvs + i) p k acc = Inr None
    \<or> (\<exists>k' acc'. attr_items w alloc m (length kvs + i) p k acc
         = attr_items w alloc m i (p + length (concat (map (enc_attr code) kvs))) k' acc')"
  using assms(2-)
proof (induction kvs arbitrary: pre p k acc)
  case (Cons kv kvs)
  obtain key v where kv: "kv = (key, v)" by (cases kv)
  have m1: "m = pre @ enc_attr code (key, v) @ (concat (map (enc_attr code) kvs) @ post)"
    and m2: "m = (pre @ enc_attr code (key, v)) @ concat (map (enc_attr code) kvs) @ post"
    using Cons.prems kv by simp_all
  from Cons.prems(1) kv have "attr_fits (key, v)" by simp
  from attr_step_any [where w = w and code = code and alloc = alloc and k = k and kvs = acc, OF m1 Cons.prems(3) this assms(1)]
  show ?case
  proof (elim disjE exE)
    fix k' acc'
    assume step: "attr_step w alloc m p k acc = Inr (Some (p + length (enc_attr code (key, v)), k', acc'))"
    have "attr_items w alloc m (length kvs + i) (p + length (enc_attr code (key, v))) k' acc' = Inr None
      \<or> (\<exists>k'' acc''. attr_items w alloc m (length kvs + i) (p + length (enc_attr code (key, v))) k' acc'
          = attr_items w alloc m i (p + length (enc_attr code (key, v)) + length (concat (map (enc_attr code) kvs))) k'' acc'')"
      using Cons.prems(1,3) by (intro Cons.IH [OF _ m2]) simp_all
    with step show ?thesis by (simp add: kv add.assoc)
  qed (simp add: kv)
qed auto

lemma attr_items_at:
  assumes "\<And>a. attr_kind_of w (scast (code a)) = Some a" and "\<forall>kv \<in> set kvs. attr_fits kv"
    and "m = pre @ concat (map (enc_attr code) kvs) @ post" and "length pre = p"
  shows "\<exists>k'. attr_items w (\<lambda>_. True) m (length kvs + i) p k acc
    = attr_items w (\<lambda>_. True) m i (p + length (concat (map (enc_attr code) kvs))) k'
        (acc @ map (\<lambda>(key, v). (key, json_of_val w v)) kvs)"
  using assms(2-)
proof (induction kvs arbitrary: pre p k acc)
  case (Cons kv kvs)
  obtain key v where kv: "kv = (key, v)" by (cases kv)
  have m1: "m = pre @ enc_attr code (key, v) @ (concat (map (enc_attr code) kvs) @ post)"
    and m2: "m = (pre @ enc_attr code (key, v)) @ concat (map (enc_attr code) kvs) @ post"
    using Cons.prems kv by simp_all
  from Cons.prems(1) kv have "attr_fits (key, v)" by simp
  from attr_step_at [where w = w and code = code, OF m1 Cons.prems(3) this assms(1)]
  obtain k' where "attr_step w (\<lambda>_. True) m p k acc
      = Inr (Some (p + length (enc_attr code (key, v)), k', acc @ [(key, json_of_val w v)]))" by blast
  moreover have "\<exists>k''. attr_items w (\<lambda>_. True) m (length kvs + i) (p + length (enc_attr code (key, v))) k' (acc @ [(key, json_of_val w v)])
      = attr_items w (\<lambda>_. True) m i (p + length (enc_attr code (key, v)) + length (concat (map (enc_attr code) kvs))) k''
          ((acc @ [(key, json_of_val w v)]) @ map (\<lambda>(key, v). (key, json_of_val w v)) kvs)"
    using Cons.prems(1,3) by (intro Cons.IH [OF _ m2]) simp_all
  ultimately show ?case by (simp add: kv add.assoc)
qed auto

lemma attr_items_end: "length m \<le> p \<Longrightarrow> 0 < i \<Longrightarrow> attr_items w alloc m i p k acc = Inl Out_Of_Bounds"
  by (cases i) (simp_all add: attr_step_def get_uint16_def read_bytes_def)

text \<open>
  A byte array that the 16-bit counter cannot reach the end of: the loop ends when an allocation
  fails, and only then.
\<close>

lemma byte_items_long_turn:
  assumes "get_uint32 m p = Inr len" and "65536 \<le> unat len" and "p + 65540 \<le> length m"
  shows "\<exists>b. byte_items w alloc m p j k acc
    = (if alloc k then byte_items w alloc m p (j + 1) (Suc k) (acc @ [CNumber (double_of_int w (sint (b :: byte)))])
       else Some (Inr (None, Suc k)))"
proof -
  have j: "unat j < 65536" using unsigned_less [of j] by simp
  with assms(2) have "ucast j < len" by (simp add: word_less_nat_alt unat_ucast_up)
  moreover obtain b where "read_bytes m (p + 4 + unat j) 1 = Inr b"
    using assms(3) j by (simp add: read_bytes_def)
  ultimately show ?thesis using assms(1) by (intro exI [of _ "hd b"]) (subst byte_items.simps, simp)
qed

lemma byte_items_exhausted:
  assumes "get_uint32 m p = Inr len" and "65536 \<le> unat len" and "p + 65540 \<le> length m"
    and "\<not> alloc n" and "k \<le> n"
  shows "\<exists>k'. byte_items w alloc m p j k acc = Some (Inr (None, k'))"
  using assms(5)
proof (induction "n - k" arbitrary: j k acc)
  case 0
  with byte_items_long_turn [OF assms(1-3), of w alloc j k acc] assms(4) show ?case by auto
next
  case (Suc d)
  obtain b where b: "byte_items w alloc m p j k acc
    = (if alloc k then byte_items w alloc m p (j + 1) (Suc k) (acc @ [CNumber (double_of_int w (sint (b :: byte)))])
       else Some (Inr (None, Suc k)))"
    using byte_items_long_turn [OF assms(1-3)] by blast
  have "\<exists>k'. byte_items w alloc m p (j + 1) (Suc k) (acc @ [CNumber (double_of_int w (sint b))]) = Some (Inr (None, k'))"
    using Suc by (intro Suc.hyps) simp_all
  with b show ?case by simp
qed

lemma byte_items_diverges:
  assumes "get_uint32 m p = Inr len" and "65536 \<le> unat len" and "p + 65540 \<le> length m" and "\<forall>n\<ge>k. alloc n"
  shows "byte_items w alloc m p j k acc = None"
proof -
  let ?long = "\<lambda>al m p k. (\<forall>n\<ge>k. al n) \<and> get_uint32 m p = Inr len \<and> 65536 \<le> unat len \<and> p + 65540 \<le> length m"
  have "\<not> ?long al m p k" if "byte_items w al m p j k acc = Some y"
    for w :: "'d attr_api" and al m p j k acc y
  proof (rule byte_items.raw_induct [where P = "\<lambda>w al m p j k acc y. \<not> ?long al m p k", OF _ that])
    fix f and w :: "'d attr_api" and al m p k acc y and j :: "16 word"
    assume IH: "\<And>w al m p j k acc y. f w al m p j k acc = Some y \<Longrightarrow> \<not> ?long al m p k"
      and step: "(case get_uint32 m p of
        Inl e \<Rightarrow> Some (Inl e)
      | Inr len \<Rightarrow>
          if ucast j < len
          then (case read_bytes m (p + 4 + unat j) 1 of
                  Inl e \<Rightarrow> Some (Inl e)
                | Inr bs \<Rightarrow>
                    if al k
                    then f w al m p (j + 1) (Suc k) (acc @ [CNumber (double_of_int w (sint (hd bs)))])
                    else Some (Inr (None, Suc k)))
          else Some (Inr (Some acc, k))) = Some y"
    show "\<not> ?long al m p k"
    proof
      assume long: "?long al m p k"
      have j: "unat j < 65536" using unsigned_less [of j] by simp
      with long have "ucast j < len" by (simp add: word_less_nat_alt unat_ucast_up)
      moreover obtain b where "read_bytes m (p + 4 + unat j) 1 = Inr b"
        using long j by (simp add: read_bytes_def)
      ultimately have "f w al m p (j + 1) (Suc k) (acc @ [CNumber (double_of_int w (sint (hd b)))]) = Some y"
        using step long by simp
      with IH long show False by (metis Suc_leD)
    qed
  qed
  with assms show ?thesis by (cases "byte_items w alloc m p j k acc") blast+
qed

lemma attr_step_long:
  assumes m: "m = pre @ enc_attr code (key, VBytes bs) @ post" and p: "length pre = p"
    and key: "cstring key" "length key < 65535" and bs: "65536 \<le> length bs" "length bs < 2 ^ 32"
    and code: "attr_kind_of w (scast (code ATTR_BYTEARRAY)) = Some ATTR_BYTEARRAY"
  shows "attr_step w alloc m p k kvs = (if alloc k \<and> (\<forall>n \<ge> Suc (Suc k). alloc n) then Inl Diverges else Inr None)"
proof -
  obtain klen head where head: "get_uint16 m p = Inr klen" "unat klen = Suc (length key)" "read_str m (p + 2) = Inr key"
    "read_bytes m (p + 2 + Suc (length key)) 1 = Inr [code ATTR_BYTEARRAY]"
    and hlen: "length head = Suc (p + 2 + Suc (length key))" and m4: "m = head @ enc_val (VBytes bs) @ post"
    using attr_head [OF m p key] by (metis kind_of_val.simps(10))
  let ?v = "Suc (p + 2 + Suc (length key))"
  have m5: "m = head @ le_bytes 4 (word_of_nat (length bs) :: 32 word) @ bs @ post" using m4 by simp
  have n: "get_uint32 m ?v = Inr (word_of_nat (length bs))" unfolding m5 by (rule get_uint_at(2) [OF hlen])
  have len: "65536 \<le> unat (word_of_nat (length bs) :: 32 word)" using bs by (simp add: unat_of_nat)
  have room: "?v + 65540 \<le> length m" using bs(1) hlen unfolding m5 by simp
  note sim = attr_step_def head [simplified] code
  show ?thesis
  proof (cases "\<forall>n \<ge> Suc (Suc k). alloc n")
    case True
    with byte_items_diverges [OF n len room True, of w 0 "[]"] show ?thesis by (simp add: sim)
  next
    case False
    then obtain i where "\<not> alloc i" "Suc (Suc k) \<le> i" by blast
    from byte_items_exhausted [where alloc = alloc and w = w and j = 0 and acc = "[]", OF n len room this] False
    show ?thesis by (auto simp: sim)
  qed
qed

section \<open>Conversion and back\<close>

lemma attr2json_kvs:
  assumes "attr_get_tag w m" and "attr_begin w m = Some (length pre, tot, word_of_nat (length kvs))"
    and "length kvs < 65536" and "m = pre @ concat (map (enc_attr code) kvs) @ post"
    and "\<forall>kv \<in> set kvs. attr_fits kv" and "\<And>a. attr_kind_of w (scast (code a)) = Some a"
  shows "attr2json w (\<lambda>_. True) (Some m) = Inr (Some (CObject (map (\<lambda>(key, v). (key, json_of_val w v)) kvs)))"
proof -
  from attr_items_at [where w = w, OF assms(6,5,4) refl, of 0 1 "[]"]
  have "attr_items w (\<lambda>_. True) m (length kvs) (length pre) 1 [] = Inr (Some (map (\<lambda>(key, v). (key, json_of_val w v)) kvs))"
    by auto
  with assms(1-3) unat_small(1) [OF assms(3)] show ?thesis
    by (simp add: attr2json_def)
qed

text \<open>The container \<open>m\<close> announces and holds the attributes \<open>kvs\<close>.\<close>

definition holds_attrs :: "'d attr_api \<Rightarrow> byte list \<Rightarrow> (string \<times> attr_val) list \<Rightarrow> bool" where
  "holds_attrs w m kvs \<longleftrightarrow>
     attr_get_tag w m \<and> length kvs < 65536 \<and> (\<forall>kv \<in> set kvs. attr_fits kv)
     \<and> (\<exists>pre post tot code. attr_begin w m = Some (length pre, tot, word_of_nat (length kvs))
          \<and> m = pre @ concat (map (enc_attr code) kvs) @ post \<and> (\<forall>a. attr_kind_of w (scast (code a)) = Some a))"

lemma holds_attrs_json:
  "holds_attrs w m kvs \<Longrightarrow>
   attr2json w (\<lambda>_. True) (Some m) = Inr (Some (CObject (map (\<lambda>(key, v). (key, json_of_val w v)) kvs)))"
  unfolding holds_attrs_def by (elim conjE exE, rule attr2json_kvs) blast+

text \<open>
  What attr_container.h promises of the functions that build a container, as a relation between the
  bytes of a container and the attributes in it (any relation \<open>R\<close> of this kind): a new container
  is empty, each setter puts an attribute with a new key behind the others (of which there are at most
  65534: their number is a 16-bit field), a container with
  attributes has the layout. Of the conversions between \<open>int8_t\<close> and \<open>double\<close>: they keep a number.
\<close>

definition sets_attrs :: "'d attr_api \<Rightarrow> (byte list \<Rightarrow> (string \<times> attr_val) list \<Rightarrow> bool) \<Rightarrow> bool" where
  "sets_attrs w R \<longleftrightarrow>
     (\<forall>c kvs key. R c kvs \<longrightarrow> key \<notin> fst ` set kvs \<longrightarrow> length kvs < 65535 \<longrightarrow>
        (\<forall>d. attr_fits (key, VDouble d) \<longrightarrow> R (attr_set_double w c key (double_of_bits w d)) (kvs @ [(key, VDouble d)]))
        \<and> (\<forall>b. attr_fits (key, VBool b) \<longrightarrow> R (attr_set_bool w c key b) (kvs @ [(key, VBool b)]))
        \<and> (\<forall>t. attr_fits (key, VString t) \<longrightarrow> R (attr_set_string w c key t) (kvs @ [(key, VString t)]))
        \<and> (\<forall>bs. attr_fits (key, VBytes bs) \<longrightarrow> bs \<noteq> [] \<longrightarrow> R (attr_set_bytearray w c key bs) (kvs @ [(key, VBytes bs)])))"

definition keeps_int8 :: "'d attr_api \<Rightarrow> bool" where
  "keeps_int8 w \<longleftrightarrow> (\<forall>b. int8_of_double w (double_of_int w (sint b)) = b)"

definition builds_attrs :: "'d attr_api \<Rightarrow> bool" where
  "builds_attrs w \<longleftrightarrow> keeps_int8 w \<and>
     (\<exists>R. (\<forall>c. attr_create w '''' = Some c \<longrightarrow> R c []) \<and> sets_attrs w R
        \<and> (\<forall>c kvs. R c kvs \<longrightarrow> length kvs < 65536 \<longrightarrow> (\<forall>kv \<in> set kvs. attr_fits kv) \<longrightarrow> holds_attrs w c kvs))"

text \<open>The attributes that JSON can stand for.\<close>

fun plain_val :: "attr_val \<Rightarrow> bool" where
  "plain_val (VDouble d) \<longleftrightarrow> True"
| "plain_val (VBool b) \<longleftrightarrow> True"
| "plain_val (VString t) \<longleftrightarrow> True"
| "plain_val (VBytes bs) \<longleftrightarrow> bs \<noteq> []"
| "plain_val _ \<longleftrightarrow> False"

abbreviation json_of_attrs :: "'d attr_api \<Rightarrow> (string \<times> attr_val) list \<Rightarrow> (string \<times> 'd cJSON) list" where
  "json_of_attrs w kvs \<equiv> map (\<lambda>(key, v). (key, json_of_val w v)) kvs"

lemma array_bytes_back: "keeps_int8 w \<Longrightarrow> array_bytes w (map (\<lambda>b. CNumber (double_of_int w (sint b))) bs) = bs"
  by (induction bs) (simp_all add: keeps_int8_def)

lemma json_items_build:
  assumes "sets_attrs w R" and "keeps_int8 w"
    and "R c done0" and "distinct (map fst (done0 @ kvs))" and "\<forall>(key, v) \<in> set kvs. attr_fits (key, v) \<and> plain_val v"
    and "length (done0 @ kvs) < 65536"
  shows "\<exists>c'. json_items w (\<lambda>_. True) k (json_of_attrs w kvs) c = Some c' \<and> R c' (done0 @ kvs)"
  using assms(3-6)
proof (induction kvs arbitrary: c done0 k)
  case (Cons kv kvs)
  obtain key v where kv: "kv = (key, v)" by (cases kv)
  have new: "key \<notin> fst ` set done0" using Cons.prems(2) kv by auto
  have v: "attr_fits (key, v)" "plain_val v" using Cons.prems(3) kv by auto
  have "length done0 < 65535" using Cons.prems(4) by simp
  note put = assms(1) [unfolded sets_attrs_def, rule_format, OF Cons.prems(1) new this]
  have "\<exists>c1 k1. json_items w (\<lambda>_. True) k (json_of_attrs w (kv # kvs)) c = json_items w (\<lambda>_. True) k1 (json_of_attrs w kvs) c1
      \<and> R c1 (done0 @ [kv])"
  proof (cases v)
    case (VBytes bs)
    with put v show ?thesis
      by (intro exI [of _ "attr_set_bytearray w c key bs"] exI [of _ "Suc k"]) (simp add: kv array_bytes_back [OF assms(2)] Let_def)
  qed (use put v in \<open>auto simp: kv\<close>)
  then obtain c1 k1 where c1: "json_items w (\<lambda>_. True) k (json_of_attrs w (kv # kvs)) c = json_items w (\<lambda>_. True) k1 (json_of_attrs w kvs) c1"
    "R c1 (done0 @ [kv])" by blast
  from Cons.IH [OF c1(2), of k1] Cons.prems(2-4) c1(1) show ?case by simp
qed auto

lemma json2attr_build:
  assumes "builds_attrs w" and "attr_create w '''' = Some c0" and "distinct (map fst kvs)" and "length kvs < 65536"
    and "\<forall>(key, v) \<in> set kvs. attr_fits (key, v) \<and> plain_val v"
  shows "\<exists>c. json2attr w (\<lambda>_. True) (CObject (json_of_attrs w kvs)) = Some c \<and> holds_attrs w c kvs"
proof -
  from assms(1,2) obtain R where R: "keeps_int8 w" "R c0 []" "sets_attrs w R"
    "R c kvs \<Longrightarrow> length kvs < 65536 \<Longrightarrow> \<forall>kv \<in> set kvs. attr_fits kv \<Longrightarrow> holds_attrs w c kvs" for c
    unfolding builds_attrs_def by blast
  obtain c where "json_items w (\<lambda>_. True) 0 (json_of_attrs w kvs) c0 = Some c" "R c kvs"
    using json_items_build [OF R(3,1,2) _ assms(5), of 0] assms(3,4) by auto
  moreover have "\<forall>kv \<in> set kvs. attr_fits kv" using assms(5) by auto
  ultimately show ?thesis using R(4) assms(2,4) by (auto simp: json2attr_def)
qed

text \<open>What does not reach the container: members of other kinds, and the items from the first that is no number.\<close>

fun is_number :: "'d cJSON \<Rightarrow> bool" where
  "is_number (CNumber d) \<longleftrightarrow> True"
| "is_number _ \<longleftrightarrow> False"

lemma array_bytes_stops: "\<not> is_number j \<Longrightarrow> array_bytes w (js @ j # rest) = array_bytes w js"
proof (induction js)
  case Nil
  then show ?case by (cases j) simp_all
qed (simp split: cJSON.split)

text \<open>Where the numbers of the allocations begin does not matter when all succeed.\<close>

lemma json_items_index: "json_items w (\<lambda>_. True) k items c = json_items w (\<lambda>_. True) n items c"
proof (induction items arbitrary: c k n)
  case (Cons item items)
  from Cons.IH [of k _ n] Cons.IH [of "Suc k" _ "Suc n"] show ?case by (cases item; cases "snd item") (simp_all add: Let_def)
qed simp

lemma json_items_append:
  "json_items w (\<lambda>_. True) k (as @ bs) c
    = (case json_items w (\<lambda>_. True) k as c of None \<Rightarrow> None | Some c' \<Rightarrow> json_items w (\<lambda>_. True) k bs c')"
proof (induction as arbitrary: k c)
  case (Cons a as)
  show ?case
  proof (cases "snd a")
    case (CArray js)
    with Cons.IH [of "Suc k"] show ?thesis
      using json_items_index [of w "Suc k" bs _ k] by (cases a) (simp add: Let_def split: option.split)
  qed (use Cons.IH in \<open>cases a, simp\<close>)+
qed simp

lemma json_items_skip:
  assumes "\<And>k c. json_items w (\<lambda>_. True) k xs c = json_items w (\<lambda>_. True) k ys c"
  shows "json2attr w (\<lambda>_. True) (CObject (pre @ xs @ post)) = json2attr w (\<lambda>_. True) (CObject (pre @ ys @ post))"
  by (simp add: json2attr_def json_items_append assms split: option.split)

section \<open>Properties\<close>

text \<open>
  C11. \<open>attr2json\<close> decodes the container layout: given the attributes \<open>kvs\<close> at the place and in
  the number the container announces, and memory, it returns the object with exactly these keys
  and values in order, whatever surrounds them, and reads nothing outside the container.
\<close>

theorem attr2json_decodes:
  assumes "attr_get_tag w m" and "attr_begin w m = Some (length pre, tot, word_of_nat (length kvs))"
    and "length kvs < 65536" and "m = pre @ concat (map (enc_attr code) kvs) @ post"
    and "\<forall>kv \<in> set kvs. attr_fits kv" and "\<And>a. attr_kind_of w (scast (code a)) = Some a"
  shows "attr2json w (\<lambda>_. True) (Some m) = Inr (Some (CObject (map (\<lambda>(key, v). (key, json_of_val w v)) kvs)))"
  using assms by (rule attr2json_kvs)

text \<open>A container format of the required shape: a tag byte, the number of attributes, the attributes.\<close>

definition demo_code :: "attr_kind \<Rightarrow> byte" where
  "demo_code a = (case a of ATTR_SHORT \<Rightarrow> 1 | ATTR_INT \<Rightarrow> 2 | ATTR_INT64 \<Rightarrow> 3 | ATTR_BYTE \<Rightarrow> 4
     | ATTR_UINT16 \<Rightarrow> 5 | ATTR_FLOAT \<Rightarrow> 6 | ATTR_DOUBLE \<Rightarrow> 7 | ATTR_BOOLEAN \<Rightarrow> 8 | ATTR_STRING \<Rightarrow> 9
     | ATTR_BYTEARRAY \<Rightarrow> 10)"

definition demo_attr :: "int attr_api" where
  "demo_attr = \<lparr>attr_get_tag = (\<lambda>m. m \<noteq> []), attr_begin = (\<lambda>m. Some (2, 0, ucast (m ! 1))),
     attr_kind_of = (\<lambda>t. if t = 1 then Some ATTR_SHORT else if t = 2 then Some ATTR_INT
        else if t = 3 then Some ATTR_INT64 else if t = 4 then Some ATTR_BYTE else if t = 5 then Some ATTR_UINT16
        else if t = 6 then Some ATTR_FLOAT else if t = 7 then Some ATTR_DOUBLE
        else if t = 8 then Some ATTR_BOOLEAN else if t = 9 then Some ATTR_STRING
        else if t = 10 then Some ATTR_BYTEARRAY else None),
     attr_create = (\<lambda>t. Some [0, 0]), attr_set_double = (\<lambda>c k d. c), attr_set_bool = (\<lambda>c k b. c),
     attr_set_string = (\<lambda>c k s. c @ bytes s), attr_set_bytearray = (\<lambda>c k bs. c @ bs),
     attr_serialize_length = (\<lambda>c. int (length c)), attr_get_as_string = (\<lambda>c k. None),
     double_of_int = id, double_of_float = uint, double_of_bits = uint, int8_of_double = word_of_int\<rparr>"

lemma demo_codes: "attr_kind_of demo_attr (scast (demo_code a)) = Some a"
  by (cases a) (simp_all add: demo_attr_def demo_code_def)

definition demo_kvs :: "(string \<times> attr_val) list" where
  "demo_kvs = [(''raw_str'', VString ''on''), (''t'', VShort (- 5)), (''b'', VBytes [1, 255])]"

theorem attr2json_decodes_witness:
  "attr2json demo_attr (\<lambda>_. True) (Some ([7, 3] @ concat (map (enc_attr demo_code) demo_kvs) @ []))
    = Inr (Some (CObject [(''raw_str'', CString ''on''), (''t'', CNumber (- 5)), (''b'', CArray [CNumber 1, CNumber (- 1)])]))"
proof -
  have "attr_get_tag demo_attr ([7, 3] @ concat (map (enc_attr demo_code) demo_kvs) @ [])"
    and "attr_begin demo_attr ([7, 3] @ concat (map (enc_attr demo_code) demo_kvs) @ [])
      = Some (length [7 :: byte, 3], 0, word_of_nat (length demo_kvs))"
    and "\<forall>kv \<in> set demo_kvs. attr_fits kv" and "length demo_kvs < 65536"
    by (simp_all add: demo_attr_def demo_kvs_def attr_fits_def NUL_def)
  from attr2json_decodes [OF this(1,2,4) refl this(3) demo_codes]
  show ?thesis by (simp add: demo_kvs_def demo_attr_def)
qed

text \<open>
  \<open>attr2json\<close> believes the number of attributes: when the container announces more than its
  memory holds, the call reads outside it (the announced total length is never looked at).
\<close>

theorem attr2json_overreads:
  assumes "attr_get_tag w m" and "attr_begin w m = Some (length pre, tot, n)"
    and "length kvs < unat n" and "m = pre @ concat (map (enc_attr code) kvs)"
    and "\<forall>kv \<in> set kvs. attr_fits kv" and "\<And>a. attr_kind_of w (scast (code a)) = Some a"
  shows "attr2json w (\<lambda>_. True) (Some m) = Inl Out_Of_Bounds"
proof -
  have m: "m = pre @ concat (map (enc_attr code) kvs) @ []" using assms(4) by simp
  from attr_items_at [where w = w, OF assms(6,5) m refl, of "unat n - length kvs" 1 "[]"] assms(3)
  obtain k' where "attr_items w (\<lambda>_. True) m (unat n) (length pre) 1 []
      = attr_items w (\<lambda>_. True) m (unat n - length kvs) (length m) k' ([] @ map (\<lambda>(key, v). (key, json_of_val w v)) kvs)"
    unfolding m by auto
  also have "\<dots> = Inl Out_Of_Bounds" using assms(3) by (intro attr_items_end) simp_all
  finally show ?thesis using assms(1,2) by (simp add: attr2json_def)
qed

theorem attr2json_overreads_witness:
  "attr2json demo_attr (\<lambda>_. True) (Some ([7, 4] @ concat (map (enc_attr demo_code) demo_kvs))) = Inl Out_Of_Bounds"
  by (rule attr2json_overreads [where kvs = demo_kvs and pre = "[7, 4]" and n = 4 and tot = 0, OF _ _ _ refl _ demo_codes])
     (simp_all add: demo_attr_def demo_kvs_def attr_fits_def NUL_def)

text \<open>
  C40. A container with a byte array of 65536 bytes or more is never converted, wherever the array
  stands among its attributes: the 16-bit counter wraps around below the 32-bit length, and the loop
  creates items until memory is exhausted. With finite memory, a number of allocations after which
  every further one fails, \<open>attr2json\<close> returns NULL; if every allocation succeeded it would not return
  at all; and there is no third result.
\<close>

theorem attr2json_long_array_lost:
  assumes "attr_get_tag w m" and "attr_begin w m = Some (length pre, tot, n)" and "length kvs < unat n"
    and "m = pre @ concat (map (enc_attr code) kvs) @ enc_attr code (key, VBytes bs) @ post"
    and "\<forall>kv \<in> set kvs. attr_fits kv" and "cstring key" and "length key < 65535"
    and "65536 \<le> length bs" and "length bs < 2 ^ 32" and "\<And>a. attr_kind_of w (scast (code a)) = Some a"
  shows "((\<exists>N. \<forall>i\<ge>N. \<not> alloc i) \<longrightarrow> attr2json w alloc (Some m) = Inr None)
    \<and> ((\<forall>i. alloc i) \<longrightarrow> attr2json w alloc (Some m) = Inl Diverges)
    \<and> attr2json w alloc (Some m) \<in> {Inr None, Inl Diverges}"
proof -
  let ?p = "length pre + length (concat (map (enc_attr code) kvs))"
  obtain i where i: "unat n = length kvs + Suc i" using assms(3) by (auto dest: less_imp_Suc_add)
  have m: "m = (pre @ concat (map (enc_attr code) kvs)) @ enc_attr code (key, VBytes bs) @ post" using assms(4) by simp
  define rest where "rest al k acc = attr_items w al m (Suc i) ?p k acc" for al k acc
  define whole where "whole al = attr_items w al m (length kvs + Suc i) (length pre) 1 []" for al
  have long: "rest al k acc = (if al k \<and> (\<forall>n \<ge> Suc (Suc k). al n) then Inl Diverges else Inr None)" for al k acc
    using attr_step_long [OF m _ assms(6-9,10), of ?p al k acc] by (simp add: rest_def)
  have conv: "attr2json w al (Some m) = (if \<not> al 0 then Inr None else bind_res (whole al) (\<lambda>r. Inr (map_option CObject r)))" for al
    using assms(1,2) i by (simp add: attr2json_def whole_def)
  have any: "whole alloc = Inr None \<or> (\<exists>k acc. whole alloc = rest alloc k acc)"
    using attr_items_any [where w = w and i = "Suc i" and k = 1 and acc = "[]" and alloc = alloc, OF assms(10,5,4) refl]
    by (auto simp: rest_def whole_def)
  have "attr2json w alloc (Some m) = Inr None" if "\<forall>i\<ge>N. \<not> alloc i" for N
  proof -
    have "\<not> (\<forall>n \<ge> Suc (Suc k). alloc n)" for k using that by (meson nat_le_linear)
    with any long have "whole alloc = Inr None" by auto
    then show ?thesis by (simp add: conv)
  qed
  moreover have "attr2json w alloc (Some m) = Inl Diverges" if "\<forall>i. alloc i"
  proof -
    have "alloc = (\<lambda>_. True)" using that by auto
    with attr_items_at [where w = w and i = "Suc i" and k = 1 and acc = "[]", OF assms(10,5,4) refl]
    obtain k acc where "whole alloc = rest alloc k acc" by (auto simp: rest_def whole_def)
    with that show ?thesis by (simp add: conv long)
  qed
  moreover have "whole alloc \<in> {Inr None, Inl Diverges}" using any by (auto simp: long split: if_splits)
  then have "attr2json w alloc (Some m) \<in> {Inr None, Inl Diverges}" by (auto simp: conv)
  ultimately show ?thesis by blast
qed

definition demo_long :: "byte list" where
  "demo_long = replicate (2 ^ 16) 0"

lemma length_demo_long: "length demo_long = 65536"
  unfolding demo_long_def length_replicate by simp

text \<open>The array behind another attribute, and memory for a million allocations.\<close>

theorem attr2json_long_array_lost_witness:
  "attr2json demo_attr (\<lambda>i. i < 1000000)
     (Some ([7, 2] @ concat (map (enc_attr demo_code) [(''t'', VShort 5)]) @ enc_attr demo_code (''d'', VBytes demo_long) @ [])) = Inr None"
proof -
  let ?m = "[7, 2] @ concat (map (enc_attr demo_code) [(''t'', VShort 5)]) @ enc_attr demo_code (''d'', VBytes demo_long) @ []"
  have "\<exists>N. \<forall>i\<ge>N. \<not> i < (1000000 :: nat)" by (intro exI [of _ 1000000]) simp
  moreover have "attr_get_tag demo_attr ?m" "attr_begin demo_attr ?m = Some (length [7 :: byte, 2], 0, 2)"
    "length [(''t'', VShort 5)] < unat (2 :: 16 word)" "\<forall>kv \<in> set [(''t'', VShort 5)]. attr_fits kv" "cstring ''d''" "length ''d'' < 65535"
    "65536 \<le> length demo_long" "length demo_long < 2 ^ 32"
    by (simp_all add: demo_attr_def attr_fits_def length_demo_long)
  ultimately show ?thesis
    using attr2json_long_array_lost [of demo_attr ?m "[7, 2]" 0 2 "[(''t'', VShort 5)]" demo_code "''d''" demo_long "[]" "\<lambda>i. i < 1000000",
        OF _ _ _ refl] demo_codes by blast
qed


text \<open>Containers with a byte, the 16-bit number of attributes and the attributes.\<close>

definition box_put :: "byte list \<Rightarrow> string \<times> attr_val \<Rightarrow> byte list" where
  "box_put c kv = hd c # le_bytes 2 (le_word (take 2 (tl c)) + 1 :: 16 word) @ drop 3 c @ enc_attr demo_code kv"

definition box :: "(string \<times> attr_val) list \<Rightarrow> byte list" where
  "box kvs = 7 # le_bytes 2 (word_of_nat (length kvs) :: 16 word) @ concat (map (enc_attr demo_code) kvs)"

definition demo_box :: "int attr_api" where
  "demo_box = demo_attr\<lparr>attr_begin := (\<lambda>m. Some (3, 0, le_word (take 2 (tl m)))), attr_create := (\<lambda>t. Some (box [])),
     attr_set_double := (\<lambda>c k d. box_put c (k, VDouble (word_of_int d))), attr_set_bool := (\<lambda>c k b. box_put c (k, VBool b)),
     attr_set_string := (\<lambda>c k t. box_put c (k, VString t)), attr_set_bytearray := (\<lambda>c k bs. box_put c (k, VBytes bs))\<rparr>"

lemma box_put_box: "box_put (box kvs) kv = box (kvs @ [kv])"
proof -
  have "le_word (le_bytes 2 (word_of_nat (length kvs) :: 16 word)) = (word_of_nat (length kvs) :: 16 word)"
    by (rule le_word_bytes) simp
  then show ?thesis by (simp add: box_put_def box_def add.commute)
qed

lemma box_holds: "length kvs < 65536 \<Longrightarrow> \<forall>kv \<in> set kvs. attr_fits kv \<Longrightarrow> holds_attrs demo_box (box kvs) kvs"
  unfolding holds_attrs_def
proof (intro conjI exI)
  show "\<forall>a. attr_kind_of demo_box (scast (demo_code a)) = Some a" using demo_codes by (simp add: demo_box_def)
  show "attr_begin demo_box (box kvs)
      = Some (length (7 # le_bytes 2 (word_of_nat (length kvs) :: 16 word)), 0, word_of_nat (length kvs))"
    by (simp add: demo_box_def box_def le_word_bytes)
  show "box kvs = (7 # le_bytes 2 (word_of_nat (length kvs) :: 16 word)) @ concat (map (enc_attr demo_code) kvs) @ []"
    by (simp add: box_def)
qed (simp_all add: demo_box_def demo_attr_def box_def)

lemma demo_box_builds: "builds_attrs demo_box"
proof -
  have "sets_attrs demo_box (\<lambda>c kvs. c = box kvs)"
    by (simp add: sets_attrs_def demo_box_def demo_attr_def box_put_box)
  moreover have "keeps_int8 demo_box" and "attr_create demo_box '''' = Some (box [])"
    by (simp_all add: keeps_int8_def demo_box_def demo_attr_def)
  ultimately show ?thesis
    unfolding builds_attrs_def by (intro conjI exI [of _ "\<lambda>c kvs. c = box kvs"]) (auto simp: box_holds)
qed


end
