(* ===== verification/Runtime_Request.thy ===== *)
theory Runtime_Request
  imports Runtime_Send Attr_Json
begin

text \<open>
  The requests of the bridge to the runtime (bridge-tool/src/runtime_request.c), the record of
  the pending request (the variables \<open>g_mid\<close> and \<open>g_req_op_type\<close> of runtime_conn.c) and the file
  and identifier helpers of bridge_tool_utils.c. Each request builds its URL in an array of 256
  bytes, draws an identifier, notes itself as pending and goes out through \<open>send_request\<close>.
  The URL array is an instance of the contract \<open>bounded_text\<close> of C_Strings.

  \<open>rand\<close> is an oracle indexed by the number of calls, the file system gives for every name what
  \<open>open\<close>, \<open>fstat\<close>, \<open>malloc\<close> and \<open>read\<close> answer.
\<close>

section \<open>State\<close>

datatype op_type = NONE | INSTALL | UNINSTALL | QUERY | REQUEST | REGISTER | UNREGISTER

datatype PackageType = Wasm_Module_Bytecode | Wasm_Module_AoT | Package_Type_Unknown

record rt_state =
  lnk :: link_out
  g_mid :: "32 word"
  g_req_op_type :: op_type
  rand_init :: bool
  rand_calls :: nat
  utils_g_mid :: "32 word"   \<comment> \<open>\<open>g_mid\<close> of bridge_tool_utils.c, which nothing reads\<close>

record file_answer =
  fa_open :: bool
  fa_stat :: "nat option"          \<comment> \<open>the size; None: \<open>fstat\<close> fails\<close>
  fa_malloc :: bool
  fa_read :: "byte list option"    \<comment> \<open>what \<open>read\<close> delivers; None: it fails\<close>

record 'd rt_env =
  wamr :: wamr_api
  attrs :: "'d attr_api"
  kern :: kernel
  rnd :: "nat \<Rightarrow> 32 word"
  fs :: "string \<Rightarrow> file_answer"
  mem_ok :: "nat \<Rightarrow> bool"

definition URL_MAX_LEN :: nat where
  "URL_MAX_LEN = 256"

definition rt_conn_request_sent :: "op_type \<Rightarrow> 32 word \<Rightarrow> rt_state \<Rightarrow> rt_state" where
  "rt_conn_request_sent request_type m s = s\<lparr>g_mid := m, g_req_op_type := request_type\<rparr>"

definition rt_conn_response_received :: "rt_state \<Rightarrow> rt_state" where
  "rt_conn_response_received s = s\<lparr>g_req_op_type := NONE\<rparr>"

text \<open>The condition under which \<open>rt_conn_wait_pending_response\<close> returns.\<close>

definition rt_conn_wait_over :: "rt_state \<Rightarrow> bool" where
  "rt_conn_wait_over s \<longleftrightarrow> g_req_op_type s = NONE"

definition get_pending_request_info :: "rt_state \<Rightarrow> 32 word \<times> op_type" where
  "get_pending_request_info s = (g_mid s, g_req_op_type s)"

text \<open>The seed of the first call is part of the oracle.\<close>

definition gen_random_id :: "'d rt_env \<Rightarrow> rt_state \<Rightarrow> 32 word \<times> rt_state" where
  "gen_random_id e s =
     (let r = rnd e (rand_calls s)
      in (r, s\<lparr>rand_init := True, rand_calls := Suc (rand_calls s), utils_g_mid := r\<rparr>))"

definition read_file_to_buffer :: "(string \<Rightarrow> file_answer) \<Rightarrow> string option \<Rightarrow> (byte list \<times> int) option" where
  "read_file_to_buffer files filename =
     (case filename of
        None \<Rightarrow> None
      | Some f \<Rightarrow>
          (let a = files f
           in if \<not> fa_open a then None
              else (case fa_stat a of
                      None \<Rightarrow> None
                    | Some file_size \<Rightarrow>
                        if \<not> fa_malloc a then None
                        else (let read_size = (case fa_read a of None \<Rightarrow> - 1 | Some bs \<Rightarrow> int (min file_size (length bs)))
                              in if read_size < int file_size then None
                                 else Some (take file_size (the (fa_read a)), int file_size)))))"

text \<open>
  Nobody calls it: it opens in append mode, \<open>files\<close> is what the files hold, \<open>ret\<close> is the result of
  \<open>write\<close>.
\<close>

definition wirte_buffer_to_file ::
    "(string \<Rightarrow> bool) \<Rightarrow> int \<Rightarrow> string \<Rightarrow> byte list \<Rightarrow> (string \<Rightarrow> byte list) \<Rightarrow> int \<times> (string \<Rightarrow> byte list)" where
  "wirte_buffer_to_file openable ret filename buffer files =
     (if \<not> openable filename then (- 1, files)
      else (ret, files(filename := files filename @ take (nat ret) buffer)))"

section \<open>URLs\<close>

text \<open>\<open>snprintf (url + strlen (url), url_remain_space, ...)\<close> when there is space.\<close>

definition url_append :: "cbuf \<Rightarrow> string \<Rightarrow> cbuf res" where
  "url_append arr t =
     bind_res (read_cstr arr 0) (\<lambda>u.
       let remain = length arr - length u
       in if 0 < remain then snprintf_at arr (length u) remain t else Inr arr)"

definition url_append_if :: "bool \<Rightarrow> cbuf \<Rightarrow> string \<Rightarrow> cbuf res" where
  "url_append_if b arr t = (if b then url_append arr t else Inr arr)"

definition url_start :: "string \<Rightarrow> cbuf res" where
  "url_start t = snprintf_at (zero_buf URL_MAX_LEN) 0 (URL_MAX_LEN - 1) t"

definition install_url :: "string \<Rightarrow> string option \<Rightarrow> int \<Rightarrow> int \<Rightarrow> int \<Rightarrow> cbuf res" where
  "install_url name module_type heap_size timers watchdog_interval =
     bind_res (url_start (''/applet?name='' @ name)) (\<lambda>arr.
     bind_res (case module_type of None \<Rightarrow> Inr arr | Some t \<Rightarrow> url_append arr (''&type='' @ t)) (\<lambda>arr.
     bind_res (url_append_if (0 < heap_size) arr (''&heap='' @ show_int heap_size)) (\<lambda>arr.
     bind_res (url_append_if (0 < timers) arr (''&timers='' @ show_int timers)) (\<lambda>arr.
       url_append_if (0 < watchdog_interval) arr (''&wd='' @ show_int watchdog_interval)))))"

definition uninstall_url :: "string \<Rightarrow> string option \<Rightarrow> cbuf res" where
  "uninstall_url name module_type =
     bind_res (url_start (''/applet?name='' @ name)) (\<lambda>arr.
       case module_type of None \<Rightarrow> Inr arr | Some t \<Rightarrow> url_append arr (''&type='' @ t))"

definition query_url :: "string option \<Rightarrow> cbuf res" where
  "query_url name = url_start (case name of Some n \<Rightarrow> ''/applet?name='' @ n | None \<Rightarrow> ''/applet'')"

text \<open>\<open>sprintf\<close>, with no bound; \<open>urls[0]\<close> is the terminator of an empty string.\<close>

definition subscribe_url :: "string \<Rightarrow> cbuf res" where
  "subscribe_url urls =
     (let prefix = (if urls \<noteq> [] \<and> hd urls = CHR ''/'' then ''/event'' else ''/event/'')
      in sprintf_at (zero_buf URL_MAX_LEN) 0 (prefix @ urls))"

definition unsubscribe_url :: "string \<Rightarrow> cbuf res" where
  "unsubscribe_url urls = sprintf_at (zero_buf URL_MAX_LEN) 0 (''/event/'' @ urls)"

section \<open>Requests\<close>

fun match_bytes :: "byte list \<Rightarrow> byte list \<Rightarrow> bool res" where
  "match_bytes [] buf = Inr True"
| "match_bytes (x # xs) [] = Inl Out_Of_Bounds"
| "match_bytes (x # xs) (b # buf) = (if b = x then match_bytes xs buf else Inr False)"

definition get_package_type :: "byte list option \<Rightarrow> int \<Rightarrow> PackageType res" where
  "get_package_type buf n =
     (case buf of
        None \<Rightarrow> Inr Package_Type_Unknown
      | Some b \<Rightarrow>
          if 4 < n
          then bind_res (match_bytes [0, 0x61, 0x73, 0x6D] b) (\<lambda>wasm.
               if wasm then Inr Wasm_Module_Bytecode
               else bind_res (match_bytes [0, 0x61, 0x6F, 0x74] b) (\<lambda>aot.
                 Inr (if aot then Wasm_Module_AoT else Package_Type_Unknown)))
          else Inr Package_Type_Unknown)"

text \<open>
  What every request ends with: \<open>init_request\<close>, the identifier, \<open>rt_conn_request_sent\<close> and
  \<open>send_request\<close>.
\<close>

definition issue ::
    "'d rt_env \<Rightarrow> op_type \<Rightarrow> bool \<Rightarrow> string \<Rightarrow> int \<Rightarrow> int \<Rightarrow> byte list option \<Rightarrow> int \<Rightarrow> rt_state \<Rightarrow> int \<times> rt_state" where
  "issue e op is_bytecode u act f pl len s =
     (let request = init_request (wamr e) u act f pl len;
          (m, s) = gen_random_id e s;
          request = request\<lparr>mid := m\<rparr>;
          s = rt_conn_request_sent op m s;
          (ret, l) = send_request (wamr e) (kern e) request is_bytecode (lnk s)
      in (ret, s\<lparr>lnk := l\<rparr>))"

definition rt_req_install ::
    "'d rt_env \<Rightarrow> string option \<Rightarrow> byte list option \<Rightarrow> int \<Rightarrow> string \<Rightarrow> string option \<Rightarrow> int \<Rightarrow> int \<Rightarrow> int
      \<Rightarrow> rt_state \<Rightarrow> (int \<times> rt_state) res" where
  "rt_req_install e filename app_file_buf app_size name module_type heap_size timers watchdog_interval s =
     bind_res (install_url name module_type heap_size timers watchdog_interval) (\<lambda>arr.
       let (buf, n) = (if app_file_buf = None \<and> filename \<noteq> None
                       then (case read_file_to_buffer (fs e) filename of
                               None \<Rightarrow> (None, app_size) | Some (b, n) \<Rightarrow> (Some b, n))
                       else (app_file_buf, app_size))
       in if buf = None \<or> n \<le> 0 then Inr (- 1, s)
          else bind_res (read_cstr arr 0) (\<lambda>u.
               bind_res (if module_type = None \<or> module_type = Some ''wasm''
                         then bind_res (get_package_type buf n) (\<lambda>t. Inr (t = Wasm_Module_Bytecode))
                         else Inr False) (\<lambda>is_bytecode.
                 Inr (issue e INSTALL is_bytecode u (COAP_PUT (wamr e)) (FMT_APP_RAW_BINARY (wamr e)) buf n s))))"

definition rt_req_uninstall :: "'d rt_env \<Rightarrow> string \<Rightarrow> string option \<Rightarrow> rt_state \<Rightarrow> (int \<times> rt_state) res" where
  "rt_req_uninstall e name module_type s =
     bind_res (uninstall_url name module_type) (\<lambda>arr.
     bind_res (read_cstr arr 0) (\<lambda>u.
       Inr (issue e UNINSTALL False u (COAP_DELETE (wamr e)) (FMT_ATTR_CONTAINER (wamr e)) None 0 s)))"

definition rt_req_query :: "'d rt_env \<Rightarrow> string option \<Rightarrow> rt_state \<Rightarrow> (int \<times> rt_state) res" where
  "rt_req_query e name s =
     bind_res (query_url name) (\<lambda>arr.
     bind_res (read_cstr arr 0) (\<lambda>u.
       Inr (issue e QUERY False u (COAP_GET (wamr e)) (FMT_ATTR_CONTAINER (wamr e)) None 0 s)))"

definition rt_req_request ::
    "'d rt_env \<Rightarrow> string \<Rightarrow> int \<Rightarrow> 'd cJSON option \<Rightarrow> rt_state \<Rightarrow> int \<times> rt_state" where
  "rt_req_request e u act json s =
     (case json of
        None \<Rightarrow> issue e REQUEST False u act (FMT_ATTR_CONTAINER (wamr e)) None 0 s
      | Some j \<Rightarrow>
          (case json2attr (attrs e) (mem_ok e) j of
             None \<Rightarrow> (- 1, s)
           | Some pl \<Rightarrow> issue e REQUEST False u act (FMT_ATTR_CONTAINER (wamr e)) (Some pl)
                          (attr_serialize_length (attrs e) pl) s))"

definition rt_req_subscribe :: "'d rt_env \<Rightarrow> string \<Rightarrow> rt_state \<Rightarrow> (int \<times> rt_state) res" where
  "rt_req_subscribe e urls s =
     bind_res (subscribe_url urls) (\<lambda>arr.
     bind_res (read_cstr arr 0) (\<lambda>u.
       Inr (issue e REGISTER False u (COAP_PUT (wamr e)) (FMT_ATTR_CONTAINER (wamr e)) None 0 s)))"

definition rt_req_unsubscribe :: "'d rt_env \<Rightarrow> string \<Rightarrow> rt_state \<Rightarrow> (int \<times> rt_state) res" where
  "rt_req_unsubscribe e urls s =
     bind_res (unsubscribe_url urls) (\<lambda>arr.
     bind_res (read_cstr arr 0) (\<lambda>u.
       Inr (issue e UNREGISTER False u (COAP_DELETE (wamr e)) (FMT_ATTR_CONTAINER (wamr e)) None 0 s)))"

section \<open>What the URL array holds\<close>

definition url_text :: "cbuf \<Rightarrow> string \<Rightarrow> bool" where
  "url_text b u \<longleftrightarrow> text_of b u \<and> length b = URL_MAX_LEN"

interpretation url_buf: bounded_text 255 url_text url_append
proof
  fix b s
  assume "url_text b s"
  then show "length s \<le> 255" using text_of_length [of b s] by (simp add: url_text_def URL_MAX_LEN_def)
next
  fix b s t
  assume b: "url_text b s" and t: "cstring t"
  then have len: "length s < length b" "length b = 256" and held: "text_of b s"
    using text_of_length [of b s] by (simp_all add: url_text_def URL_MAX_LEN_def)
  have "read_cstr b 0 = Inr s" using held by (simp add: text_of_def)
  moreover obtain b' where "snprintf_at b (length s) (length b - length s) t = Inr b'"
      "length b' = length b" "text_of b' (take (length b - 1) (s @ t))"
    using snprintf_at_append [OF held t len(1)] by auto
  ultimately show "\<exists>b'. url_append b t = Inr b' \<and> url_text b' (take 255 (s @ t))"
    using len by (simp add: url_append_def url_text_def URL_MAX_LEN_def)
qed

lemma url_start_text: "cstring t \<Longrightarrow> \<exists>b. url_start t = Inr b \<and> url_text b (take 254 t)"
  using snprintf_at_start [of t 255 "zero_buf 256"] by (auto simp: url_start_def url_text_def URL_MAX_LEN_def)

lemma url_text_take: "url_text b u \<Longrightarrow> take 255 u = u"
  using url_buf.holds_fits [of b u] by simp

lemma url_append_if_text:
  "url_text b u \<Longrightarrow> cstring t \<Longrightarrow> \<exists>b'. url_append_if c b t = Inr b' \<and> url_text b' (take 255 (u @ (if c then t else [])))"
  using url_buf.app_holds [of b u t] url_text_take [of b u] by (auto simp: url_append_if_def)

lemma url_text_read: "url_text b u \<Longrightarrow> read_cstr b 0 = Inr u"
  by (simp add: url_text_def text_of_def)

definition type_part :: "string option \<Rightarrow> string" where
  "type_part module_type = (case module_type of None \<Rightarrow> [] | Some t \<Rightarrow> ''&type='' @ t)"

definition num_part :: "string \<Rightarrow> int \<Rightarrow> string" where
  "num_part key v = (if 0 < v then key @ show_int v else [])"

lemma url_type_text:
  assumes "url_text b u" and "\<forall>t. module_type = Some t \<longrightarrow> cstring t"
  shows "\<exists>b'. (case module_type of None \<Rightarrow> Inr b | Some t \<Rightarrow> url_append b (''&type='' @ t)) = Inr b'
    \<and> url_text b' (take 255 (u @ type_part module_type))"
proof (cases module_type)
  case None
  then show ?thesis using assms(1) by (simp add: type_part_def url_text_take)
next
  case (Some t)
  then have "cstring (''&type='' @ t)" using assms(2) by simp
  from url_buf.app_holds [OF assms(1) this] Some show ?thesis by (simp add: type_part_def)
qed

lemma url_num_text:
  "url_text b u \<Longrightarrow> cstring key \<Longrightarrow>
   \<exists>b'. url_append_if (0 < v) b (key @ show_int v) = Inr b' \<and> url_text b' (take 255 (u @ num_part key v))"
  using url_append_if_text [of b u "key @ show_int v" "0 < v"] by (simp add: num_part_def)

lemma install_url_text:
  assumes "cstring name" and "\<forall>t. module_type = Some t \<longrightarrow> cstring t"
  shows "\<exists>b. install_url name module_type heap_size timers wd = Inr b \<and>
    url_text b (take 255 (take 254 (''/applet?name='' @ name) @ type_part module_type
      @ num_part ''&heap='' heap_size @ num_part ''&timers='' timers @ num_part ''&wd='' wd))"
proof -
  define u where "u = take 254 (''/applet?name='' @ name)"
  have "cstring (''/applet?name='' @ name)" using assms(1) by simp
  then obtain b0 where b0: "url_start (''/applet?name='' @ name) = Inr b0" "url_text b0 u"
    using url_start_text unfolding u_def by blast
  have key: "cstring ''&heap=''" "cstring ''&timers=''" "cstring ''&wd=''" by simp_all
  obtain b1 where b1: "(case module_type of None \<Rightarrow> Inr b0 | Some t \<Rightarrow> url_append b0 (''&type='' @ t)) = Inr b1"
      "url_text b1 (take 255 (u @ type_part module_type))"
    using url_type_text [OF b0(2) assms(2)] by blast
  obtain b2 where b2: "url_append_if (0 < heap_size) b1 (''&heap='' @ show_int heap_size) = Inr b2"
      "url_text b2 (take 255 (take 255 (u @ type_part module_type) @ num_part ''&heap='' heap_size))"
    using url_num_text [OF b1(2) key(1), of heap_size] by blast
  obtain b3 where b3: "url_append_if (0 < timers) b2 (''&timers='' @ show_int timers) = Inr b3"
      "url_text b3 (take 255 (take 255 (take 255 (u @ type_part module_type) @ num_part ''&heap='' heap_size)
        @ num_part ''&timers='' timers))"
    using url_num_text [OF b2(2) key(2), of timers] by blast
  obtain b4 where b4: "url_append_if (0 < wd) b3 (''&wd='' @ show_int wd) = Inr b4"
      "url_text b4 (take 255 (take 255 (take 255 (take 255 (u @ type_part module_type) @ num_part ''&heap='' heap_size)
        @ num_part ''&timers='' timers) @ num_part ''&wd='' wd))"
    using url_num_text [OF b3(2) key(3), of wd] by blast
  have "install_url name module_type heap_size timers wd = Inr b4"
    unfolding install_url_def b0(1) by (simp only: bind_res_simps b1(1) b2(1) b3(1) b4(1))
  with b4(2) show ?thesis by (simp add: take_app_take u_def del: append.simps take_append take_take)
qed

lemma uninstall_url_text:
  assumes "cstring name" and "\<forall>t. module_type = Some t \<longrightarrow> cstring t"
  shows "\<exists>b. uninstall_url name module_type = Inr b \<and>
    url_text b (take 255 (take 254 (''/applet?name='' @ name) @ type_part module_type))"
proof -
  define u where "u = take 254 (''/applet?name='' @ name)"
  have "cstring (''/applet?name='' @ name)" using assms(1) by simp
  then obtain b0 where b0: "url_start (''/applet?name='' @ name) = Inr b0" "url_text b0 u"
    using url_start_text unfolding u_def by blast
  with url_type_text [OF b0(2) assms(2)] show ?thesis
    unfolding uninstall_url_def b0(1) u_def by simp
qed

lemma sprintf_url:
  assumes "cstring t"
  shows "(length t < 256 \<longrightarrow> (\<exists>b. sprintf_at (zero_buf URL_MAX_LEN) 0 t = Inr b \<and> url_text b t))
    \<and> (256 \<le> length t \<longrightarrow> sprintf_at (zero_buf URL_MAX_LEN) 0 t = Inl Out_Of_Bounds)"
  using sprintf_at_iff [OF assms, of "zero_buf URL_MAX_LEN"] by (auto simp: url_text_def URL_MAX_LEN_def)

section \<open>What a request does\<close>

lemma issue_effect:
  assumes "issue e op is_bytecode u act f pl len s = (r, s')"
  defines "req \<equiv> (init_request (wamr e) u act f pl len)\<lparr>mid := rnd e (rand_calls s)\<rparr>"
  shows "g_mid s' = rnd e (rand_calls s)" and "g_req_op_type s' = op"
    and "(r, lnk s') = send_request (wamr e) (kern e) req is_bytecode (lnk s)"
  using assms(1) by (auto simp: issue_def gen_random_id_def Let_def rt_conn_request_sent_def req_def split: prod.splits)

lemma issue_pending: "issue e op is_bytecode u act f pl len s = (r, s') \<Longrightarrow> g_mid s' = rnd e (rand_calls s) \<and> g_req_op_type s' = op"
  by (simp add: issue_effect)

lemma issue_calls: "issue e op is_bytecode u act f pl len s = (r, s') \<Longrightarrow> rand_calls s' = Suc (rand_calls s)"
  by (auto simp: issue_def gen_random_id_def Let_def rt_conn_request_sent_def split: prod.splits)

section \<open>Properties\<close>

text \<open>
  The URL of an install request: for every name and every option the array ends up holding
  the text of the options in order, cut first at 254 bytes (name) and then at 255, always
  terminated and without a write outside its 256 bytes.
\<close>

theorem install_url_content:
  assumes "cstring name" and "\<forall>t. module_type = Some t \<longrightarrow> cstring t"
  shows "\<exists>arr. install_url name module_type heap_size timers wd = Inr arr \<and>
    text_of arr (take 255 (take 254 (''/applet?name='' @ name) @ type_part module_type
      @ num_part ''&heap='' heap_size @ num_part ''&timers='' timers @ num_part ''&wd='' wd))"
  using install_url_text [OF assms, of heap_size timers wd] unfolding url_text_def by blast

theorem install_url_content_witness:
  "\<exists>arr. install_url ''pub'' (Some ''wasm'') 0 3 0 = Inr arr \<and> text_of arr ''/applet?name=pub&type=wasm&timers=3''"
proof -
  have "show_int 3 = ''3''" by code_simp
  with install_url_content [of "''pub''" "Some ''wasm''" 0 3 0] show ?thesis
    by (simp add: type_part_def num_part_def)
qed

definition is_wasm_file :: "byte list \<Rightarrow> bool" where
  "is_wasm_file c \<longleftrightarrow> 4 < length c \<and> take 4 c = [0, 0x61, 0x73, 0x6D]"

lemma match_bytes_prefix:
  "length p \<le> length c \<Longrightarrow> match_bytes p c = Inr (take (length p) c = p)"
proof (induction p c rule: match_bytes.induct)
  case (3 x xs b buf)
  then show ?case by auto
qed auto

lemma package_type_wasm:
  "\<exists>t. get_package_type (Some c) (int (length c)) = Inr t \<and> (t = Wasm_Module_Bytecode \<longleftrightarrow> is_wasm_file c)"
proof (cases "4 < length c")
  case True
  then have "match_bytes [0, 0x61, 0x73, 0x6D] c = Inr (take 4 c = [0, 0x61, 0x73, 0x6D])"
    and "match_bytes [0, 0x61, 0x6F, 0x74] c = Inr (take 4 c = [0, 0x61, 0x6F, 0x74])"
    using match_bytes_prefix [of "[0, 0x61, 0x73, 0x6D]" c] match_bytes_prefix [of "[0, 0x61, 0x6F, 0x74]" c]
    by (simp_all add: eval_nat_numeral)
  with True show ?thesis by (simp add: get_package_type_def is_wasm_file_def)
qed (simp add: get_package_type_def is_wasm_file_def)

text \<open>An install request for a file that can be read ends in \<open>issue\<close>, with the type the file's start tells.\<close>

lemma rt_req_install_issue:
  assumes "cstring name" and "read_file_to_buffer (fs e) (Some f) = Some (c, int (length c))" and "c \<noteq> []"
  shows "rt_req_install e (Some f) None 0 name None 0 0 0 s = Inr (issue e INSTALL (is_wasm_file c)
    (take 254 (''/applet?name='' @ name)) (COAP_PUT (wamr e)) (FMT_APP_RAW_BINARY (wamr e)) (Some c) (int (length c)) s)"
proof -
  define u where "u = take 254 (''/applet?name='' @ name)"
  obtain b where b: "install_url name None 0 0 0 = Inr b" "read_cstr b 0 = Inr u"
    using install_url_text [OF assms(1), of None 0 0 0] unfolding u_def [symmetric]
    by (auto simp: type_part_def num_part_def u_def url_text_read take_app_take simp del: take_append append.simps)
  obtain t where t: "get_package_type (Some c) (int (length c)) = Inr t" "(t = Wasm_Module_Bytecode) = is_wasm_file c"
    using package_type_wasm by blast
  show ?thesis using assms(2,3) b t unfolding u_def [symmetric] by (simp add: rt_req_install_def)
qed

text \<open>
  C28. The install request of the HTTP interface, for a file that can be read: it becomes the
  pending request under the identifier drawn, a prefix of the frame of the packed request
  reaches the wire, and 0 is returned exactly when it is the whole frame; the frame's type says
  byte code exactly for a file that starts like one and has more than four bytes.
\<close>

theorem rt_req_install_outcome:
  assumes "cstring name" and "read_file_to_buffer (fs e) (Some f) = Some (c, int (length c))" and "c \<noteq> []"
    and "pack_request (wamr e) ((init_request (wamr e) (take 254 (''/applet?name='' @ name)) (COAP_PUT (wamr e))
        (FMT_APP_RAW_BINARY (wamr e)) (Some c) (int (length c)))\<lparr>mid := rnd e (rand_calls s)\<rparr>) = Some p"
    and "int_sized p"
  shows "\<exists>r s' q. rt_req_install e (Some f) None 0 name None 0 0 0 s = Inr (r, s')
    \<and> get_pending_request_info s' = (rnd e (rand_calls s), INSTALL)
    \<and> written (lnk s') = written (lnk s) @ q
    \<and> prefix q (link_frame (request_msg_type (wamr e) (is_wasm_file c)) p)
    \<and> r = (if q = link_frame (request_msg_type (wamr e) (is_wasm_file c)) p then 0 else - 1)"
proof -
  define u where "u = take 254 (''/applet?name='' @ name)"
  obtain r s' where i: "issue e INSTALL (is_wasm_file c) u (COAP_PUT (wamr e)) (FMT_APP_RAW_BINARY (wamr e)) (Some c) (int (length c)) s = (r, s')"
    by fastforce
  have "rt_req_install e (Some f) None 0 name None 0 0 0 s = Inr (r, s')"
    using rt_req_install_issue [OF assms(1-3), of s] i unfolding u_def by simp
  moreover note eff = issue_effect [OF i]
  moreover obtain q where "written (lnk s') = written (lnk s) @ q"
      "prefix q (link_frame (request_msg_type (wamr e) (is_wasm_file c)) p)"
      "r = (if q = link_frame (request_msg_type (wamr e) (is_wasm_file c)) p then 0 else - 1)"
    using send_request_out [OF assms(4) [folded u_def] assms(5), of "kern e" "is_wasm_file c" "lnk s"] eff(3)
    by (auto simp: prod_eq_iff)
  ultimately show ?thesis by (auto simp: get_pending_request_info_def)
qed

definition demo_env :: "int rt_env" where
  "demo_env = \<lparr>wamr = demo_wamr, attrs = demo_attr, kern = (\<lambda>_. Wrote 100), rnd = (\<lambda>n. 41 + word_of_nat n),
     fs = (\<lambda>f. \<lparr>fa_open = f = ''wasm-apps/pub.wasm'', fa_stat = Some 5, fa_malloc = True,
                fa_read = Some [0, 0x61, 0x73, 0x6D, 1]\<rparr>), mem_ok = (\<lambda>_. True)\<rparr>"

definition demo_rt :: rt_state where
  "demo_rt = \<lparr>lnk = demo_out, g_mid = 0, g_req_op_type = NONE, rand_init = False, rand_calls = 0, utils_g_mid = 0\<rparr>"

theorem rt_req_install_outcome_witness:
  "\<exists>r s' q. rt_req_install demo_env (Some ''wasm-apps/pub.wasm'') None 0 ''pub'' None 0 0 0 demo_rt = Inr (r, s')
    \<and> get_pending_request_info s' = (41, INSTALL) \<and> written (lnk s') = q
    \<and> (r = 0 \<longleftrightarrow> q = link_frame (request_msg_type demo_wamr True) (3 # bytes ''/applet?name=pub''))"
proof -
  have hyps: "read_file_to_buffer (fs demo_env) (Some ''wasm-apps/pub.wasm'')
        = Some ([0, 0x61, 0x73, 0x6D, 1], int (length [0, 0x61, 0x73, 0x6D, 1 :: byte]))"
      "pack_request (wamr demo_env) ((init_request (wamr demo_env) (take 254 (''/applet?name='' @ ''pub'')) (COAP_PUT (wamr demo_env))
        (FMT_APP_RAW_BINARY (wamr demo_env)) (Some [0, 0x61, 0x73, 0x6D, 1]) (int (length [0, 0x61, 0x73, 0x6D, 1 :: byte])))
          \<lparr>mid := rnd demo_env (rand_calls demo_rt)\<rparr>) = Some (3 # bytes ''/applet?name=pub'')"
      "int_sized (3 # bytes ''/applet?name=pub'')" "is_wasm_file [0, 0x61, 0x73, 0x6D, 1]"
    by (simp_all add: read_file_to_buffer_def demo_env_def demo_wamr_def bytes_def int_sized_def is_wasm_file_def)
  have demo: "wamr demo_env = demo_wamr" "rnd demo_env (rand_calls demo_rt) = 41" "written (lnk demo_rt) = []"
    by (simp_all add: demo_env_def demo_rt_def demo_out_def)
  have "cstring ''pub''" and "[0, 0x61, 0x73, 0x6D, 1 :: byte] \<noteq> []" by simp_all
  note out = rt_req_install_outcome [OF this(1) hyps(1) this(2) hyps(2,3), unfolded demo hyps(4) [THEN eqTrueI]]
  show ?thesis
  proof (rule exE [OF out], elim exE conjE)
    fix r :: int and s' q
    assume "r = (if q = link_frame (request_msg_type demo_wamr True) (3 # bytes ''/applet?name=pub'') then 0 else - 1)"
    then have "r = 0 \<longleftrightarrow> q = link_frame (request_msg_type demo_wamr True) (3 # bytes ''/applet?name=pub'')"
      by (simp split: if_split_asm)
    moreover assume "rt_req_install demo_env (Some ''wasm-apps/pub.wasm'') None 0 ''pub'' None 0 0 0 demo_rt = Inr (r, s')"
      "get_pending_request_info s' = (41, INSTALL)" "written (lnk s') = [] @ q"
    ultimately show ?thesis unfolding append_Nil by (intro exI conjI)
  qed
qed

text \<open>
  Whatever the connection does, a query or an uninstall request is noted as pending, also
  when sending it failed (-1): nothing but a response ends the wait for it.
\<close>

theorem request_pending_despite_failure:
  assumes "rt_req_query e nm s = Inr (r, s') \<or> rt_req_uninstall e nm' t s = Inr (r, s')"
  shows "\<not> rt_conn_wait_over s' \<and> g_mid s' = rnd e (rand_calls s)"
  using assms
  by (auto simp: rt_req_query_def rt_req_uninstall_def bind_res_Inr_iff rt_conn_wait_over_def
      dest!: issue_pending)

definition demo_dead_env :: "int rt_env" where
  "demo_dead_env = demo_env\<lparr>kern := (\<lambda>_. Write_Error EOTHER)\<rparr>"

lemma query_url_text: "\<exists>arr. query_url None = Inr arr \<and> read_cstr arr 0 = Inr ''/applet''"
  using url_start_text [of "''/applet''"] by (auto simp: query_url_def url_text_read)

theorem request_pending_despite_failure_witness:
  "\<exists>s'. rt_req_query demo_dead_env None demo_rt = Inr (- 1, s') \<and> \<not> rt_conn_wait_over s'"
proof -
  obtain arr where arr: "query_url None = Inr arr" "read_cstr arr 0 = Inr ''/applet''" using query_url_text by blast
  have "\<exists>s'. rt_req_query demo_dead_env None demo_rt = Inr (- 1, s')"
    by (simp add: rt_req_query_def arr issue_def Let_def gen_random_id_def Let_def rt_conn_request_sent_def send_request_def
        host_tool_send_data_def send_loop.simps leading_def demo_dead_env_def demo_env_def demo_wamr_def demo_rt_def demo_out_def)
  then show ?thesis using request_pending_despite_failure by blast
qed

text \<open>
  \<open>rt_req_subscribe\<close> and \<open>rt_req_unsubscribe\<close> write outside their arrays for long names
  (\<open>sprintf\<close>), and for a name that starts with a slash they do not name the same resource: the
  unsubscription goes to \<open>/event//...\<close>, the subscription went to \<open>/event/...\<close>.
\<close>

theorem subscription_urls:
  assumes "cstring urls"
  shows "(249 \<le> length urls \<longrightarrow> unsubscribe_url urls = Inl Out_Of_Bounds)
    \<and> (250 \<le> length urls \<longrightarrow> subscribe_url urls = Inl Out_Of_Bounds)
    \<and> (length urls < 249 \<longrightarrow> (\<exists>a b u v. subscribe_url urls = Inr a \<and> unsubscribe_url urls = Inr b
        \<and> text_of a u \<and> text_of b v \<and> v = ''/event/'' @ urls \<and> (u = v \<longleftrightarrow> \<not> (\<exists>rest. urls = CHR ''/'' # rest))))"
proof -
  let ?p = "if urls \<noteq> [] \<and> hd urls = CHR ''/'' then ''/event'' else ''/event/''"
  have "cstring (?p @ urls)" and "cstring (''/event/'' @ urls)" using assms by auto
  note sub = sprintf_url [OF this(1)] and uns = sprintf_url [OF this(2)]
  have "250 \<le> length urls \<longrightarrow> subscribe_url urls = Inl Out_Of_Bounds"
    using sub by (simp add: subscribe_url_def)
  moreover have "249 \<le> length urls \<longrightarrow> unsubscribe_url urls = Inl Out_Of_Bounds"
    using uns by (simp add: unsubscribe_url_def)
  moreover have "\<exists>a b u v. subscribe_url urls = Inr a \<and> unsubscribe_url urls = Inr b
        \<and> text_of a u \<and> text_of b v \<and> v = ''/event/'' @ urls \<and> (u = v \<longleftrightarrow> \<not> (\<exists>rest. urls = CHR ''/'' # rest))"
    if len: "length urls < 249"
  proof -
    obtain a where a: "subscribe_url urls = Inr a" "text_of a (?p @ urls)"
      using sub len by (auto simp: subscribe_url_def url_text_def Let_def simp del: append.simps split: if_splits)
    obtain b where b: "unsubscribe_url urls = Inr b" "text_of b (''/event/'' @ urls)"
      using uns len by (auto simp: unsubscribe_url_def url_text_def simp del: append.simps)
    have "?p @ urls = ''/event/'' @ urls \<longleftrightarrow> \<not> (\<exists>rest. urls = CHR ''/'' # rest)"
      by (cases urls) (auto dest: arg_cong [where f = length])
    with a b show ?thesis by blast
  qed
  ultimately show ?thesis by blast
qed

theorem subscription_urls_witness:
  "\<exists>a b u v. subscribe_url ''/sensor'' = Inr a \<and> unsubscribe_url ''/sensor'' = Inr b
    \<and> text_of a u \<and> text_of b v \<and> v = ''/event//sensor'' \<and> u \<noteq> v"
  using subscription_urls [of "''/sensor''"] by auto

end
