(* ===== verification/Runtime_Reply.thy ===== *)
theory Runtime_Reply
  imports Runtime_Request
begin

text \<open>
  What the bridge does with messages of the runtime before they reach HTTP or MQTT
  (bridge-tool/src/runtime_conn.c, \<open>output_event\<close> of runtime_request.c): unpacking, printing, and
  \<open>install_response_get_module_id_and_name\<close>. cJSON's parser, printer and member lookup are the
  fields of \<open>json_api\<close>; \<open>unpack_response\<close> and \<open>unpack_request\<close> belong to WAMR.
\<close>

section \<open>Unpacking\<close>

record 'd json_api =
  cJSON_Parse :: "string option \<Rightarrow> 'd cJSON option"
  cJSON_Print :: "'d cJSON \<Rightarrow> string option"
  cJSON_GetObjectItemCaseSensitive :: "'d cJSON \<Rightarrow> string \<Rightarrow> 'd cJSON option"

text \<open>
  \<open>response\<close> and \<open>request\<close> are zeroed by the callers; when unpacking fails the callers go on
  with what is there (they do not look at the returned pointer), which is the second component.
\<close>

definition zero_response :: response_t where
  "zero_response = \<lparr>r_mid = 0, r_status = 0, r_fmt = 0, r_payload = None, r_payload_len = 0\<rparr>"

definition zero_request :: request_t where
  "zero_request = \<lparr>mid = 0, url = [], action = 0, fmt = 0, rq_payload = None, payload_len = 0, sender = 0\<rparr>"

definition parse_response_from_imrtlink :: "wamr_api \<Rightarrow> imrt_link_message_t \<Rightarrow> bool \<times> response_t" where
  "parse_response_from_imrtlink w m =
     (case unpack_response w (payload m) of None \<Rightarrow> (False, zero_response) | Some r \<Rightarrow> (True, r))"

definition parse_event_from_imrtlink :: "wamr_api \<Rightarrow> imrt_link_message_t \<Rightarrow> bool \<times> request_t" where
  "parse_event_from_imrtlink w m =
     (case unpack_request w (payload m) of None \<Rightarrow> (False, zero_request) | Some r \<Rightarrow> (True, r))"

definition json_string :: "'d cJSON option \<Rightarrow> string option" where
  "json_string j = (case j of Some (CString s) \<Rightarrow> Some s | _ \<Rightarrow> None)"

section \<open>The answer to an install request\<close>

text \<open>
  \<open>mod_name\<close> is the array behind the pointer (None: NULL); the result gives the return value,
  \<open>*mod_id\<close> when it was written, and the array.
\<close>

definition install_response_get_module_id_and_name ::
    "'d attr_api \<Rightarrow> 'd json_api \<Rightarrow> int \<Rightarrow> response_t \<Rightarrow> cbuf option \<Rightarrow> nat
      \<Rightarrow> (int \<times> int option \<times> cbuf option) res" where
  "install_response_get_module_id_and_name a js container_fmt obj mod_name module_name_len =
     (case r_payload obj of
        None \<Rightarrow> Inr (- 1, None, mod_name)
      | Some pl \<Rightarrow>
          if r_fmt obj \<noteq> container_fmt \<or> r_payload_len obj \<le> 0 then Inr (- 1, None, mod_name)
          else (case cJSON_Parse js (attr_get_as_string a pl ''data'') of
                  None \<Rightarrow> Inr (- 1, None, mod_name)
                | Some req_json \<Rightarrow>
                    (case json_string (cJSON_GetObjectItemCaseSensitive js req_json ''id'') of
                       None \<Rightarrow> Inr (- 1, None, mod_name)
                     | Some i \<Rightarrow>
                         let mod_id = atol i
                         in (case mod_name of
                               None \<Rightarrow> Inr (0, Some mod_id, mod_name)
                             | Some b \<Rightarrow>
                                 if module_name_len = 0 then Inr (0, Some mod_id, mod_name)
                                 else (case json_string (cJSON_GetObjectItemCaseSensitive js req_json ''name'') of
                                         None \<Rightarrow> Inr (- 1, Some mod_id, mod_name)
                                       | Some n \<Rightarrow>
                                           bind_res (strncpy_at b 0 n module_name_len) (\<lambda>b.
                                           bind_res (buf_write b module_name_len [NUL]) (\<lambda>b.
                                             Inr (0, Some mod_id, Some b))))))))"

section \<open>Printing\<close>

text \<open>The text that goes to the standard output.\<close>

definition output_payload :: "'d attr_api \<Rightarrow> 'd json_api \<Rightarrow> (nat \<Rightarrow> bool) \<Rightarrow> int \<Rightarrow> string \<Rightarrow> byte list option \<Rightarrow> int \<Rightarrow> int
    \<Rightarrow> string res" where
  "output_payload a js alloc container_fmt header pl format len =
     (if format \<noteq> container_fmt \<or> pl = None \<or> len \<le> 0 then Inr header
      else bind_res (attr2json a alloc pl) (\<lambda>json.
        Inr (case json of
               None \<Rightarrow> header
             | Some j \<Rightarrow> (case cJSON_Print js j of None \<Rightarrow> header | Some t \<Rightarrow> header @ t))))"

text \<open>The newlines of the headers are \<open>CHR 0x0A\<close>.\<close>

definition output_response :: "'d attr_api \<Rightarrow> 'd json_api \<Rightarrow> (nat \<Rightarrow> bool) \<Rightarrow> int \<Rightarrow> response_t \<Rightarrow> string res" where
  "output_response a js alloc container_fmt obj =
     bind_res (snprintf_at (zero_buf 32) 0 32 (CHR 0x0A # ''response status '' @ show_int (r_status obj) @ [CHR 0x0A]))
       (\<lambda>b. bind_res (read_cstr b 0) (\<lambda>header.
         output_payload a js alloc container_fmt header (r_payload obj) (r_fmt obj) (r_payload_len obj)))"

definition output_event :: "'d attr_api \<Rightarrow> 'd json_api \<Rightarrow> (nat \<Rightarrow> bool) \<Rightarrow> int \<Rightarrow> request_t \<Rightarrow> string res" where
  "output_event a js alloc container_fmt obj =
     bind_res (snprintf_at (zero_buf 256) 0 256
        (CHR 0x0A # ''received an event '' @ url obj @ '' ('' @ show_int (action obj) @ '')'' @ [CHR 0x0A]))
       (\<lambda>b. bind_res (read_cstr b 0) (\<lambda>header.
         output_payload a js alloc container_fmt header (rq_payload obj) (fmt obj) (payload_len obj)))"

section \<open>Properties\<close>

text \<open>
  The members of the answer: \<open>answer_has\<close> says that the payload is a container whose \<open>data\<close>
  parses and has the strings \<open>id\<close> and \<open>name\<close>.
\<close>

definition answer_has :: "'d attr_api \<Rightarrow> 'd json_api \<Rightarrow> int \<Rightarrow> response_t \<Rightarrow> string \<Rightarrow> string option \<Rightarrow> bool" where
  "answer_has a js container_fmt obj i n \<longleftrightarrow>
     (\<exists>pl j. r_payload obj = Some pl \<and> r_fmt obj = container_fmt \<and> 0 < r_payload_len obj
        \<and> cJSON_Parse js (attr_get_as_string a pl ''data'') = Some j
        \<and> json_string (cJSON_GetObjectItemCaseSensitive js j ''id'') = Some i
        \<and> json_string (cJSON_GetObjectItemCaseSensitive js j ''name'') = n)"

lemma install_response_at:
  assumes "answer_has a js f obj i (Some n)" and "0 < len"
  shows "install_response_get_module_id_and_name a js f obj (Some b) len
    = bind_res (strncpy_at b 0 n len) (\<lambda>b. bind_res (buf_write b len [NUL]) (\<lambda>b. Inr (0, Some (atol i), Some b)))"
  using assms by (auto simp: answer_has_def install_response_get_module_id_and_name_def Let_def)

lemma strncpy_terminate:
  assumes "cstring n" and "length n < len" and "len < length b"
  shows "\<exists>b'. bind_res (strncpy_at b 0 n len) (\<lambda>b. buf_write b len [NUL]) = Inr b' \<and> text_of b' n"
proof -
  from strncpy_at_short [OF assms(1,2) less_imp_le [OF assms(3)]] obtain b1 where
    b1: "strncpy_at b 0 n len = Inr b1" "length b1 = length b" "text_of b1 n" by blast
  then obtain r where r: "b1 = n @ NUL # r" by (auto simp: text_of_iff)
  have "take len b1 @ [NUL] @ drop (Suc len) b1 = n @ NUL # (take (len - Suc (length n)) r @ [NUL] @ drop (Suc len) b1)"
    using assms(2) by (simp add: r take_Cons')
  then have "text_of (take len b1 @ [NUL] @ drop (Suc len) b1) n"
    using assms(1) by (auto simp: text_of_iff)
  then show ?thesis using b1 assms(3) by (simp add: buf_write_def)
qed

text \<open>
  \<open>install_response_get_module_id_and_name\<close> needs an array of one byte more than the length
  it is given: with the length of the array itself, as \<open>main\<close> calls it, every answer that has an
  identifier and a name makes it write outside the array; with a longer array it delivers both.
\<close>

theorem install_response_array:
  assumes "answer_has a js f obj i (Some n)" and "cstring n"
  shows "(0 < length b \<longrightarrow> install_response_get_module_id_and_name a js f obj (Some b) (length b) = Inl Out_Of_Bounds)
    \<and> (length n < len \<and> len < length b \<longrightarrow>
      (\<exists>b'. install_response_get_module_id_and_name a js f obj (Some b) len = Inr (0, Some (atol i), Some b') \<and> text_of b' n))"
proof -
  have part1: "0 < length b \<longrightarrow> install_response_get_module_id_and_name a js f obj (Some b) (length b) = Inl Out_Of_Bounds"
    using strncpy_at_ok [of "length b" b n] install_response_at [OF assms(1), of "length b" b]
    by (auto simp: buf_write_def)
  have part2: "length n < len \<and> len < length b \<longrightarrow>
      (\<exists>b'. install_response_get_module_id_and_name a js f obj (Some b) len = Inr (0, Some (atol i), Some b') \<and> text_of b' n)"
    using strncpy_terminate [OF assms(2), of len b] install_response_at [OF assms(1), of len b]
    by (auto simp: bind_res_Inr_iff)
  from part1 part2 show ?thesis by (rule conjI)
qed

definition demo_json :: "int json_api" where
  "demo_json = \<lparr>cJSON_Parse = (\<lambda>s. map_option (\<lambda>t. CObject [(''id'', CString ''12''), (''name'', CString t)]) s),
     cJSON_Print = (\<lambda>_. Some ''{}''),
     cJSON_GetObjectItemCaseSensitive = (\<lambda>j k. case j of CObject kvs \<Rightarrow> map_of kvs k | _ \<Rightarrow> None)\<rparr>"

definition demo_attr_data :: "int attr_api" where
  "demo_attr_data = demo_attr\<lparr>attr_get_as_string := (\<lambda>m k. Some (chars m))\<rparr>"

definition demo_answer :: response_t where
  "demo_answer = \<lparr>r_mid = 41, r_status = 65, r_fmt = 99, r_payload = Some (bytes ''pub''), r_payload_len = 3\<rparr>"

lemma demo_answer_has: "answer_has demo_attr_data demo_json 99 demo_answer ''12'' (Some ''pub'')"
  by (simp add: answer_has_def demo_attr_data_def demo_json_def demo_answer_def json_string_def)

theorem install_response_array_witness:
  "install_response_get_module_id_and_name demo_attr_data demo_json 99 demo_answer (Some (zero_buf 50)) 50 = Inl Out_Of_Bounds
   \<and> (\<exists>b. install_response_get_module_id_and_name demo_attr_data demo_json 99 demo_answer (Some (zero_buf 51)) 50
        = Inr (0, Some 12, Some b) \<and> text_of b ''pub'')"
proof -
  have "atol ''12'' = 12" by code_simp
  with install_response_array [OF demo_answer_has, of "zero_buf 50", THEN conjunct1]
    install_response_array [OF demo_answer_has, of "zero_buf 51" 50, THEN conjunct2]
  show ?thesis by simp
qed

end
