(* ===== verification/Config.thy ===== *)
theory Config
  imports C_Strings
begin

text \<open>
  The configuration of the bridge (bridge-tool/src/config.h and config.c). inih's \<open>ini_parse\<close> is
  represented by what it does for the program: the entries it hands to \<open>conf_handler\<close>, in
  order, and its return value. Each string goes through \<open>strncpy\<close> into an array of 100 bytes and is
  printed, which reads it up to its terminator.
\<close>

section \<open>Reading the configuration\<close>

definition STR_MAXLEN :: nat where
  "STR_MAXLEN = 100"

definition CONNECTION_MODE_TCP :: "32 word" where
  "CONNECTION_MODE_TCP = 1"

definition CONNECTION_MODE_UART :: "32 word" where
  "CONNECTION_MODE_UART = 2"

record bt_config_t =
  mqtt_server_address :: cbuf
  mqtt_keepalive_ms :: "32 word"
  mqtt_user_name :: cbuf
  mqtt_password :: cbuf
  http_port :: cbuf
  http_doc_root :: cbuf
  http_enable_directory_listing :: cbuf
  rt_address :: cbuf
  rt_port :: "32 word"
  rt_reconnect_attempts :: "32 word"
  rt_connection_mode :: "32 word"
  rt_uart_dev :: cbuf
  rt_uart_baudrate :: "32 word"
  rt_wasm_files_folder :: cbuf
  rt_topic_prefix :: cbuf
  rt_uuid :: cbuf

text \<open>\<open>strncpy (field, value, sizeof (field)); printf ("... %s", field)\<close>\<close>

definition copy_field :: "cbuf \<Rightarrow> string \<Rightarrow> cbuf res" where
  "copy_field fld val =
     bind_res (strncpy_at fld 0 val (length fld)) (\<lambda>b. bind_res (read_cstr b 0) (\<lambda>_. Inr b))"

definition set_field :: "cbuf \<Rightarrow> string \<Rightarrow> (cbuf \<Rightarrow> bt_config_t) \<Rightarrow> (int \<times> bt_config_t) res" where
  "set_field fld val upd = bind_res (copy_field fld val) (\<lambda>b. Inr (1, upd b))"

definition conf_handler :: "bt_config_t \<Rightarrow> string \<Rightarrow> string \<Rightarrow> string \<Rightarrow> (int \<times> bt_config_t) res" where
  "conf_handler c sec name val =
     (if sec = ''mqtt'' \<and> name = ''server_address''
      then set_field (mqtt_server_address c) val (\<lambda>b. c\<lparr>mqtt_server_address := b\<rparr>)
      else if sec = ''mqtt'' \<and> name = ''keepalive_ms''
      then Inr (1, c\<lparr>mqtt_keepalive_ms := word_of_int (atol val)\<rparr>)
      else if sec = ''mqtt'' \<and> name = ''user-name''
      then set_field (mqtt_user_name c) val (\<lambda>b. c\<lparr>mqtt_user_name := b\<rparr>)
      else if sec = ''mqtt'' \<and> name = ''password''
      then set_field (mqtt_password c) val (\<lambda>b. c\<lparr>mqtt_password := b\<rparr>)
      else if sec = ''http'' \<and> name = ''port''
      then set_field (http_port c) val (\<lambda>b. c\<lparr>http_port := b\<rparr>)
      else if sec = ''http'' \<and> name = ''doc-root''
      then set_field (http_doc_root c) val (\<lambda>b. c\<lparr>http_doc_root := b\<rparr>)
      else if sec = ''http'' \<and> name = ''enable-directory-listing''
      then set_field (http_enable_directory_listing c) val (\<lambda>b. c\<lparr>http_enable_directory_listing := b\<rparr>)
      else if sec = ''runtime'' \<and> name = ''address''
      then set_field (rt_address c) val (\<lambda>b. c\<lparr>rt_address := b\<rparr>)
      else if sec = ''runtime'' \<and> name = ''port''
      then Inr (1, c\<lparr>rt_port := word_of_int (atol val)\<rparr>)
      else if sec = ''runtime'' \<and> name = ''reconnect-attempts''
      then Inr (1, c\<lparr>rt_reconnect_attempts := word_of_int (atol val)\<rparr>)
      else if sec = ''runtime'' \<and> name = ''connection-mode''
      then Inr (1, c\<lparr>rt_connection_mode :=
        (if take (length ''CONNECTION_MODE_UART'') val = ''CONNECTION_MODE_UART'' then CONNECTION_MODE_UART
         else CONNECTION_MODE_TCP)\<rparr>)
      else if sec = ''runtime'' \<and> name = ''uart-dev''
      then set_field (rt_uart_dev c) val (\<lambda>b. c\<lparr>rt_uart_dev := b\<rparr>)
      else if sec = ''runtime'' \<and> name = ''uart-baudrate''
      then Inr (1, c\<lparr>rt_uart_baudrate := word_of_int (atol val)\<rparr>)
      else if sec = ''runtime'' \<and> name = ''wasm-files-folder''
      then set_field (rt_wasm_files_folder c) val (\<lambda>b. c\<lparr>rt_wasm_files_folder := b\<rparr>)
      else if sec = ''runtime'' \<and> name = ''topic-prefix''
      then set_field (rt_topic_prefix c) val (\<lambda>b. c\<lparr>rt_topic_prefix := b\<rparr>)
      else if sec = ''runtime'' \<and> name = ''uuid''
      then set_field (rt_uuid c) val (\<lambda>b. c\<lparr>rt_uuid := b\<rparr>)
      else Inr (0, c))"

fun ini_entries :: "(string \<times> string \<times> string) list \<Rightarrow> bt_config_t \<Rightarrow> bt_config_t res" where
  "ini_entries [] c = Inr c"
| "ini_entries ((sec, name, val) # es) c = bind_res (conf_handler c sec name val) (\<lambda>(_, c). ini_entries es c)"

definition read_config :: "(string \<times> string \<times> string) list \<Rightarrow> int \<Rightarrow> bt_config_t \<Rightarrow> (int \<times> bt_config_t) res" where
  "read_config entries ini_ret c = bind_res (ini_entries entries c) (\<lambda>c. Inr (if ini_ret < 0 then - 1 else 0, c))"

text \<open>\<open>g_bt_config\<close> before the call\<close>

definition g_bt_config :: bt_config_t where
  "g_bt_config = \<lparr>mqtt_server_address = zero_buf STR_MAXLEN,
     mqtt_keepalive_ms = 0,
     mqtt_user_name = zero_buf STR_MAXLEN,
     mqtt_password = zero_buf STR_MAXLEN,
     http_port = zero_buf STR_MAXLEN,
     http_doc_root = zero_buf STR_MAXLEN,
     http_enable_directory_listing = zero_buf STR_MAXLEN,
     rt_address = zero_buf STR_MAXLEN,
     rt_port = 0,
     rt_reconnect_attempts = 0,
     rt_connection_mode = 0,
     rt_uart_dev = zero_buf STR_MAXLEN,
     rt_uart_baudrate = 0,
     rt_wasm_files_folder = zero_buf STR_MAXLEN,
     rt_topic_prefix = zero_buf STR_MAXLEN,
     rt_uuid = zero_buf STR_MAXLEN\<rparr>"

section \<open>Well-formed configurations\<close>

definition field_ok :: "cbuf \<Rightarrow> bool" where
  "field_ok b \<longleftrightarrow> length b = STR_MAXLEN \<and> (\<exists>s. text_of b s)"

definition string_fields :: "bt_config_t \<Rightarrow> cbuf list" where
  "string_fields c = [mqtt_server_address c,
     mqtt_user_name c,
     mqtt_password c,
     http_port c,
     http_doc_root c,
     http_enable_directory_listing c,
     rt_address c,
     rt_uart_dev c,
     rt_wasm_files_folder c,
     rt_topic_prefix c,
     rt_uuid c]"

definition config_ok :: "bt_config_t \<Rightarrow> bool" where
  "config_ok c \<longleftrightarrow> list_all field_ok (string_fields c)"

definition string_keys :: "(string \<times> string) list" where
  "string_keys = [(''mqtt'', ''server_address''),
     (''mqtt'', ''user-name''),
     (''mqtt'', ''password''),
     (''http'', ''port''),
     (''http'', ''doc-root''),
     (''http'', ''enable-directory-listing''),
     (''runtime'', ''address''),
     (''runtime'', ''uart-dev''),
     (''runtime'', ''wasm-files-folder''),
     (''runtime'', ''topic-prefix''),
     (''runtime'', ''uuid'')]"

text \<open>The array of a string key.\<close>

definition config_field :: "bt_config_t \<Rightarrow> string \<times> string \<Rightarrow> cbuf option" where
  "config_field c key = map_of (zip string_keys (string_fields c)) key"

lemma copy_field_short:
  "field_ok b \<Longrightarrow> cstring v \<Longrightarrow> length v < STR_MAXLEN \<Longrightarrow>
   \<exists>b'. copy_field b v = Inr b' \<and> field_ok b' \<and> text_of b' v"
  using strncpy_at_short [of v "length b" b] by (auto simp: copy_field_def field_ok_def text_of_def)

lemma copy_field_long:
  "field_ok b \<Longrightarrow> cstring v \<Longrightarrow> STR_MAXLEN \<le> length v \<Longrightarrow> copy_field b v = Inl Out_Of_Bounds"
  using strncpy_at_full [of v "length b" b] by (simp add: copy_field_def field_ok_def)

lemma set_field_short:
  "field_ok b \<Longrightarrow> cstring v \<Longrightarrow> length v < STR_MAXLEN \<Longrightarrow>
   \<exists>b'. set_field b v upd = Inr (1, upd b') \<and> field_ok b' \<and> text_of b' v"
  using copy_field_short [of b v] by (auto simp: set_field_def)

text \<open>What one entry with a short value does.\<close>

definition entry_effect :: "bt_config_t \<Rightarrow> string \<times> string \<Rightarrow> string \<Rightarrow> int \<Rightarrow> bt_config_t \<Rightarrow> bool" where
  "entry_effect c key v r c' \<longleftrightarrow>
     config_ok c'
     \<and> (\<forall>k. k \<noteq> key \<longrightarrow> config_field c' k = config_field c k)
     \<and> (key \<in> set string_keys \<longrightarrow> (\<exists>b. config_field c' key = Some b \<and> text_of b v))"

lemma config_ok_fields: "config_ok c \<longleftrightarrow> (\<forall>b \<in> set (string_fields c). field_ok b)"
  by (simp add: config_ok_def list_all_iff)

lemma string_keys_props: "distinct string_keys" "length string_keys = 11" "length (string_fields c) = 11"
  by (simp_all add: string_keys_def string_fields_def)

lemma config_field_nth: "i < 11 \<Longrightarrow> config_field c (string_keys ! i) = Some (string_fields c ! i)"
  by (simp add: config_field_def map_of_zip_nth string_keys_props)

lemma config_field_unknown: "k \<notin> set string_keys \<Longrightarrow> config_field c k = None"
  by (simp add: config_field_def map_of_zip_is_None string_keys_props)

text \<open>An entry of a string key changes the array at the key's place.\<close>

lemma entry_effect_at:
  assumes "config_ok c" and "i < 11" and "string_keys ! i = key" and "string_fields c' = (string_fields c)[i := b]"
    and "field_ok b" and "text_of b v"
  shows "entry_effect c key v r c'"
proof -
  have "config_ok c'"
    using assms(1,4,5) by (auto simp: config_ok_fields dest: set_update_subset_insert [THEN subsetD])
  moreover have "config_field c' k = config_field c k" if "k \<noteq> key" for k
  proof (cases "k \<in> set string_keys")
    case True
    then obtain j where j: "j < 11" "k = string_keys ! j" by (auto simp: in_set_conv_nth string_keys_props)
    with that assms(3) have "j \<noteq> i" by auto
    with j assms(4) show ?thesis by (simp add: config_field_nth)
  qed (simp add: config_field_unknown)
  moreover have "config_field c' key = Some b"
    using assms(2,4) config_field_nth [of i c'] by (simp add: assms(3) string_keys_props)
  ultimately show ?thesis using assms(6) by (simp add: entry_effect_def)
qed

lemma entry_effect_other:
  "config_ok c \<Longrightarrow> key \<notin> set string_keys \<Longrightarrow> string_fields c' = string_fields c \<Longrightarrow> entry_effect c key v r c'"
  by (simp add: entry_effect_def config_ok_def config_field_def)

text \<open>The place of the array that an entry writes, None for the other entries.\<close>

definition entry_index :: "string \<times> string \<Rightarrow> nat option" where
  "entry_index key = map_of (zip string_keys [0, 1, 2, 3, 4, 5, 6, 7, 8, 9, 10]) key"

lemma if_cases: "(b \<Longrightarrow> P x) \<Longrightarrow> (\<not> b \<Longrightarrow> P y) \<Longrightarrow> P (if b then x else y)"
  by simp

lemma conf_handler_cases:
  "case entry_index (sec, name) of
     Some i \<Rightarrow> \<exists>upd. conf_handler c sec name v = set_field (string_fields c ! i) v upd
       \<and> (\<forall>b. string_fields (upd b) = (string_fields c)[i := b])
   | None \<Rightarrow> \<exists>r c'. conf_handler c sec name v = Inr (r, c') \<and> string_fields c' = string_fields c"
  unfolding conf_handler_def
  by (intro if_cases [where P = "\<lambda>h. case entry_index (sec, name) of
     Some i \<Rightarrow> \<exists>upd. h = set_field (string_fields c ! i) v upd \<and> (\<forall>b. string_fields (upd b) = (string_fields c)[i := b])
   | None \<Rightarrow> \<exists>r c'. h = Inr (r, c') \<and> string_fields c' = string_fields c"];
    (elim conjE)?; (simp add: entry_index_def string_keys_def string_fields_def)?; (rule exI, rule conjI, rule refl, simp)?;
    (intro conjI impI; ((elim conjE)?, simp))?)

lemma entry_index_Some: "entry_index key = Some i \<Longrightarrow> i < 11 \<and> string_keys ! i = key"
  by (auto simp: entry_index_def string_keys_def split: if_splits)

lemma entry_index_None: "entry_index key = None \<longleftrightarrow> key \<notin> set string_keys"
  unfolding entry_index_def by (subst map_of_zip_is_None) (simp_all add: string_keys_props)

lemma conf_handler_short:
  assumes "config_ok c" and "cstring v" and "(sec, name) \<in> set string_keys \<longrightarrow> length v < STR_MAXLEN"
  shows "\<exists>r c'. conf_handler c sec name v = Inr (r, c') \<and> entry_effect c (sec, name) v r c'"
proof (cases "entry_index (sec, name)")
  case None
  with conf_handler_cases [where sec = sec and name = name and c = c and v = v] assms(1) show ?thesis
    by (auto simp: entry_index_None intro: entry_effect_other)
next
  case (Some i)
  note i = entry_index_Some [OF Some]
  have "(sec, name) \<in> set string_keys" using entry_index_None [of "(sec, name)"] Some by simp
  with assms(3) have len: "length v < STR_MAXLEN" by simp
  from conf_handler_cases [where sec = sec and name = name and c = c and v = v] Some obtain upd where
    h: "conf_handler c sec name v = set_field (string_fields c ! i) v upd"
    and u: "\<And>b. string_fields (upd b) = (string_fields c)[i := b]" by auto
  have "field_ok (string_fields c ! i)" using assms(1) i by (auto simp: config_ok_fields string_keys_props)
  from set_field_short [OF this assms(2) len, of upd] obtain b where
    b: "set_field (string_fields c ! i) v upd = Inr (1, upd b)" "field_ok b" "text_of b v" by blast
  from entry_effect_at [OF assms(1) conjunct1 [OF i] conjunct2 [OF i] u b(2,3)] h b(1) show ?thesis by simp
qed

lemma conf_handler_long:
  assumes "config_ok c" and "cstring v" and "(sec, name) \<in> set string_keys" and "STR_MAXLEN \<le> length v"
  shows "conf_handler c sec name v = Inl Out_Of_Bounds"
proof -
  obtain i where i: "entry_index (sec, name) = Some i"
    using assms(3) entry_index_None [of "(sec, name)"] by (cases "entry_index (sec, name)") auto
  from conf_handler_cases [where sec = sec and name = name and c = c and v = v] i obtain upd where
    h: "conf_handler c sec name v = set_field (string_fields c ! i) v upd" by auto
  have "field_ok (string_fields c ! i)"
    using assms(1) entry_index_Some [OF i] by (auto simp: config_ok_fields string_keys_props)
  with h assms(2,4) show ?thesis by (simp add: set_field_def copy_field_long)
qed

text \<open>The value of a key is the one its last entry gives.\<close>

fun last_value :: "string \<times> string \<Rightarrow> (string \<times> string \<times> string) list \<Rightarrow> string \<Rightarrow> string" where
  "last_value key [] d = d"
| "last_value key ((sec, name, v) # es) d = last_value key es (if (sec, name) = key then v else d)"

definition too_long :: "string \<times> string \<times> string \<Rightarrow> bool" where
  "too_long e \<longleftrightarrow> (fst e, fst (snd e)) \<in> set string_keys \<and> STR_MAXLEN \<le> length (snd (snd e))"

definition holds_values :: "bt_config_t \<Rightarrow> (string \<times> string \<Rightarrow> string) \<Rightarrow> bool" where
  "holds_values c f \<longleftrightarrow> (\<forall>key \<in> set string_keys. \<exists>b. config_field c key = Some b \<and> text_of b (f key))"

lemma holds_values_step:
  assumes "holds_values c f" and "entry_effect c key v r c'"
  shows "holds_values c' (\<lambda>k. if key = k then v else f k)"
  unfolding holds_values_def
proof
  fix k assume k: "k \<in> set string_keys"
  show "\<exists>b. config_field c' k = Some b \<and> text_of b (if key = k then v else f k)"
  proof (cases "key = k")
    case True
    with assms(2) k show ?thesis by (simp add: entry_effect_def)
  next
    case False
    with assms(2) have "config_field c' k = config_field c k" unfolding entry_effect_def by metis
    with False assms(1) k show ?thesis by (simp add: holds_values_def)
  qed
qed

lemma ini_entries_ok:
  assumes "config_ok c" and "holds_values c f" and "\<forall>e \<in> set es. cstring (snd (snd e)) \<and> \<not> too_long e"
  shows "\<exists>c'. ini_entries es c = Inr c' \<and> config_ok c' \<and> holds_values c' (\<lambda>k. last_value k es (f k))"
  using assms
proof (induction es arbitrary: c f)
  case (Cons e es)
  obtain sec name v where e: "e = (sec, name, v)" by (cases e)
  from Cons.prems(3) e have v: "cstring v" "(sec, name) \<in> set string_keys \<longrightarrow> length v < STR_MAXLEN"
    by (auto simp: too_long_def)
  from conf_handler_short [OF Cons.prems(1) v] obtain r c1 where
    h: "conf_handler c sec name v = Inr (r, c1)" and eff: "entry_effect c (sec, name) v r c1" by blast
  have "config_ok c1" using eff by (simp add: entry_effect_def)
  from Cons.IH [OF this holds_values_step [OF Cons.prems(2) eff]] Cons.prems(3) h show ?case
    by (simp add: e)
qed auto

lemma ini_entries_long:
  assumes "config_ok c" and "\<forall>e \<in> set es. cstring (snd (snd e))" and "\<exists>e \<in> set es. too_long e"
  shows "ini_entries es c = Inl Out_Of_Bounds"
  using assms
proof (induction es arbitrary: c)
  case (Cons e es)
  obtain sec name v where e: "e = (sec, name, v)" by (cases e)
  show ?case
  proof (cases "too_long e")
    case True
    with Cons.prems e show ?thesis by (simp add: conf_handler_long too_long_def)
  next
    case False
    with Cons.prems e have "(sec, name) \<in> set string_keys \<longrightarrow> length v < STR_MAXLEN" "cstring v"
      by (auto simp: too_long_def)
    from conf_handler_short [OF Cons.prems(1) this(2,1)] obtain r c1 where
      "conf_handler c sec name v = Inr (r, c1)" and "config_ok c1" by (auto simp: entry_effect_def)
    with Cons False e show ?thesis by simp
  qed
qed simp

lemma config_init_ok: "config_ok g_bt_config" "holds_values g_bt_config (\<lambda>_. [])"
proof -
  have z: "field_ok (zero_buf STR_MAXLEN)" "text_of (zero_buf STR_MAXLEN) []"
    using text_of_zero [of STR_MAXLEN] by (auto simp: field_ok_def STR_MAXLEN_def)
  have all: "string_fields g_bt_config = replicate 11 (zero_buf STR_MAXLEN)"
    by (simp add: string_fields_def g_bt_config_def eval_nat_numeral)
  then show "config_ok g_bt_config" using z by (auto simp: config_ok_fields)
  show "holds_values g_bt_config (\<lambda>_. [])" unfolding holds_values_def
  proof
    fix key assume "key \<in> set string_keys"
    then obtain i where i: "i < 11" "key = string_keys ! i" by (auto simp: in_set_conv_nth string_keys_props)
    then have "config_field g_bt_config key = Some (zero_buf STR_MAXLEN)"
      using config_field_nth [of i g_bt_config] unfolding all by simp
    with z(2) show "\<exists>b. config_field g_bt_config key = Some b \<and> text_of b []" by blast
  qed
qed

section \<open>Properties\<close>

text \<open>
  C37. Reading the configuration: when every value of a string key is shorter than its array, the
  call has no undefined behaviour and each string field holds the value of the last entry of its
  key (empty without one), terminated; one value of 100 bytes or more leaves an array without a
  terminator, which the \<open>printf\<close> that follows reads past its end.
\<close>

theorem read_config_outcome:
  assumes "\<forall>e \<in> set es. cstring (snd (snd e))"
  shows "if \<exists>e \<in> set es. too_long e then read_config es r g_bt_config = Inl Out_Of_Bounds
    else \<exists>c. read_config es r g_bt_config = Inr (if r < 0 then - 1 else 0, c) \<and> config_ok c
      \<and> (\<forall>key \<in> set string_keys. \<exists>b. config_field c key = Some b \<and> text_of b (last_value key es []))"
proof (cases "\<exists>e \<in> set es. too_long e")
  case True
  with ini_entries_long [OF config_init_ok(1) assms] show ?thesis by (simp add: read_config_def)
next
  case False
  with assms have "\<forall>e \<in> set es. cstring (snd (snd e)) \<and> \<not> too_long e" by blast
  from ini_entries_ok [OF config_init_ok this] obtain c where
    "ini_entries es g_bt_config = Inr c" "config_ok c" "holds_values c (\<lambda>k. last_value k es [])" by blast
  with False show ?thesis by (simp add: read_config_def holds_values_def)
qed

theorem read_config_outcome_witness:
  "read_config [(''http'', ''port'', replicate 100 CHR ''8'')] 0 g_bt_config = Inl Out_Of_Bounds
   \<and> (\<exists>c b. read_config [(''http'', ''port'', ''8000''), (''http'', ''port'', ''80'')] 0 g_bt_config = Inr (0, c)
        \<and> config_field c (''http'', ''port'') = Some b \<and> text_of b ''80'')"
proof -
  have key: "(''http'', ''port'') \<in> set string_keys" by (simp add: string_keys_def)
  have long: "too_long (''http'', ''port'', replicate 100 CHR ''8'')"
    using key by (simp add: too_long_def STR_MAXLEN_def)
  have short: "\<not> too_long (''http'', ''port'', ''8000'')" "\<not> too_long (''http'', ''port'', ''80'')"
    by (simp_all add: too_long_def STR_MAXLEN_def)
  have cs: "cstring (replicate 100 CHR ''8'')" by (simp add: cstring_def)
  show ?thesis
    using read_config_outcome [of "[(''http'', ''port'', replicate 100 CHR ''8'')]" 0] long cs
      read_config_outcome [of "[(''http'', ''port'', ''8000''), (''http'', ''port'', ''80'')]" 0] short key
    by fastforce
qed

end
