(* ===== verification/Runtime_Conn.thy ===== *)
theory Runtime_Conn
  imports Runtime_Request Config
begin

text \<open>
  Opening the connection to the runtime (bridge-tool/src/runtime_conn.c): TCP and serial
  connections, the baud rate table, UDP datagrams and \<open>runtime_conn_init\<close>. The operating system
  is a record of what its calls answer; a descriptor passed out by reference is the value of a
  successful call. The termios constants are fields: \<open>speed n\<close> is \<open>B\<open>n\<close>\<close>.
\<close>

section \<open>The operating system\<close>

record sockaddr_in =
  sin_addr :: "32 word"
  sin_port :: "16 word"   \<comment> \<open>in network order\<close>

record termios =
  c_cflag :: "32 word"
  c_iflag :: "32 word"
  c_oflag :: "32 word"
  c_lflag :: "32 word"
  cc_vtime :: nat
  cc_vmin :: nat

record net_os =
  sys_socket :: int
  sys_connect :: "int \<Rightarrow> sockaddr_in \<Rightarrow> int"
  inet_addr :: "string \<Rightarrow> 32 word"
  sys_open :: "string \<Rightarrow> int"
  sys_tcsetattr :: "int \<Rightarrow> termios \<Rightarrow> int"
  pthread_cond_init :: int
  speed :: "nat \<Rightarrow> 32 word"
  CS8 :: "32 word"
  CLOCAL :: "32 word"
  CREAD :: "32 word"
  IGNPAR :: "32 word"

section \<open>Connections\<close>

definition tcp_init :: "net_os \<Rightarrow> string \<Rightarrow> 16 word \<Rightarrow> int option" where
  "tcp_init os address prt =
     (let sock = sys_socket os
      in if sock = - 1 then None
         else let servaddr = \<lparr>sin_addr = inet_addr os address, sin_port = htons prt\<rparr>
              in if sys_connect os sock servaddr \<noteq> 0 then None else Some sock)"

definition baud_rates :: "nat list" where
  "baud_rates = [9600, 19200, 38400, 57600, 115200, 230400, 460800, 500000, 576000, 921600, 1000000,
     1152000, 1500000, 2000000, 2500000, 3000000, 3500000, 4000000]"

definition parse_baudrate :: "net_os \<Rightarrow> int \<Rightarrow> 32 word" where
  "parse_baudrate os baud =
     (if 0 \<le> baud \<and> nat baud \<in> set baud_rates then speed os (nat baud) else - 1)"

definition uart_term :: "net_os \<Rightarrow> 32 word \<Rightarrow> termios" where
  "uart_term os baudrate =
     \<lparr>c_cflag = baudrate OR CS8 os OR CLOCAL os OR CREAD os, c_iflag = IGNPAR os, c_oflag = 0, c_lflag = 0,
      cc_vtime = 30, cc_vmin = 1\<rparr>"

definition uart_init :: "net_os \<Rightarrow> string \<Rightarrow> 32 word \<Rightarrow> int option" where
  "uart_init os device baudrate =
     (let uart_fd = sys_open os device
      in if uart_fd \<le> 0 then None
         else if sys_tcsetattr os uart_fd (uart_term os baudrate) \<noteq> 0 then None
         else Some uart_fd)"

text \<open>The datagrams that leave, with their addressee; \<open>address\<close> is not used.\<close>

definition udp_send :: "net_os \<Rightarrow> string \<Rightarrow> int \<Rightarrow> byte list \<Rightarrow> bool \<times> (sockaddr_in \<times> byte list) list" where
  "udp_send os address prt buf =
     (if sys_socket os < 0 then (False, [])
      else (True, [(\<lparr>sin_addr = 0, sin_port = htons (word_of_int prt)\<rparr>, buf)]))"

text \<open>
  \<open>main_fd\<close> is \<open>runtime_conn_fd\<close> of \<open>main\<close> (None: indeterminate), \<open>cond_ready\<close> tells whether
  \<open>cond_pending\<close> has been initialised.
\<close>

record conn_state =
  link :: link_out
  main_fd :: "int option"
  cond_ready :: bool

definition conn_opened :: "int option \<Rightarrow> conn_state \<Rightarrow> int \<times> conn_state" where
  "conn_opened r s =
     (case r of
        None \<Rightarrow> (- 1, s)
      | Some fd \<Rightarrow> (0, s\<lparr>link := (link s)\<lparr>g_runtime_conn_fd := fd\<rparr>, main_fd := Some fd\<rparr>))"

definition runtime_conn_init :: "net_os \<Rightarrow> bt_config_t \<Rightarrow> conn_state \<Rightarrow> (int \<times> conn_state) res" where
  "runtime_conn_init os c s =
     (if rt_connection_mode c = CONNECTION_MODE_TCP
      then bind_res (read_cstr (rt_address c) 0) (\<lambda>address.
           Inr (conn_opened (tcp_init os address (ucast (rt_port c))) s))
      else if rt_connection_mode c = CONNECTION_MODE_UART
      then bind_res (read_cstr (rt_uart_dev c) 0) (\<lambda>dev.
           Inr (conn_opened (uart_init os dev (rt_uart_baudrate c)) s))
      else Inr (pthread_cond_init os, if pthread_cond_init os = 0 then s\<lparr>cond_ready := True\<rparr> else s))"

section \<open>Properties\<close>

text \<open>
  \<open>runtime_conn_init\<close> never does both of its jobs: when it returns 0 it has either opened a
  connection and left the condition variable that HTTP requests wait on uninitialised, or
  initialised that variable and left the descriptor of \<open>main\<close> as it was (indeterminate at the
  first call, when the configuration has no connection mode).
\<close>

theorem runtime_conn_init_half:
  assumes "runtime_conn_init os c s = Inr (0, s')"
  shows "(\<exists>fd. main_fd s' = Some fd \<and> g_runtime_conn_fd (link s') = fd \<and> cond_ready s' = cond_ready s
        \<and> rt_connection_mode c \<in> {CONNECTION_MODE_TCP, CONNECTION_MODE_UART})
     \<or> (main_fd s' = main_fd s \<and> link s' = link s \<and> cond_ready s'
        \<and> rt_connection_mode c \<notin> {CONNECTION_MODE_TCP, CONNECTION_MODE_UART})"
  using assms
  by (auto simp: runtime_conn_init_def conn_opened_def bind_res_Inr_iff split: if_splits option.splits)

definition demo_os :: net_os where
  "demo_os = \<lparr>sys_socket = 5, sys_connect = (\<lambda>_ _. 0), inet_addr = (\<lambda>_. 16777343), sys_open = (\<lambda>_. 6),
     sys_tcsetattr = (\<lambda>_ _. 0), pthread_cond_init = 0, speed = (\<lambda>_. 4098), CS8 = 48, CLOCAL = 2048,
     CREAD = 128, IGNPAR = 4\<rparr>"

definition demo_conn :: conn_state where
  "demo_conn = \<lparr>link = demo_out, main_fd = None, cond_ready = False\<rparr>"

theorem runtime_conn_init_half_witness:
  "\<exists>s'. runtime_conn_init demo_os g_bt_config demo_conn = Inr (0, s') \<and> main_fd s' = None"
proof -
  have "runtime_conn_init demo_os g_bt_config demo_conn = Inr (0, demo_conn\<lparr>cond_ready := True\<rparr>)"
    by (simp add: runtime_conn_init_def g_bt_config_def CONNECTION_MODE_TCP_def CONNECTION_MODE_UART_def demo_os_def)
  from this runtime_conn_init_half [OF this] show ?thesis
    by (simp add: demo_conn_def g_bt_config_def CONNECTION_MODE_TCP_def CONNECTION_MODE_UART_def)
qed

text \<open>
  The serial line is opened with the number of the configuration in the place of its speed
  code: the flags of the port are those of a parsed baud rate only when the code of the rate and
  the rate agree in every bit the other flags leave free.
\<close>

theorem uart_speed_not_parsed:
  assumes "rt_connection_mode c = CONNECTION_MODE_UART" and "read_cstr (rt_uart_dev c) 0 = Inr dev"
    and "nat (uint (rt_uart_baudrate c)) \<in> set baud_rates"
  shows "runtime_conn_init os c s = Inr (conn_opened (uart_init os dev (rt_uart_baudrate c)) s)
    \<and> (uart_term os (rt_uart_baudrate c) = uart_term os (parse_baudrate os (uint (rt_uart_baudrate c)))
       \<longleftrightarrow> (rt_uart_baudrate c XOR speed os (nat (uint (rt_uart_baudrate c))))
             AND NOT (CS8 os OR CLOCAL os OR CREAD os) = 0)"
proof -
  have flags: "a OR m = b OR m \<longleftrightarrow> (a XOR b) AND NOT m = 0" for a b m :: "32 word"
  proof
    assume e: "a OR m = b OR m"
    show "(a XOR b) AND NOT m = 0"
    proof (rule bit_word_eqI)
      fix n assume "n < LENGTH(32)"
      with arg_cong [where f = "\<lambda>w. bit w n", OF e] show "bit ((a XOR b) AND NOT m) n = bit 0 n"
        by (auto simp: bit_simps)
    qed
  next
    assume e: "(a XOR b) AND NOT m = 0"
    show "a OR m = b OR m"
    proof (rule bit_word_eqI)
      fix n assume "n < LENGTH(32)"
      with arg_cong [where f = "\<lambda>w. bit w n", OF e] show "bit (a OR m) n = bit (b OR m) n"
        by (auto simp: bit_simps)
    qed
  qed
  have "CONNECTION_MODE_UART \<noteq> CONNECTION_MODE_TCP"
    by (simp add: CONNECTION_MODE_UART_def CONNECTION_MODE_TCP_def)
  then show ?thesis using assms flags [of _ "CS8 os OR CLOCAL os OR CREAD os"]
    by (simp add: runtime_conn_init_def uart_term_def parse_baudrate_def)
qed

definition demo_uart_config :: bt_config_t where
  "demo_uart_config = g_bt_config\<lparr>rt_connection_mode := 2, rt_uart_baudrate := 115200\<rparr>"

theorem uart_speed_not_parsed_witness:
  "uart_term demo_os (rt_uart_baudrate demo_uart_config)
    \<noteq> uart_term demo_os (parse_baudrate demo_os (uint (rt_uart_baudrate demo_uart_config)))"
proof -
  have "rt_connection_mode demo_uart_config = CONNECTION_MODE_UART"
    and "nat (uint (rt_uart_baudrate demo_uart_config)) \<in> set baud_rates"
    by (simp_all add: demo_uart_config_def CONNECTION_MODE_UART_def baud_rates_def)
  moreover have "read_cstr (rt_uart_dev demo_uart_config) 0 = Inr []"
    using text_of_zero [of STR_MAXLEN] by (simp add: demo_uart_config_def g_bt_config_def text_of_def STR_MAXLEN_def)
  ultimately show ?thesis
    using uart_speed_not_parsed [of demo_uart_config "[]" demo_os demo_conn]
    by (simp add: demo_os_def demo_uart_config_def)
qed

end
