(* ===== verification/Slist.thy ===== *)
theory Slist
  imports Bridge_Prelude
begin

text \<open>
  The singly-linked list macros of external/queue/queue.h on an explicit heap. The heap maps
  addresses to nodes, a freed address is unmapped; a macro gets the node type's link field as a
  getter and a setter, as the C macros get it as their \<open>field\<close> argument. Loops have fuel: a list
  in a heap of \<open>n\<close> addresses that is longer than \<open>n\<close> is cyclic, so running out of
  \<open>n + 1\<close> steps is a loop that never ends (\<open>Diverges\<close>). The locale \<open>sle_field\<close> is the contract
  of a link field, and its lemmas relate each macro to the list of addresses it works on.
\<close>

section \<open>The macros\<close>

type_synonym 'n heap = "nat \<Rightarrow> 'n option"

definition SLIST_NEXT :: "('n \<Rightarrow> nat option) \<Rightarrow> 'n heap \<Rightarrow> nat \<Rightarrow> nat option res" where
  "SLIST_NEXT get h elm = (case h elm of None \<Rightarrow> Inl Use_After_Free | Some n \<Rightarrow> Inr (get n))"

definition SLIST_FIRST :: "nat option \<Rightarrow> nat option" where
  "SLIST_FIRST head = head"

definition SLIST_EMPTY :: "nat option \<Rightarrow> bool" where
  "SLIST_EMPTY head \<longleftrightarrow> SLIST_FIRST head = None"

definition SLIST_INIT :: "nat option" where
  "SLIST_INIT = None"

definition SLIST_INSERT_HEAD ::
    "(nat option \<Rightarrow> 'n \<Rightarrow> 'n) \<Rightarrow> 'n heap \<Rightarrow> nat option \<Rightarrow> nat \<Rightarrow> ('n heap \<times> nat option) res" where
  "SLIST_INSERT_HEAD set_next h head elm =
     (case h elm of None \<Rightarrow> Inl Use_After_Free | Some n \<Rightarrow> Inr (h(elm \<mapsto> set_next head n), Some elm))"

definition SLIST_INSERT_AFTER ::
    "('n \<Rightarrow> nat option) \<Rightarrow> (nat option \<Rightarrow> 'n \<Rightarrow> 'n) \<Rightarrow> 'n heap \<Rightarrow> nat \<Rightarrow> nat \<Rightarrow> 'n heap res" where
  "SLIST_INSERT_AFTER get set_next h slistelm elm =
     bind_res (SLIST_NEXT get h slistelm) (\<lambda>nx.
       case h elm of None \<Rightarrow> Inl Use_After_Free
       | Some n \<Rightarrow>
           (let h = h(elm \<mapsto> set_next nx n)
            in case h slistelm of None \<Rightarrow> Inl Use_After_Free
               | Some l \<Rightarrow> Inr (h(slistelm \<mapsto> set_next (Some elm) l))))"

definition SLIST_REMOVE_AFTER ::
    "('n \<Rightarrow> nat option) \<Rightarrow> (nat option \<Rightarrow> 'n \<Rightarrow> 'n) \<Rightarrow> 'n heap \<Rightarrow> nat \<Rightarrow> 'n heap res" where
  "SLIST_REMOVE_AFTER get set_next h elm =
     (case h elm of
        None \<Rightarrow> Inl Use_After_Free
      | Some n \<Rightarrow>
          (case get n of
             None \<Rightarrow> Inl Null_Deref
           | Some a \<Rightarrow> bind_res (SLIST_NEXT get h a) (\<lambda>nx. Inr (h(elm \<mapsto> set_next nx n)))))"

definition SLIST_REMOVE_HEAD :: "('n \<Rightarrow> nat option) \<Rightarrow> 'n heap \<Rightarrow> nat option \<Rightarrow> nat option res" where
  "SLIST_REMOVE_HEAD get h head = (case head of None \<Rightarrow> Inl Null_Deref | Some p \<Rightarrow> SLIST_NEXT get h p)"

text \<open>\<open>while (curelm->next != elm) curelm = curelm->next\<close>\<close>

fun slist_pred :: "('n \<Rightarrow> nat option) \<Rightarrow> nat \<Rightarrow> 'n heap \<Rightarrow> nat option \<Rightarrow> nat \<Rightarrow> nat res" where
  "slist_pred get 0 h curelm elm = Inl Diverges"
| "slist_pred get (Suc fuel) h None elm = Inl Null_Deref"
| "slist_pred get (Suc fuel) h (Some c) elm =
     bind_res (SLIST_NEXT get h c) (\<lambda>nx. if nx = Some elm then Inr c else slist_pred get fuel h nx elm)"

definition SLIST_REMOVE ::
    "('n \<Rightarrow> nat option) \<Rightarrow> (nat option \<Rightarrow> 'n \<Rightarrow> 'n) \<Rightarrow> nat \<Rightarrow> 'n heap \<Rightarrow> nat option \<Rightarrow> nat
      \<Rightarrow> ('n heap \<times> nat option) res" where
  "SLIST_REMOVE get set_next fuel h head elm =
     (if head = Some elm
      then bind_res (SLIST_REMOVE_HEAD get h head) (\<lambda>hd. Inr (h, hd))
      else bind_res (slist_pred get fuel h head elm) (\<lambda>c.
           bind_res (SLIST_NEXT get h elm) (\<lambda>nx.
             case h c of None \<Rightarrow> Inl Use_After_Free | Some n \<Rightarrow> Inr (h(c \<mapsto> set_next nx n), head))))"

text \<open>\<open>SLIST_FOREACH\<close> with a body that leaves the loop at the first node that satisfies a test.\<close>

fun SLIST_FOREACH_find ::
    "('n \<Rightarrow> nat option) \<Rightarrow> ('n \<Rightarrow> bool res) \<Rightarrow> nat \<Rightarrow> 'n heap \<Rightarrow> nat option \<Rightarrow> nat option res" where
  "SLIST_FOREACH_find get test 0 h var = Inl Diverges"
| "SLIST_FOREACH_find get test (Suc fuel) h None = Inr None"
| "SLIST_FOREACH_find get test (Suc fuel) h (Some a) =
     (case h a of
        None \<Rightarrow> Inl Use_After_Free
      | Some n \<Rightarrow> bind_res (test n) (\<lambda>b. if b then Inr (Some a) else SLIST_FOREACH_find get test fuel h (get n)))"

text \<open>
  The loops with a body that changes the state; \<open>nodes\<close> are the nodes in it. The second one reads
  the link of a node before the body is run on it.
\<close>

fun SLIST_FOREACH ::
    "('s \<Rightarrow> 'n heap) \<Rightarrow> ('n \<Rightarrow> nat option) \<Rightarrow> (nat \<Rightarrow> 's \<Rightarrow> 's res) \<Rightarrow> nat \<Rightarrow> nat option \<Rightarrow> 's \<Rightarrow> 's res" where
  "SLIST_FOREACH nodes get body 0 var s = Inl Diverges"
| "SLIST_FOREACH nodes get body (Suc fuel) None s = Inr s"
| "SLIST_FOREACH nodes get body (Suc fuel) (Some a) s =
     bind_res (body a s) (\<lambda>s.
     bind_res (SLIST_NEXT get (nodes s) a) (\<lambda>nx. SLIST_FOREACH nodes get body fuel nx s))"

fun SLIST_FOREACH_SAFE ::
    "('s \<Rightarrow> 'n heap) \<Rightarrow> ('n \<Rightarrow> nat option) \<Rightarrow> (nat \<Rightarrow> 's \<Rightarrow> 's res) \<Rightarrow> nat \<Rightarrow> nat option \<Rightarrow> 's \<Rightarrow> 's res" where
  "SLIST_FOREACH_SAFE nodes get body 0 var s = Inl Diverges"
| "SLIST_FOREACH_SAFE nodes get body (Suc fuel) None s = Inr s"
| "SLIST_FOREACH_SAFE nodes get body (Suc fuel) (Some a) s =
     bind_res (SLIST_NEXT get (nodes s) a) (\<lambda>tvar.
     bind_res (body a s) (\<lambda>s. SLIST_FOREACH_SAFE nodes get body fuel tvar s))"

section \<open>The list of addresses behind a head\<close>

primrec slist_at :: "('n \<Rightarrow> nat option) \<Rightarrow> 'n heap \<Rightarrow> nat option \<Rightarrow> nat list \<Rightarrow> bool" where
  "slist_at get h p [] \<longleftrightarrow> p = None"
| "slist_at get h p (a # as) \<longleftrightarrow> p = Some a \<and> (\<exists>n. h a = Some n \<and> slist_at get h (get n) as)"

lemma slist_at_None [simp]: "slist_at get h None as \<longleftrightarrow> as = []"
  by (cases as) simp_all

lemma slist_at_unique: "slist_at get h p as \<Longrightarrow> slist_at get h p bs \<Longrightarrow> as = bs"
proof (induction as arbitrary: p bs)
  case (Cons a as)
  then show ?case by (cases bs) auto
qed auto

lemma slist_at_alloc: "slist_at get h p as \<Longrightarrow> a \<in> set as \<Longrightarrow> \<exists>n. h a = Some n"
  by (induction as arbitrary: p) auto

lemma slist_at_suffix:
  "slist_at get h p (as @ a # bs) \<Longrightarrow> slist_at get h (Some a) (a # bs)"
  by (induction as arbitrary: p) auto

lemma slist_at_distinct: "slist_at get h p as \<Longrightarrow> distinct as"
proof (induction as arbitrary: p)
  case Nil
  then show ?case by simp
next
  case (Cons a as)
  then have "a \<notin> set as"
  proof (intro notI)
    assume "a \<in> set as"
    then obtain bs cs where as: "as = bs @ a # cs" by (auto simp: in_set_conv_decomp)
    with Cons.prems have "slist_at get h (Some a) (a # cs)"
      using slist_at_suffix [of get h p "a # bs" a cs] by simp
    moreover from Cons.prems have "slist_at get h (Some a) (a # as)" by auto
    ultimately have "a # as = a # cs" by (rule slist_at_unique [rotated])
    with as show False by simp
  qed
  with Cons show ?case by auto
qed

lemma slist_at_frame: "(\<And>a. a \<in> set as \<Longrightarrow> h' a = h a) \<Longrightarrow> slist_at get h' p as = slist_at get h p as"
  by (induction as arbitrary: p) auto

lemma slist_at_upd_other [simp]: "a \<notin> set as \<Longrightarrow> slist_at get (h(a := x)) p as = slist_at get h p as"
  by (rule slist_at_frame) auto

lemma find_at:
  assumes "slist_at get h p as" and "length as < fuel"
    and "\<And>a n. a \<in> set as \<Longrightarrow> h a = Some n \<Longrightarrow> test n = Inr (q a)"
  shows "SLIST_FOREACH_find get test fuel h p = Inr (List.find q as)"
  using assms
proof (induction as arbitrary: p fuel)
  case Nil
  then show ?case by (cases fuel) auto
next
  case (Cons a as)
  then obtain f n where f: "fuel = Suc f" "h a = Some n" "p = Some a" "slist_at get h (get n) as"
    by (cases fuel) auto
  have test: "test n = Inr (q a)" using f(2) by (intro Cons.prems(3)) simp_all
  have "SLIST_FOREACH_find get test f h (get n) = Inr (List.find q as)"
    using Cons.prems f by (intro Cons.IH) simp_all
  with f test show ?case by simp
qed

lemma slist_pred_at:
  assumes "slist_at get h p (as @ c # a # bs)" and "length as < fuel"
  shows "slist_pred get fuel h p a = Inr c"
  using assms
proof (induction as arbitrary: p fuel)
  case Nil
  then show ?case by (cases fuel) (auto simp: SLIST_NEXT_def)
next
  case (Cons x as)
  then obtain f n where f: "fuel = Suc f" "h x = Some n" "p = Some x" "slist_at get h (get n) (as @ c # a # bs)"
    by (cases fuel) auto
  have "get n \<noteq> Some a"
  proof
    assume "get n = Some a"
    with f(4) have "hd (as @ c # a # bs) = a" by (cases as) auto
    moreover have "distinct (as @ c # a # bs)" using f(4) by (rule slist_at_distinct)
    ultimately show False by (cases as) auto
  qed
  with f Cons show ?case by (simp add: SLIST_NEXT_def)
qed

text \<open>Unlinking the node after \<open>c\<close>.\<close>

lemma slist_at_unlink:
  assumes "slist_at get h q (ys @ c # a # bs)" and "distinct (ys @ c # a # bs)"
    and "h a = Some m" and "get n' = get m"
  shows "slist_at get (h(c \<mapsto> n')) q (ys @ c # bs)"
  using assms(1,2)
proof (induction ys arbitrary: q)
  case Nil
  then have "slist_at get h (get m) bs" using assms(3) by auto
  moreover have "slist_at get (h(c \<mapsto> n')) (get m) bs = slist_at get h (get m) bs"
    using Nil by (intro slist_at_frame) auto
  ultimately have "slist_at get (h(c \<mapsto> n')) (get n') bs" using assms(4) by simp
  then show ?case using Nil by (simp del: fun_upd_apply add: fun_upd_same)
next
  case (Cons y ys)
  then show ?case by auto
qed

section \<open>Link fields\<close>

text \<open>
  \<open>sle_next\<close> as a field: what is written is read back and a later write wins. Nodes with the same
  data differ in the link only: they agree once the link is overwritten.
\<close>

locale sle_field =
  fixes get :: "'n \<Rightarrow> nat option"
    and set_next :: "nat option \<Rightarrow> 'n \<Rightarrow> 'n"
  assumes get_set: "get (set_next x n) = x"
    and set_set: "set_next x (set_next y n) = set_next x n"
begin

lemma insert_head_at:
  assumes "slist_at get h p as" and "a \<notin> set as" and "h a = Some n"
  shows "SLIST_INSERT_HEAD set_next h p a = Inr (h(a \<mapsto> set_next p n), Some a)"
    and "slist_at get (h(a \<mapsto> set_next p n)) (Some a) (a # as)"
proof -
  show "SLIST_INSERT_HEAD set_next h p a = Inr (h(a \<mapsto> set_next p n), Some a)"
    using assms(3) by (simp add: SLIST_INSERT_HEAD_def)
  have "slist_at get (h(a \<mapsto> set_next p n)) p as = slist_at get h p as"
    using assms(2) by (intro slist_at_frame) auto
  with assms show "slist_at get (h(a \<mapsto> set_next p n)) (Some a) (a # as)" by (simp add: get_set)
qed

lemma insert_after_at:
  assumes "slist_at get h p (as @ l # bs)" and "a \<notin> set (as @ l # bs)" and "h a = Some n"
  shows "\<exists>h'. SLIST_INSERT_AFTER get set_next h l a = Inr h' \<and> slist_at get h' p (as @ l # a # bs)"
proof -
  have d: "distinct (as @ l # bs)" using assms(1) by (rule slist_at_distinct)
  obtain m where m: "h l = Some m" "slist_at get h (get m) bs" using slist_at_suffix [OF assms(1)] by auto
  have ne: "a \<noteq> l" using assms(2) by auto
  let ?h = "h(a \<mapsto> set_next (get m) n, l \<mapsto> set_next (Some a) m)"
  have "slist_at get ?h (get m) bs"
    using m(2) d assms(2) by (subst slist_at_frame [of bs ?h h]) auto
  then have "slist_at get ?h (Some l) (l # a # bs)" using ne by (simp add: get_set)
  then have "slist_at get ?h q (xs @ l # a # bs)" if "slist_at get h q (xs @ l # bs)" "set xs \<subseteq> set as" for q xs
    using that
  proof (induction xs arbitrary: q)
    case (Cons x xs)
    with d assms(2) show ?case by auto
  qed auto
  with assms(1) m(1) assms(3) ne show ?thesis by (simp add: SLIST_INSERT_AFTER_def SLIST_NEXT_def)
qed

lemma remove_after_at:
  assumes "slist_at get h p (as @ l # a # bs)"
  shows "\<exists>h'. SLIST_REMOVE_AFTER get set_next h l = Inr h' \<and> slist_at get h' p (as @ l # bs)"
proof -
  obtain m n where m: "h l = Some m" "get m = Some a" "h a = Some n"
    using slist_at_suffix [OF assms] by auto
  have "slist_at get (h(l \<mapsto> set_next (get n) m)) p (as @ l # bs)"
    using slist_at_unlink [OF assms slist_at_distinct [OF assms] m(3)] get_set by simp
  with m show ?thesis by (simp add: SLIST_REMOVE_AFTER_def SLIST_NEXT_def)
qed

lemma remove_at:
  assumes "slist_at get h p as" and "a \<in> set as" and "length as \<le> fuel"
  shows "\<exists>h' p'. SLIST_REMOVE get set_next fuel h p a = Inr (h', p') \<and> slist_at get h' p' (remove1 a as)
     \<and> h' a = h a \<and> (\<forall>b. b \<notin> set as \<longrightarrow> h' b = h b)
     \<and> (\<forall>b. map_option (set_next None) (h' b) = map_option (set_next None) (h b))"
proof (cases "p = Some a")
  case True
  with assms(1) obtain n bs where "as = a # bs" "h a = Some n" "slist_at get h (get n) bs"
    by (cases as) auto
  with True show ?thesis by (simp add: SLIST_REMOVE_def SLIST_REMOVE_HEAD_def SLIST_NEXT_def)
next
  case False
  from assms(2) obtain xs bs where ax: "as = xs @ a # bs" by (auto simp: in_set_conv_decomp)
  with False assms(1) have "xs \<noteq> []" by auto
  then obtain ys c where xs: "xs = ys @ [c]" by (cases xs rule: rev_cases) auto
  from ax xs have as: "as = ys @ c # a # bs" by simp
  have dist: "distinct as" using assms(1) by (rule slist_at_distinct)
  have pred: "slist_pred get fuel h p a = Inr c"
    using assms(1,3) as by (intro slist_pred_at [of get h p ys c a bs]) auto
  obtain n m where c: "h c = Some n" and a: "h a = Some m"
    using slist_at_alloc [OF assms(1), of c] slist_at_alloc [OF assms(1), of a] as by auto
  let ?h = "h(c \<mapsto> set_next (get m) n)"
  have "SLIST_REMOVE get set_next fuel h p a = Inr (?h, p)"
    using False pred a c by (simp add: SLIST_REMOVE_def SLIST_NEXT_def)
  moreover have "slist_at get ?h p (remove1 a as)"
    using assms(1) dist as a get_set slist_at_unlink [of get h p ys c a bs m "set_next (get m) n"]
    by (simp add: remove1_append)
  ultimately show ?thesis using dist as c by (simp add: set_set)
qed

end

end
