(* ===== verification/Module_List.thy ===== *)
theory Module_List
  imports Slist
begin

text \<open>
  The registry of installed modules and the topics they publish to
  (bridge-tool/src/module_list.h and module_list.c): two heaps of list nodes, linked by the
  macros of theory Slist. \<open>mlist_rep\<close> says which list of modules a state represents; every
  operation is shown to implement its counterpart on that list, except the removal of a module
  that still has topics, which reads a freed node. The locale \<open>module_registry\<close> is the contract
  the rest of the bridge relies on.
\<close>

section \<open>Nodes and state\<close>

text \<open>
  A string allocated for one node: no other pointer to it outlives the call that got it, so it is
  kept in the node, with its life cycle. The content of the copy is the C string that was copied.
\<close>

datatype cptr = Null_Ptr | Owned string | Dangling

record module_descriptor =
  md_id :: int
  md_name :: cptr
  md_topics :: "nat option"
  next_mod :: "nat option"

record topic_descriptor =
  td_topic :: cptr
  next_topic :: "nat option"

record mlist =
  mods :: "module_descriptor heap"
  tops :: "topic_descriptor heap"
  modules :: "nat option"
  brk :: nat   \<comment> \<open>addresses below have been requested from \<open>malloc\<close>\<close>

definition set_next_mod :: "nat option \<Rightarrow> module_descriptor \<Rightarrow> module_descriptor" where
  "set_next_mod x m = m\<lparr>next_mod := x\<rparr>"

definition set_next_topic :: "nat option \<Rightarrow> topic_descriptor \<Rightarrow> topic_descriptor" where
  "set_next_topic x t = t\<lparr>next_topic := x\<rparr>"

interpretation mod_link: sle_field next_mod set_next_mod
  by unfold_locales (simp_all add: set_next_mod_def)

interpretation topic_link: sle_field next_topic set_next_topic
  by unfold_locales (simp_all add: set_next_topic_def)

text \<open>\<open>malloc\<close> gives a fresh address; \<open>ok\<close> tells which requests succeed.\<close>

definition malloc_addr :: "(nat \<Rightarrow> bool) \<Rightarrow> mlist \<Rightarrow> nat option \<times> mlist" where
  "malloc_addr ok s = (if ok (brk s) then Some (brk s) else None, s\<lparr>brk := Suc (brk s)\<rparr>)"

definition deref_str :: "cptr \<Rightarrow> string res" where
  "deref_str p = (case p of Null_Ptr \<Rightarrow> Inl Null_Deref | Owned s \<Rightarrow> Inr s | Dangling \<Rightarrow> Inl Use_After_Free)"

definition free_str :: "cptr \<Rightarrow> cptr res" where
  "free_str p = (case p of Null_Ptr \<Rightarrow> Inr Null_Ptr | Owned s \<Rightarrow> Inr Dangling | Dangling \<Rightarrow> Inl Use_After_Free)"

definition fuel_of :: "mlist \<Rightarrow> nat" where
  "fuel_of s = Suc (brk s)"

section \<open>Operations\<close>

definition module_list_init :: "mlist \<Rightarrow> int \<times> mlist" where
  "module_list_init s = (0, s\<lparr>modules := SLIST_INIT\<rparr>)"

text \<open>When the second \<open>malloc\<close> fails, the node of the first one is leaked.\<close>

definition module_list_add :: "(nat \<Rightarrow> bool) \<Rightarrow> int \<Rightarrow> string \<Rightarrow> mlist \<Rightarrow> (int \<times> mlist) res" where
  "module_list_add ok mod_id mod_name s =
     (case malloc_addr ok s of
        (None, s) \<Rightarrow> Inr (- 1, s)
      | (Some a, s) \<Rightarrow>
          (case malloc_addr ok s of
             (None, s) \<Rightarrow> Inr (- 1, s)
           | (Some n, s) \<Rightarrow>
               let m = \<lparr>md_id = mod_id, md_name = Owned mod_name, md_topics = SLIST_INIT, next_mod = None\<rparr>
               in bind_res (SLIST_INSERT_HEAD set_next_mod ((mods s)(a \<mapsto> m)) (modules s) a)
                    (\<lambda>(h, first). Inr (0, s\<lparr>mods := h, modules := first\<rparr>))))"

definition find_module :: "mlist \<Rightarrow> int \<Rightarrow> nat option res" where
  "find_module s mod_id =
     SLIST_FOREACH_find next_mod (\<lambda>m. Inr (md_id m = mod_id)) (fuel_of s) (mods s) (modules s)"

text \<open>\<open>&mod->topics\<close> is given by the address of the module.\<close>

definition module_list_get_topic_list_by_id :: "mlist \<Rightarrow> int \<Rightarrow> nat option res" where
  "module_list_get_topic_list_by_id s mod_id = find_module s mod_id"

definition module_list_get_name_by_id :: "mlist \<Rightarrow> int \<Rightarrow> cptr res" where
  "module_list_get_name_by_id s mod_id =
     bind_res (find_module s mod_id) (\<lambda>r.
       case r of None \<Rightarrow> Inr Null_Ptr
       | Some a \<Rightarrow> (case mods s a of None \<Rightarrow> Inl Use_After_Free | Some m \<Rightarrow> Inr (md_name m)))"

text \<open>The list head that \<open>topics\<close> points to.\<close>

definition topics_head :: "mlist \<Rightarrow> nat \<Rightarrow> nat option res" where
  "topics_head s a = (case mods s a of None \<Rightarrow> Inl Use_After_Free | Some m \<Rightarrow> Inr (md_topics m))"

definition set_topics_head :: "nat \<Rightarrow> nat option \<Rightarrow> mlist \<Rightarrow> mlist" where
  "set_topics_head a first s = s\<lparr>mods := (mods s)(a := map_option (\<lambda>m. m\<lparr>md_topics := first\<rparr>) (mods s a))\<rparr>"

definition find_topic :: "mlist \<Rightarrow> string \<Rightarrow> nat \<Rightarrow> nat option res" where
  "find_topic s topic a =
     bind_res (topics_head s a) (\<lambda>first.
       SLIST_FOREACH_find next_topic (\<lambda>t. bind_res (deref_str (td_topic t)) (\<lambda>x. Inr (x = topic)))
         (fuel_of s) (tops s) first)"

definition topic_list_is_in_list :: "mlist \<Rightarrow> string \<Rightarrow> nat \<Rightarrow> int res" where
  "topic_list_is_in_list s topic a =
     bind_res (find_topic s topic a) (\<lambda>r. Inr (if r = None then 0 else 1))"

definition topic_list_check_and_add :: "(nat \<Rightarrow> bool) \<Rightarrow> string \<Rightarrow> int \<Rightarrow> mlist \<Rightarrow> (int \<times> mlist) res" where
  "topic_list_check_and_add ok topic mod_id s =
     bind_res (module_list_get_topic_list_by_id s mod_id) (\<lambda>r.
       case r of None \<Rightarrow> Inr (- 1, s)
       | Some a \<Rightarrow>
           bind_res (topic_list_is_in_list s topic a) (\<lambda>found.
             if found = 1 then Inr (0, s)
             else (case malloc_addr ok s of
                     (None, s) \<Rightarrow> Inr (- 1, s)
                   | (Some t, s) \<Rightarrow>
                       (case malloc_addr ok s of
                          (None, s) \<Rightarrow> Inr (- 1, s)
                        | (Some n, s) \<Rightarrow>
                            bind_res (topics_head s a) (\<lambda>first.
                            bind_res (SLIST_INSERT_HEAD set_next_topic
                                ((tops s)(t \<mapsto> \<lparr>td_topic = Owned topic, next_topic = None\<rparr>)) first t)
                              (\<lambda>(h, first). Inr (1, set_topics_head a first (s\<lparr>tops := h\<rparr>))))))))"

text \<open>\<open>free (t->topic); SLIST_REMOVE (topics, t, ...); free (t)\<close>\<close>

definition drop_topic :: "nat \<Rightarrow> nat \<Rightarrow> mlist \<Rightarrow> mlist res" where
  "drop_topic a t s =
     (case tops s t of
        None \<Rightarrow> Inl Use_After_Free
      | Some d \<Rightarrow>
          bind_res (free_str (td_topic d)) (\<lambda>p.
          bind_res (topics_head s a) (\<lambda>first.
          bind_res (SLIST_REMOVE next_topic set_next_topic (fuel_of s)
              ((tops s)(t \<mapsto> d\<lparr>td_topic := p\<rparr>)) first t)
            (\<lambda>(h, first). Inr (set_topics_head a first (s\<lparr>tops := h(t := None)\<rparr>))))))"

text \<open>\<open>SLIST_FOREACH\<close> reads the link of the node that the body has just freed.\<close>

definition topic_list_del_all :: "nat \<Rightarrow> mlist \<Rightarrow> (int \<times> mlist) res" where
  "topic_list_del_all a s =
     bind_res (topics_head s a) (\<lambda>first.
     bind_res (SLIST_FOREACH tops next_topic (drop_topic a) (fuel_of s) first s) (\<lambda>s. Inr (- 1, s)))"

definition topic_list_del :: "string \<Rightarrow> int \<Rightarrow> mlist \<Rightarrow> (int \<times> mlist) res" where
  "topic_list_del topic mod_id s =
     bind_res (module_list_get_topic_list_by_id s mod_id) (\<lambda>r.
       case r of None \<Rightarrow> Inr (- 1, s)
       | Some a \<Rightarrow>
           bind_res (find_topic s topic a) (\<lambda>r.
             case r of None \<Rightarrow> Inr (- 1, s)
             | Some t \<Rightarrow> bind_res (drop_topic a t s) (\<lambda>s. Inr (0, s))))"

definition module_list_del_by_id :: "int \<Rightarrow> mlist \<Rightarrow> (int \<times> mlist) res" where
  "module_list_del_by_id mod_id s =
     bind_res (find_module s mod_id) (\<lambda>r.
       case r of None \<Rightarrow> Inr (- 1, s)
       | Some a \<Rightarrow>
           (case mods s a of
              None \<Rightarrow> Inl Use_After_Free
            | Some m \<Rightarrow>
                bind_res (free_str (md_name m)) (\<lambda>p.
                bind_res (topic_list_del_all a (s\<lparr>mods := (mods s)(a \<mapsto> m\<lparr>md_name := p\<rparr>)\<rparr>)) (\<lambda>(_, s).
                bind_res (SLIST_REMOVE next_mod set_next_mod (fuel_of s) (mods s) (modules s) a)
                  (\<lambda>(h, first). Inr (0, s\<lparr>mods := h(a := None), modules := first\<rparr>))))))"

section \<open>The modules a state represents\<close>

text \<open>One listed module with the addresses of its node and of its topic nodes.\<close>

record gmod =
  gm_addr :: nat
  gm_id :: int
  gm_name :: string
  gm_tops :: "(nat \<times> string) list"

definition topic_rep :: "mlist \<Rightarrow> nat \<times> string \<Rightarrow> bool" where
  "topic_rep s tx \<longleftrightarrow> (\<exists>d. tops s (fst tx) = Some d \<and> td_topic d = Owned (snd tx))"

definition mod_rep :: "mlist \<Rightarrow> gmod \<Rightarrow> bool" where
  "mod_rep s g \<longleftrightarrow>
     (\<exists>m. mods s (gm_addr g) = Some m \<and> md_id m = gm_id g \<and> md_name m = Owned (gm_name g)
        \<and> slist_at next_topic (tops s) (md_topics m) (map fst (gm_tops g)))
     \<and> (\<forall>tx \<in> set (gm_tops g). topic_rep s tx)"

definition mlist_rep :: "mlist \<Rightarrow> gmod list \<Rightarrow> bool" where
  "mlist_rep s G \<longleftrightarrow>
     slist_at next_mod (mods s) (modules s) (map gm_addr G)
     \<and> (\<forall>g \<in> set G. mod_rep s g)
     \<and> (\<forall>g \<in> set G. \<forall>g' \<in> set G. gm_addr g \<noteq> gm_addr g' \<longrightarrow> fst ` set (gm_tops g) \<inter> fst ` set (gm_tops g') = {})
     \<and> (\<forall>a. mods s a \<noteq> None \<longrightarrow> a < brk s) \<and> (\<forall>t. tops s t \<noteq> None \<longrightarrow> t < brk s)"

type_synonym amod = "int \<times> string \<times> string list"

definition registry :: "gmod list \<Rightarrow> amod list" where
  "registry G = map (\<lambda>g. (gm_id g, gm_name g, map snd (gm_tops g))) G"

definition represents :: "mlist \<Rightarrow> amod list \<Rightarrow> bool" where
  "represents s l \<longleftrightarrow> (\<exists>G. mlist_rep s G \<and> registry G = l)"

text \<open>The operations on the list of modules.\<close>

definition reg_find :: "int \<Rightarrow> amod list \<Rightarrow> amod option" where
  "reg_find i l = List.find (\<lambda>m. fst m = i) l"

fun reg_del :: "int \<Rightarrow> amod list \<Rightarrow> amod list" where
  "reg_del i [] = []"
| "reg_del i (m # l) = (if fst m = i then l else m # reg_del i l)"

fun reg_set_topics :: "int \<Rightarrow> string list \<Rightarrow> amod list \<Rightarrow> amod list" where
  "reg_set_topics i ts [] = []"
| "reg_set_topics i ts ((j, n, us) # l) = (if j = i then (j, n, ts) # l else (j, n, us) # reg_set_topics i ts l)"

lemma distinct_below: "distinct xs \<Longrightarrow> (\<forall>x \<in> set xs. x < n) \<Longrightarrow> length xs \<le> (n::nat)"
  by (metis card_lessThan card_mono distinct_card finite_lessThan lessThan_iff subsetI)

lemma find_map: "List.find q (map f xs) = map_option f (List.find (\<lambda>x. q (f x)) xs)"
  by (induction xs) auto

lemma find_cong_set: "(\<And>x. x \<in> set xs \<Longrightarrow> q x = r x) \<Longrightarrow> List.find q xs = List.find r xs"
  by (induction xs) auto

lemma find_in: "List.find q xs = Some x \<Longrightarrow> x \<in> set xs \<and> q x"
  by (induction xs) (auto split: if_splits)

lemma mlist_rep_distinct: "mlist_rep s G \<Longrightarrow> distinct (map gm_addr G)"
  unfolding mlist_rep_def by (blast intro: slist_at_distinct)

lemma mlist_rep_addr_eq: "mlist_rep s G \<Longrightarrow> g \<in> set G \<Longrightarrow> g' \<in> set G \<Longrightarrow> gm_addr g = gm_addr g' \<Longrightarrow> g = g'"
  using mlist_rep_distinct [of s G] by (auto simp: distinct_map inj_on_def)

lemma rep_topics_disjoint:
  "mlist_rep s G \<Longrightarrow> g \<in> set G \<Longrightarrow> g' \<in> set G \<Longrightarrow> gm_addr g' \<noteq> gm_addr g \<Longrightarrow>
   t \<in> fst ` set (gm_tops g') \<Longrightarrow> t \<notin> fst ` set (gm_tops g)"
  unfolding mlist_rep_def by blast

lemma mlist_rep_fuel: "mlist_rep s G \<Longrightarrow> length G < fuel_of s"
proof -
  assume r: "mlist_rep s G"
  then have "\<forall>a \<in> set (map gm_addr G). a < brk s"
    by (auto simp: mlist_rep_def mod_rep_def)
  with mlist_rep_distinct [OF r] have "length (map gm_addr G) \<le> brk s" by (rule distinct_below)
  then show ?thesis by (simp add: fuel_of_def)
qed

lemma mod_rep_topics_distinct: "mod_rep s g \<Longrightarrow> distinct (map fst (gm_tops g))"
  unfolding mod_rep_def by (blast intro: slist_at_distinct)

lemma mlist_rep_topic_fuel: "mlist_rep s G \<Longrightarrow> g \<in> set G \<Longrightarrow> length (gm_tops g) < fuel_of s"
proof -
  assume r: "mlist_rep s G" and g: "g \<in> set G"
  then have m: "mod_rep s g" by (auto simp: mlist_rep_def)
  have "t < brk s" if "t \<in> fst ` set (gm_tops g)" for t
  proof -
    from that m have "tops s t \<noteq> None" by (auto simp: mod_rep_def topic_rep_def)
    with r show ?thesis by (auto simp: mlist_rep_def)
  qed
  then have "\<forall>t \<in> set (map fst (gm_tops g)). t < brk s" by auto
  with mod_rep_topics_distinct [OF m] have "length (map fst (gm_tops g)) \<le> brk s" by (rule distinct_below)
  then show ?thesis by (simp add: fuel_of_def)
qed

section \<open>Searching\<close>

lemma find_module_rep:
  assumes "mlist_rep s G"
  shows "find_module s i = Inr (map_option gm_addr (List.find (\<lambda>g. gm_id g = i) G))"
proof -
  let ?q = "\<lambda>a. \<exists>m. mods s a = Some m \<and> md_id m = i"
  have "find_module s i = Inr (List.find ?q (map gm_addr G))"
    unfolding find_module_def using assms mlist_rep_fuel [OF assms]
    by (intro find_at) (auto simp: mlist_rep_def)
  also have "List.find (\<lambda>g. ?q (gm_addr g)) G = List.find (\<lambda>g. gm_id g = i) G"
    using assms by (intro find_cong_set) (auto simp: mlist_rep_def mod_rep_def)
  then have "List.find ?q (map gm_addr G) = map_option gm_addr (List.find (\<lambda>g. gm_id g = i) G)"
    by (simp add: find_map)
  finally show ?thesis .
qed

lemma find_topic_rep:
  assumes "mlist_rep s G" and "g \<in> set G"
  shows "find_topic s x (gm_addr g) = Inr (map_option fst (List.find (\<lambda>tx. snd tx = x) (gm_tops g)))"
proof -
  let ?q = "\<lambda>t. \<exists>d. tops s t = Some d \<and> td_topic d = Owned x"
  from assms obtain m where m: "mods s (gm_addr g) = Some m"
      "slist_at next_topic (tops s) (md_topics m) (map fst (gm_tops g))"
    and rep: "\<forall>tx \<in> set (gm_tops g). topic_rep s tx"
    by (auto simp: mlist_rep_def mod_rep_def)
  have "SLIST_FOREACH_find next_topic (\<lambda>t. bind_res (deref_str (td_topic t)) (\<lambda>y. Inr (y = x)))
      (fuel_of s) (tops s) (md_topics m) = Inr (List.find ?q (map fst (gm_tops g)))"
    using m rep mlist_rep_topic_fuel [OF assms]
    by (intro find_at) (auto simp: topic_rep_def deref_str_def)
  moreover have "List.find (\<lambda>tx. ?q (fst tx)) (gm_tops g) = List.find (\<lambda>tx. snd tx = x) (gm_tops g)"
    using rep by (intro find_cong_set) (auto simp: topic_rep_def)
  ultimately show ?thesis using m(1)
    by (simp add: find_topic_def topics_head_def find_map)
qed

lemma registry_find:
  "reg_find i (registry G) = map_option (\<lambda>g. (gm_id g, gm_name g, map snd (gm_tops g))) (List.find (\<lambda>g. gm_id g = i) G)"
  by (simp add: reg_find_def registry_def find_map)

section \<open>Updating\<close>

lemma set_next_topic_data: "set_next_topic x a = set_next_topic y b \<Longrightarrow> td_topic a = td_topic b"
  by (cases a; cases b) (simp add: set_next_topic_def)

definition upd_tops :: "nat \<Rightarrow> (nat \<times> string) list \<Rightarrow> gmod list \<Rightarrow> gmod list" where
  "upd_tops a ts G = map (\<lambda>g. if gm_addr g = a then g\<lparr>gm_tops := ts\<rparr> else g) G"

lemma upd_tops_addr [simp]: "map gm_addr (upd_tops a ts G) = map gm_addr G"
  by (simp add: upd_tops_def)

text \<open>
  Replacing the topic nodes of one module: the heap may change at nodes that no other module
  uses, and what the new head leads to are the new topics.
\<close>

lemma rep_set_topics:
  assumes rep: "mlist_rep s G" and g: "g \<in> set G" and m: "mods s (gm_addr g) = Some m"
    and new: "slist_at next_topic h p (map fst ts)"
      "\<And>tx. tx \<in> set ts \<Longrightarrow> \<exists>d. h (fst tx) = Some d \<and> td_topic d = Owned (snd tx)"
    and keep: "\<And>g' t. g' \<in> set G \<Longrightarrow> gm_addr g' \<noteq> gm_addr g \<Longrightarrow> t \<in> fst ` set (gm_tops g') \<Longrightarrow>
      h t = tops s t \<and> t \<notin> fst ` set ts"
    and bound: "\<And>t. h t \<noteq> None \<Longrightarrow> t < b" "brk s \<le> b"
  shows "mlist_rep (set_topics_head (gm_addr g) p (s\<lparr>tops := h, brk := b\<rparr>)) (upd_tops (gm_addr g) ts G)"
proof -
  let ?s = "set_topics_head (gm_addr g) p (s\<lparr>tops := h, brk := b\<rparr>)"
  have mods: "mods ?s a = (if a = gm_addr g then Some (m\<lparr>md_topics := p\<rparr>) else mods s a)" for a
    using m by (simp add: set_topics_head_def)
  have "slist_at next_mod (mods ?s) q as = slist_at next_mod (mods s) q as" for q as
    using m by (induction as arbitrary: q) (auto simp: set_topics_head_def)
  moreover have "modules ?s = modules s" by (simp add: set_topics_head_def)
  ultimately have list: "slist_at next_mod (mods ?s) (modules ?s) (map gm_addr (upd_tops (gm_addr g) ts G))"
    using rep by (simp add: mlist_rep_def)
  have each: "mod_rep ?s (if gm_addr g' = gm_addr g then g'\<lparr>gm_tops := ts\<rparr> else g')" if g': "g' \<in> set G" for g'
  proof (cases "gm_addr g' = gm_addr g")
    case True
    then have "g' = g" using mlist_rep_addr_eq [OF rep g' g] by simp
    with rep g m new show ?thesis
      by (auto simp: mod_rep_def mlist_rep_def topic_rep_def set_topics_head_def)
  next
    case False
    have same: "h t = tops s t" if "t \<in> fst ` set (gm_tops g')" for t
      using keep [OF g' False that] by simp
    then have "slist_at next_topic h q (map fst (gm_tops g')) = slist_at next_topic (tops s) q (map fst (gm_tops g'))" for q
      by (intro slist_at_frame) auto
    with False rep g' same show ?thesis
      by (auto simp: mod_rep_def mlist_rep_def topic_rep_def set_topics_head_def)
  qed
  have disj: "fst ` set (gm_tops g1) \<inter> fst ` set (gm_tops g2) = {}"
    if in12: "g1 \<in> set (upd_tops (gm_addr g) ts G)" "g2 \<in> set (upd_tops (gm_addr g) ts G)"
      and ne: "gm_addr g1 \<noteq> gm_addr g2" for g1 g2
  proof -
    from in12 obtain f1 f2 where f: "f1 \<in> set G" "f2 \<in> set G"
      "g1 = (if gm_addr f1 = gm_addr g then f1\<lparr>gm_tops := ts\<rparr> else f1)"
      "g2 = (if gm_addr f2 = gm_addr g then f2\<lparr>gm_tops := ts\<rparr> else f2)"
      by (auto simp: upd_tops_def)
    consider "gm_addr f1 = gm_addr g" | "gm_addr f2 = gm_addr g"
      | "gm_addr f1 \<noteq> gm_addr g" "gm_addr f2 \<noteq> gm_addr g" by blast
    then show ?thesis
    proof cases
      case 1
      with f ne keep [OF f(2)] show ?thesis by (auto split: if_splits)
    next
      case 2
      with f ne keep [OF f(1)] show ?thesis by (auto split: if_splits)
    next
      case 3
      with f ne rep show ?thesis by (simp add: mlist_rep_def)
    qed
  qed
  have "a < b" if "mods ?s a \<noteq> None" for a
  proof -
    from that m mods have "mods s a \<noteq> None" by (auto split: if_splits)
    with rep bound(2) show ?thesis by (fastforce simp: mlist_rep_def)
  qed
  moreover have "brk ?s = b" "tops ?s = h" by (simp_all add: set_topics_head_def)
  moreover have "\<forall>g' \<in> set (upd_tops (gm_addr g) ts G). mod_rep ?s g'"
  proof
    fix g' assume "g' \<in> set (upd_tops (gm_addr g) ts G)"
    then obtain f where "f \<in> set G" "g' = (if gm_addr f = gm_addr g then f\<lparr>gm_tops := ts\<rparr> else f)"
      unfolding upd_tops_def set_map by blast
    with each [of f] show "mod_rep ?s g'" by simp
  qed
  ultimately show ?thesis
    unfolding mlist_rep_def using list disj bound(1) by simp
qed

lemma brk_tops_commute: "s\<lparr>brk := b, tops := h\<rparr> = s\<lparr>tops := h, brk := b\<rparr>"
  by (cases s) simp

lemma brk_bump:
  assumes "mlist_rep s G" and "brk s \<le> b"
  shows "mlist_rep (s\<lparr>brk := b\<rparr>) G"
proof -
  have "mod_rep (s\<lparr>brk := b\<rparr>) g = mod_rep s g" for g
    by (simp add: mod_rep_def topic_rep_def)
  with assms show ?thesis unfolding mlist_rep_def by (simp add: order_less_le_trans [OF _ assms(2)])
qed

lemma add_rep:
  assumes "mlist_rep s G"
  shows "\<exists>r s'. module_list_add ok i n s = Inr (r, s') \<and>
    (if ok (brk s) \<and> ok (Suc (brk s))
     then r = 0 \<and> mlist_rep s' (\<lparr>gm_addr = brk s, gm_id = i, gm_name = n, gm_tops = []\<rparr> # G)
     else r = - 1 \<and> mlist_rep s' G)"
proof (cases "ok (brk s) \<and> ok (Suc (brk s))")
  case False
  with brk_bump [OF assms, of "Suc (brk s)"] brk_bump [OF assms, of "Suc (Suc (brk s))"] show ?thesis
    by (auto simp: module_list_add_def malloc_addr_def)
next
  case True
  let ?a = "brk s" and ?m = "\<lparr>md_id = i, md_name = Owned n, md_topics = SLIST_INIT, next_mod = None\<rparr>"
  let ?s = "s\<lparr>brk := Suc (Suc (brk s)), mods := (mods s)(?a \<mapsto> set_next_mod (modules s) ?m), modules := Some ?a\<rparr>"
  have list: "slist_at next_mod (mods s) (modules s) (map gm_addr G)"
    using assms by (simp add: mlist_rep_def)
  have new: "?a \<notin> set (map gm_addr G)"
  proof
    assume "?a \<in> set (map gm_addr G)"
    then have "mods s ?a \<noteq> None" using slist_at_alloc [OF list] by auto
    with assms show False by (auto simp: mlist_rep_def)
  qed
  with list have list1: "slist_at next_mod ((mods s)(?a \<mapsto> ?m)) (modules s) (map gm_addr G)"
    by (simp del: set_map)
  note ins = mod_link.insert_head_at [OF list1 new, of ?m]
  have "module_list_add ok i n s = Inr (0, ?s)"
    using True ins(1) by (simp add: module_list_add_def malloc_addr_def)
  moreover have "slist_at next_mod (mods ?s) (modules ?s) (?a # map gm_addr G)"
    using ins(2) by simp
  moreover have "mod_rep ?s g" if g: "g \<in> set G" for g
  proof -
    have "gm_addr g \<noteq> ?a" using imageI [OF g, of gm_addr] new by (metis set_map)
    with g assms show ?thesis by (simp add: mlist_rep_def mod_rep_def topic_rep_def)
  qed
  ultimately show ?thesis
    using True assms new
    by (fastforce simp: mlist_rep_def mod_rep_def SLIST_INIT_def set_next_mod_def less_Suc_eq)
qed

lemma drop_topic_rep:
  assumes "mlist_rep s G" and "g \<in> set G" and "tx \<in> set (gm_tops g)"
  shows "\<exists>s'. drop_topic (gm_addr g) (fst tx) s = Inr s'
    \<and> mlist_rep s' (upd_tops (gm_addr g) (filter (\<lambda>u. fst u \<noteq> fst tx) (gm_tops g)) G)
    \<and> tops s' (fst tx) = None"
proof -
  let ?t = "fst tx" and ?ts = "filter (\<lambda>u. fst u \<noteq> fst tx) (gm_tops g)"
  from assms obtain m where m: "mods s (gm_addr g) = Some m"
      "slist_at next_topic (tops s) (md_topics m) (map fst (gm_tops g))"
    and rep: "\<forall>tx \<in> set (gm_tops g). topic_rep s tx"
    by (auto simp: mlist_rep_def mod_rep_def)
  from rep assms(3) obtain d where d: "tops s ?t = Some d" "td_topic d = Owned (snd tx)"
    by (auto simp: topic_rep_def)
  let ?h = "(tops s)(?t \<mapsto> d\<lparr>td_topic := Dangling\<rparr>)"
  have "slist_at next_topic ?h q as = slist_at next_topic (tops s) q as" for q as
    using d(1) by (induction as arbitrary: q) auto
  with m(2) have list: "slist_at next_topic ?h (md_topics m) (map fst (gm_tops g))" by simp
  obtain h' p' where rm: "SLIST_REMOVE next_topic set_next_topic (fuel_of s) ?h (md_topics m) ?t = Inr (h', p')"
    and l': "slist_at next_topic h' p' (remove1 ?t (map fst (gm_tops g)))"
    and out: "\<forall>b. b \<notin> set (map fst (gm_tops g)) \<longrightarrow> h' b = ?h b"
    and data: "\<forall>b. map_option (set_next_topic None) (h' b) = map_option (set_next_topic None) (?h b)"
    using topic_link.remove_at [OF list, of ?t "fuel_of s"] assms(3) mlist_rep_topic_fuel [OF assms(1,2)] by force
  have dist: "distinct (map fst (gm_tops g))" using m(2) by (rule slist_at_distinct)
  have rest: "remove1 ?t (map fst (gm_tops g)) = map fst ?ts"
    using dist by (simp add: distinct_remove1_removeAll removeAll_filter_not_eq filter_map o_def eq_commute)
  let ?s = "set_topics_head (gm_addr g) p' (s\<lparr>tops := h'(?t := None)\<rparr>)"
  have "drop_topic (gm_addr g) ?t s = Inr ?s"
    using d m(1) rm by (simp add: drop_topic_def free_str_def topics_head_def)
  moreover have "mlist_rep (set_topics_head (gm_addr g) p' (s\<lparr>tops := h'(?t := None), brk := brk s\<rparr>)) (upd_tops (gm_addr g) ?ts G)"
  proof (rule rep_set_topics [OF assms(1,2) m(1)])
    show "slist_at next_topic (h'(?t := None)) p' (map fst ?ts)"
      using l' rest by (subst slist_at_upd_other) auto
  next
    fix u assume u: "u \<in> set ?ts"
    with rep obtain e where "tops s (fst u) = Some e" "td_topic e = Owned (snd u)"
      by (auto simp: topic_rep_def)
    with data [rule_format, of "fst u"] u
    show "\<exists>d. (h'(?t := None)) (fst u) = Some d \<and> td_topic d = Owned (snd u)"
      by (auto dest: set_next_topic_data)
  next
    fix g' t assume g': "g' \<in> set G" "gm_addr g' \<noteq> gm_addr g" "t \<in> fst ` set (gm_tops g')"
    then have "t \<notin> fst ` set (gm_tops g)" by (rule rep_topics_disjoint [OF assms(1,2)])
    with out assms(3) show "(h'(?t := None)) t = tops s t \<and> t \<notin> fst ` set ?ts" by auto
  next
    fix t assume "(h'(?t := None)) t \<noteq> None"
    with data [rule_format, of t] have "tops s t \<noteq> None"
      using \<open>(h'(?t := None)) t \<noteq> None\<close> by (cases "tops s t") (auto split: if_splits)
    with assms(1) show "t < brk s" by (auto simp: mlist_rep_def)
  qed simp
  ultimately show ?thesis by (auto simp: set_topics_head_def)
qed

lemma check_and_add_rep:
  assumes "mlist_rep s G" and "List.find (\<lambda>g. gm_id g = i) G = Some g"
  shows "\<exists>r s'. topic_list_check_and_add ok x i s = Inr (r, s') \<and>
    (if x \<in> snd ` set (gm_tops g) then r = 0 \<and> s' = s
     else if ok (brk s) \<and> ok (Suc (brk s))
     then r = 1 \<and> mlist_rep s' (upd_tops (gm_addr g) ((brk s, x) # gm_tops g) G)
     else r = - 1 \<and> mlist_rep s' G)"
proof -
  have g: "g \<in> set G" using find_in [OF assms(2)] by simp
  have head: "module_list_get_topic_list_by_id s i = Inr (Some (gm_addr g))"
    by (simp add: module_list_get_topic_list_by_id_def find_module_rep [OF assms(1)] assms(2))
  have "topic_list_is_in_list s x (gm_addr g) = Inr (if x \<in> snd ` set (gm_tops g) then 1 else 0)"
    by (force simp: topic_list_is_in_list_def find_topic_rep [OF assms(1) g] find_None_iff)
  note sim = topic_list_check_and_add_def head this malloc_addr_def
  from assms(1) g obtain m where m: "mods s (gm_addr g) = Some m"
      and list: "slist_at next_topic (tops s) (md_topics m) (map fst (gm_tops g))"
    and rep: "\<forall>tx \<in> set (gm_tops g). topic_rep s tx"
    by (auto simp: mlist_rep_def mod_rep_def)
  have fresh: "tops s (brk s) = None" using assms(1) by (auto simp: mlist_rep_def)
  have new: "brk s \<notin> set (map fst (gm_tops f))" if "f \<in> set G" for f
  proof
    assume "brk s \<in> set (map fst (gm_tops f))"
    with that assms(1) have "\<exists>d. tops s (brk s) = Some d" by (fastforce simp: mlist_rep_def mod_rep_def topic_rep_def)
    with fresh show False by simp
  qed
  consider "x \<in> snd ` set (gm_tops g)" | "x \<notin> snd ` set (gm_tops g)" "\<not> (ok (brk s) \<and> ok (Suc (brk s)))"
    | "x \<notin> snd ` set (gm_tops g)" "ok (brk s)" "ok (Suc (brk s))" by blast
  then show ?thesis
  proof cases
    case 1
    then show ?thesis by (simp add: sim)
  next
    case 2
    with brk_bump [OF assms(1), of "Suc (brk s)"] brk_bump [OF assms(1), of "Suc (Suc (brk s))"]
    show ?thesis by (auto simp: sim)
  next
    case 3
    let ?d = "\<lparr>td_topic = Owned x, next_topic = None\<rparr>"
    let ?h = "(tops s)(brk s \<mapsto> set_next_topic (md_topics m) ?d)"
    have "slist_at next_topic ((tops s)(brk s \<mapsto> ?d)) (md_topics m) (map fst (gm_tops g))"
      using list new [OF g] by simp
    note ins = topic_link.insert_head_at [OF this new [OF g], of ?d]
    have "topic_list_check_and_add ok x i s
        = Inr (1, set_topics_head (gm_addr g) (Some (brk s)) (s\<lparr>tops := ?h, brk := Suc (Suc (brk s))\<rparr>))"
      using 3 m ins(1) by (simp add: sim topics_head_def brk_tops_commute)
    moreover have "mlist_rep (set_topics_head (gm_addr g) (Some (brk s)) (s\<lparr>tops := ?h, brk := Suc (Suc (brk s))\<rparr>))
        (upd_tops (gm_addr g) ((brk s, x) # gm_tops g) G)"
    proof (rule rep_set_topics [OF assms(1) g m])
      show "slist_at next_topic ?h (Some (brk s)) (map fst ((brk s, x) # gm_tops g))"
        using ins(2) by simp
    next
      fix tx assume "tx \<in> set ((brk s, x) # gm_tops g)"
      with rep fresh show "\<exists>d. ?h (fst tx) = Some d \<and> td_topic d = Owned (snd tx)"
        by (auto simp: topic_rep_def set_next_topic_def)
    next
      fix f t assume f: "f \<in> set G" "gm_addr f \<noteq> gm_addr g" "t \<in> fst ` set (gm_tops f)"
      then have "t \<notin> fst ` set (gm_tops g)" by (rule rep_topics_disjoint [OF assms(1) g])
      moreover have "t \<noteq> brk s" using new [OF f(1)] f(3) by (metis set_map)
      ultimately show "?h t = tops s t \<and> t \<notin> fst ` set ((brk s, x) # gm_tops g)" by simp
    next
      fix t assume "?h t \<noteq> None"
      with assms(1) show "t < Suc (Suc (brk s))"
        by (cases "t = brk s") (auto simp: mlist_rep_def less_Suc_eq)
    qed simp
    ultimately show ?thesis using 3 by simp
  qed
qed

lemma topic_del_rep:
  assumes "mlist_rep s G" and "List.find (\<lambda>g. gm_id g = i) G = Some g"
    and "List.find (\<lambda>tx. snd tx = x) (gm_tops g) = Some tx"
  shows "\<exists>s'. topic_list_del x i s = Inr (0, s')
    \<and> mlist_rep s' (upd_tops (gm_addr g) (filter (\<lambda>u. fst u \<noteq> fst tx) (gm_tops g)) G)"
proof -
  have g: "g \<in> set G" and tx: "tx \<in> set (gm_tops g)"
    using find_in [OF assms(2)] find_in [OF assms(3)] by simp_all
  show ?thesis using drop_topic_rep [OF assms(1) g tx]
    by (auto simp: topic_list_del_def module_list_get_topic_list_by_id_def find_module_rep [OF assms(1)]
        assms(2,3) find_topic_rep [OF assms(1) g])
qed

section \<open>Removing a module\<close>

lemma del_all_empty:
  "mods s a = Some m \<Longrightarrow> md_topics m = None \<Longrightarrow> topic_list_del_all a s = Inr (- 1, s)"
  by (simp add: topic_list_del_all_def topics_head_def fuel_of_def)

lemma del_all_use_after_free:
  assumes "mlist_rep s G" and "g \<in> set G" and "gm_tops g \<noteq> []"
  shows "topic_list_del_all (gm_addr g) s = Inl Use_After_Free"
proof -
  from assms(3) obtain tx ts where ts: "gm_tops g = tx # ts" by (cases "gm_tops g") auto
  from assms obtain m where m: "mods s (gm_addr g) = Some m" "md_topics m = Some (fst tx)"
    by (auto simp: mlist_rep_def mod_rep_def ts)
  obtain s' where "drop_topic (gm_addr g) (fst tx) s = Inr s'" "tops s' (fst tx) = None"
    using drop_topic_rep [OF assms(1,2), of tx] ts by auto
  with m show ?thesis
    by (simp add: topic_list_del_all_def topics_head_def fuel_of_def SLIST_NEXT_def)
qed

text \<open>The loop that reads the link first removes every topic.\<close>

lemma upd_tops_twice: "upd_tops a ts (upd_tops a us G) = upd_tops a ts G"
  by (simp add: upd_tops_def)

lemma safe_loop_drops:
  "mlist_rep s G \<Longrightarrow> g \<in> set G \<Longrightarrow> mods s (gm_addr g) = Some m \<Longrightarrow> length (gm_tops g) < fuel \<Longrightarrow>
   \<exists>s'. SLIST_FOREACH_SAFE tops next_topic (drop_topic (gm_addr g)) fuel (md_topics m) s = Inr s'
     \<and> mlist_rep s' (upd_tops (gm_addr g) [] G)"
proof (induction "gm_tops g" arbitrary: g G s m fuel)
  case Nil
  have "upd_tops (gm_addr g) [] G = G"
  proof -
    have "f\<lparr>gm_tops := []\<rparr> = f" if "f \<in> set G" "gm_addr f = gm_addr g" for f
      using mlist_rep_addr_eq [OF Nil.prems(1) that(1) Nil.prems(2) that(2)] Nil.hyps by simp
    then show ?thesis by (auto simp: upd_tops_def intro!: map_idI)
  qed
  moreover have "md_topics m = None" using Nil by (auto simp: mlist_rep_def mod_rep_def)
  ultimately show ?case using Nil.prems by (cases fuel) auto
next
  case (Cons tx ts)
  obtain f where f: "fuel = Suc f" using Cons.prems(4) by (cases fuel) auto
  have list: "slist_at next_topic (tops s) (md_topics m) (map fst (tx # ts))"
    using Cons.prems(1-3) Cons.hyps(2) by (fastforce simp: mlist_rep_def mod_rep_def)
  then obtain d where d: "md_topics m = Some (fst tx)" "tops s (fst tx) = Some d"
      "slist_at next_topic (tops s) (next_topic d) (map fst ts)" by auto
  have dist: "fst tx \<notin> fst ` set ts" using slist_at_distinct [OF list] by auto
  have rest: "filter (\<lambda>u. fst u \<noteq> fst tx) (gm_tops g) = ts"
  proof -
    have "\<forall>u \<in> set ts. fst u \<noteq> fst tx" using dist by (metis image_eqI)
    then show ?thesis unfolding Cons.hyps(2) [symmetric] by simp
  qed
  let ?g = "g\<lparr>gm_tops := ts\<rparr>" and ?G = "upd_tops (gm_addr g) ts G"
  obtain s1 where s1: "drop_topic (gm_addr g) (fst tx) s = Inr s1" "mlist_rep s1 ?G"
  proof -
    have "tx \<in> set (gm_tops g)" using Cons.hyps(2) by (metis list.set_intros(1))
    from drop_topic_rep [OF Cons.prems(1,2) this] rest that show ?thesis by auto
  qed
  have g1: "?g \<in> set ?G" using Cons.prems(2) by (auto simp: upd_tops_def)
  obtain m1 where m1: "mods s1 (gm_addr g) = Some m1" "slist_at next_topic (tops s1) (md_topics m1) (map fst ts)"
    using s1(2) g1 by (fastforce simp: mlist_rep_def mod_rep_def)
  have "md_topics m1 = next_topic d"
    using m1(2) d(3) by (cases ts) auto
  then have "\<exists>s'. SLIST_FOREACH_SAFE tops next_topic (drop_topic (gm_addr g)) f (next_topic d) s1 = Inr s'
      \<and> mlist_rep s' (upd_tops (gm_addr g) [] G)"
  proof -
    have "length ts < f" using Cons.prems(4) Cons.hyps(2) [symmetric] f by simp
    with \<open>md_topics m1 = next_topic d\<close> Cons.hyps(1) [of ?g s1 ?G m1 f] s1(2) g1 m1(1) show ?thesis
      by (simp add: upd_tops_twice)
  qed
  with s1(1) d(1,2) f show ?case by (simp add: SLIST_NEXT_def)
qed

lemma rename_topic_ops:
  assumes "mods s a = Some m"
  shows "drop_topic a t (s\<lparr>mods := (mods s)(a \<mapsto> m\<lparr>md_name := p\<rparr>)\<rparr>) =
    bind_res (drop_topic a t s) (\<lambda>s'. Inr (s'\<lparr>mods := (mods s')(a := map_option (\<lambda>m. m\<lparr>md_name := p\<rparr>) (mods s' a))\<rparr>))"
  using assms
  by (cases m; cases s) (auto simp: drop_topic_def topics_head_def set_topics_head_def fuel_of_def bind_res_def
      split: option.splits sum.splits)

lemma del_all_renamed:
  assumes "mlist_rep s G" and "g \<in> set G" and "gm_tops g \<noteq> []" and m: "mods s (gm_addr g) = Some m"
  shows "topic_list_del_all (gm_addr g) (s\<lparr>mods := (mods s)(gm_addr g \<mapsto> m\<lparr>md_name := p\<rparr>)\<rparr>) = Inl Use_After_Free"
proof -
  from assms(3) obtain tx ts where ts: "gm_tops g = tx # ts" by (cases "gm_tops g") auto
  from assms have "md_topics m = Some (fst tx)"
    by (auto simp: mlist_rep_def mod_rep_def ts)
  moreover obtain s' where "drop_topic (gm_addr g) (fst tx) s = Inr s'" "tops s' (fst tx) = None"
    using drop_topic_rep [OF assms(1,2), of tx] ts by auto
  ultimately show ?thesis
    using rename_topic_ops [where s = s and a = "gm_addr g" and m = m and p = p and t = "fst tx"] m
    by (simp add: topic_list_del_all_def topics_head_def fuel_of_def SLIST_NEXT_def)
qed

lemma set_next_mod_data:
  "set_next_mod x a = set_next_mod y b \<Longrightarrow>
   md_id a = md_id b \<and> md_name a = md_name b \<and> md_topics a = md_topics b"
  by (cases a; cases b) (simp add: set_next_mod_def)

text \<open>Unlinking and freeing the node of one module leaves the others as they were.\<close>

lemma removed_rep:
  assumes rep: "mlist_rep s G" and g: "g \<in> set G"
    and l: "slist_at next_mod h p (remove1 (gm_addr g) (map gm_addr G))"
    and data: "\<forall>b. b \<noteq> gm_addr g \<longrightarrow> map_option (set_next_mod None) (h b) = map_option (set_next_mod None) (mods s b)"
  shows "mlist_rep (s\<lparr>mods := h(gm_addr g := None), modules := p\<rparr>) (remove1 g G)"
proof -
  let ?s = "s\<lparr>mods := h(gm_addr g := None), modules := p\<rparr>"
  have dist: "distinct (map gm_addr G)" by (rule mlist_rep_distinct [OF rep])
  then have distG: "distinct G" by (simp add: distinct_map)
  have addrs: "remove1 (gm_addr g) (map gm_addr G) = map gm_addr (remove1 g G)"
    using dist g by (induction G) (auto, metis image_eqI)
  have rest: "set (remove1 g G) = set G - {g}" using distG by simp
  have ne: "gm_addr f \<noteq> gm_addr g" if "f \<in> set (remove1 g G)" for f
    using that rest mlist_rep_addr_eq [OF rep _ g, of f] by auto
  have list: "slist_at next_mod (mods ?s) (modules ?s) (map gm_addr (remove1 g G))"
    using l addrs ne by (simp, subst slist_at_upd_other) fastforce+
  have each: "mod_rep ?s f" if f: "f \<in> set (remove1 g G)" for f
  proof -
    from f rest rep obtain m where m: "mods s (gm_addr f) = Some m" "md_id m = gm_id f" "md_name m = Owned (gm_name f)"
        "slist_at next_topic (tops s) (md_topics m) (map fst (gm_tops f))" "\<forall>tx \<in> set (gm_tops f). topic_rep s tx"
      by (auto simp: mlist_rep_def mod_rep_def)
    from data ne [OF f] m(1) obtain n where n: "h (gm_addr f) = Some n" "set_next_mod None n = set_next_mod None m"
      by fastforce
    with set_next_mod_data [OF n(2)] m ne [OF f] show ?thesis
      by (simp add: mod_rep_def topic_rep_def)
  qed
  have "a < brk s" if "(h(gm_addr g := None)) a \<noteq> None" for a
  proof -
    from that data [rule_format, of a] have "mods s a \<noteq> None" by (cases "mods s a") (auto split: if_splits)
    with rep show ?thesis by (simp add: mlist_rep_def)
  qed
  with list each rep rest show ?thesis by (simp add: mlist_rep_def)
qed

lemma del_rep:
  assumes "mlist_rep s G" and "List.find (\<lambda>g. gm_id g = i) G = Some g"
  shows "if gm_tops g = [] then \<exists>s'. module_list_del_by_id i s = Inr (0, s') \<and> mlist_rep s' (remove1 g G)
    else module_list_del_by_id i s = Inl Use_After_Free"
proof -
  have g: "g \<in> set G" using find_in [OF assms(2)] by simp
  from assms(1) g obtain m where m: "mods s (gm_addr g) = Some m" "md_name m = Owned (gm_name g)"
      and topics: "slist_at next_topic (tops s) (md_topics m) (map fst (gm_tops g))"
    by (auto simp: mlist_rep_def mod_rep_def)
  let ?a = "gm_addr g" and ?m = "m\<lparr>md_name := Dangling\<rparr>"
  let ?s = "s\<lparr>mods := (mods s)(?a \<mapsto> ?m)\<rparr>"
  have start: "module_list_del_by_id i s = bind_res (topic_list_del_all ?a ?s) (\<lambda>(_, s).
      bind_res (SLIST_REMOVE next_mod set_next_mod (fuel_of s) (mods s) (modules s) ?a)
        (\<lambda>(h, first). Inr (0, s\<lparr>mods := h(?a := None), modules := first\<rparr>)))"
    by (simp add: module_list_del_by_id_def find_module_rep [OF assms(1)] assms(2) m free_str_def)
  show ?thesis
  proof (cases "gm_tops g = []")
    case False
    with start del_all_renamed [OF assms(1) g False m(1)] show ?thesis by simp
  next
    case True
    with topics have none: "topic_list_del_all ?a ?s = Inr (- 1, ?s)"
      by (intro del_all_empty [where m = ?m]) auto
    have "slist_at next_mod ((mods s)(?a \<mapsto> ?m)) q as = slist_at next_mod (mods s) q as" for q as
      using m(1) by (induction as arbitrary: q) auto
    with assms(1) have list: "slist_at next_mod (mods ?s) (modules ?s) (map gm_addr G)"
      by (simp add: mlist_rep_def)
    obtain h p where rm: "SLIST_REMOVE next_mod set_next_mod (fuel_of ?s) (mods ?s) (modules ?s) ?a = Inr (h, p)"
      and l: "slist_at next_mod h p (remove1 ?a (map gm_addr G))"
      and data: "\<forall>b. map_option (set_next_mod None) (h b) = map_option (set_next_mod None) (mods ?s b)"
      using mod_link.remove_at [OF list, of ?a "fuel_of ?s"] g mlist_rep_fuel [OF assms(1)]
      by (fastforce simp: fuel_of_def)
    let ?t = "s\<lparr>mods := h(?a := None), modules := p\<rparr>"
    have "module_list_del_by_id i s = Inr (0, ?t)" using start none rm by simp
    moreover have "mlist_rep ?t (remove1 g G)"
      using data by (intro removed_rep [OF assms(1) g l]) auto
    ultimately show ?thesis using True by simp
  qed
qed

section \<open>The registry\<close>

lemma registry_upd_tops:
  assumes "distinct (map gm_addr G)" and "List.find (\<lambda>g. gm_id g = i) G = Some g"
  shows "registry (upd_tops (gm_addr g) ts G) = reg_set_topics i (map snd ts) (registry G)"
  using assms
proof (induction G)
  case (Cons f G)
  show ?case
  proof (cases "gm_id f = i")
    case True
    with Cons.prems have "f = g" and "\<forall>k \<in> set G. gm_addr k \<noteq> gm_addr g" by (auto dest!: bspec simp: image_iff)
    then have "map (\<lambda>k. if gm_addr k = gm_addr g then k\<lparr>gm_tops := ts\<rparr> else k) G = G"
      by (intro map_idI) auto
    with True \<open>f = g\<close> show ?thesis by (simp add: upd_tops_def registry_def)
  next
    case False
    with Cons have "registry (upd_tops (gm_addr g) ts G) = reg_set_topics i (map snd ts) (registry G)"
      and "g \<in> set G" by (auto dest: find_in)
    moreover from this Cons.prems have "gm_addr f \<noteq> gm_addr g" by auto
    ultimately show ?thesis using False by (simp add: upd_tops_def registry_def)
  qed
qed simp

lemma registry_remove1:
  "List.find (\<lambda>g. gm_id g = i) G = Some g \<Longrightarrow> registry (remove1 g G) = reg_del i (registry G)"
  by (induction G) (auto simp: registry_def split: if_splits dest: find_in)

lemma represents_find:
  assumes "represents s l" and "reg_find i l = Some (j, n, ts)"
  obtains G g where "mlist_rep s G" and "registry G = l" and "List.find (\<lambda>g. gm_id g = i) G = Some g"
    and "gm_name g = n" and "map snd (gm_tops g) = ts"
  using assms by (auto simp: represents_def registry_find)

lemma represents_not_found:
  assumes "represents s l" and "reg_find i l = None"
  obtains G where "mlist_rep s G" and "find_module s i = Inr None"
  using assms by (auto simp: represents_def registry_find find_module_rep)

lemma add_represents:
  assumes "represents s l"
  shows "\<exists>r s'. module_list_add ok i n s = Inr (r, s') \<and>
    (if ok (brk s) \<and> ok (Suc (brk s)) then r = 0 \<and> represents s' ((i, n, []) # l) else r = - 1 \<and> represents s' l)"
proof -
  from assms obtain G where G: "mlist_rep s G" "registry G = l" by (auto simp: represents_def)
  from add_rep [OF G(1), of ok i n] obtain r s' where r: "module_list_add ok i n s = Inr (r, s')"
    "if ok (brk s) \<and> ok (Suc (brk s))
     then r = 0 \<and> mlist_rep s' (\<lparr>gm_addr = brk s, gm_id = i, gm_name = n, gm_tops = []\<rparr> # G)
     else r = - 1 \<and> mlist_rep s' G" by blast
  have "registry (\<lparr>gm_addr = brk s, gm_id = i, gm_name = n, gm_tops = []\<rparr> # G) = (i, n, []) # l"
    using G(2) by (simp add: registry_def)
  with r G(2) show ?thesis
    by (auto simp: represents_def split: if_splits)
qed

lemma check_and_add_represents:
  assumes "represents s l"
  shows "\<exists>r s'. topic_list_check_and_add ok x i s = Inr (r, s') \<and>
    (case reg_find i l of
       None \<Rightarrow> r = - 1 \<and> s' = s
     | Some (_, _, ts) \<Rightarrow>
         if x \<in> set ts then r = 0 \<and> s' = s
         else if ok (brk s) \<and> ok (Suc (brk s)) then r = 1 \<and> represents s' (reg_set_topics i (x # ts) l)
         else r = - 1 \<and> represents s' l)"
proof (cases "reg_find i l")
  case None
  with assms show ?thesis
    by (auto elim!: represents_not_found
        simp: topic_list_check_and_add_def module_list_get_topic_list_by_id_def)
next
  case (Some m)
  obtain j n ts where m: "m = (j, n, ts)" by (cases m)
  from represents_find [OF assms Some [unfolded m]] obtain G g
    where G: "mlist_rep s G" "registry G = l" and g: "List.find (\<lambda>g. gm_id g = i) G = Some g" "map snd (gm_tops g) = ts"
    by blast
  have reg: "registry (upd_tops (gm_addr g) ((brk s, x) # gm_tops g) G) = reg_set_topics i (x # ts) l"
    using registry_upd_tops [OF mlist_rep_distinct [OF G(1)] g(1)] g(2) G(2) by simp
  have "set ts = snd ` set (gm_tops g)" using g(2) by (metis set_map)
  with check_and_add_rep [OF G(1) g(1), of ok x] reg G(2) show ?thesis
    by (auto simp: Some m represents_def split: if_splits)
qed

lemma name_represents:
  assumes "represents s l"
  shows "module_list_get_name_by_id s i = Inr (case reg_find i l of None \<Rightarrow> Null_Ptr | Some (_, n, _) \<Rightarrow> Owned n)"
proof -
  from assms obtain G where G: "mlist_rep s G" "registry G = l" by (auto simp: represents_def)
  show ?thesis
  proof (cases "List.find (\<lambda>g. gm_id g = i) G")
    case None
    with G show ?thesis
      by (auto simp: module_list_get_name_by_id_def find_module_rep registry_find [of i G, unfolded G(2)])
  next
    case (Some g)
    with G(1) have "mod_rep s g" by (auto simp: mlist_rep_def dest: find_in)
    with G Some show ?thesis
      by (auto simp: module_list_get_name_by_id_def find_module_rep registry_find [of i G, unfolded G(2)] mod_rep_def)
  qed
qed

lemma del_represents:
  assumes "represents s l"
  shows "case reg_find i l of
      None \<Rightarrow> module_list_del_by_id i s = Inr (- 1, s)
    | Some (_, _, ts) \<Rightarrow>
        if ts = [] then \<exists>s'. module_list_del_by_id i s = Inr (0, s') \<and> represents s' (reg_del i l)
        else module_list_del_by_id i s = Inl Use_After_Free"
proof (cases "reg_find i l")
  case None
  with assms show ?thesis
    by (auto elim!: represents_not_found simp: module_list_del_by_id_def)
next
  case (Some m)
  obtain j n ts where m: "m = (j, n, ts)" by (cases m)
  from represents_find [OF assms Some [unfolded m]] obtain G g
    where G: "mlist_rep s G" "registry G = l" and g: "List.find (\<lambda>g. gm_id g = i) G = Some g" "map snd (gm_tops g) = ts"
    by blast
  have "ts = [] \<longleftrightarrow> gm_tops g = []" using g(2) by auto
  with del_rep [OF G(1) g(1)] registry_remove1 [OF g(1)] G(2) show ?thesis
    by (auto simp: Some m represents_def split: if_splits)
qed

lemma filter_first_topic:
  "List.find (\<lambda>tx. snd tx = x) xs = Some tx \<Longrightarrow> distinct (map fst xs) \<Longrightarrow>
   map snd (filter (\<lambda>u. fst u \<noteq> fst tx) xs) = remove1 x (map snd xs)"
proof (induction xs)
  case (Cons u xs)
  show ?case
  proof (cases "snd u = x")
    case True
    with Cons.prems have "filter (\<lambda>v. fst v \<noteq> fst tx) xs = xs"
      by (intro filter_True) (auto simp: image_iff)
    with True Cons.prems show ?thesis by auto
  next
    case False
    with Cons.prems have tx: "tx \<in> set xs" by (auto dest: find_in)
    with Cons.prems have "fst u \<noteq> fst tx" by (auto simp: image_iff)
    with False Cons show ?thesis by auto
  qed
qed simp

lemma topic_del_represents:
  assumes "represents s l"
  shows "case reg_find i l of
      None \<Rightarrow> topic_list_del x i s = Inr (- 1, s)
    | Some (_, _, ts) \<Rightarrow>
        if x \<in> set ts then \<exists>s'. topic_list_del x i s = Inr (0, s') \<and> represents s' (reg_set_topics i (remove1 x ts) l)
        else topic_list_del x i s = Inr (- 1, s)"
proof (cases "reg_find i l")
  case None
  with assms show ?thesis
    by (auto elim!: represents_not_found
        simp: topic_list_del_def module_list_get_topic_list_by_id_def)
next
  case (Some m)
  obtain j n ts where m: "m = (j, n, ts)" by (cases m)
  from represents_find [OF assms Some [unfolded m]] obtain G g
    where G: "mlist_rep s G" "registry G = l" and g: "List.find (\<lambda>g. gm_id g = i) G = Some g" "map snd (gm_tops g) = ts"
    by blast
  have g': "g \<in> set G" using find_in [OF g(1)] by simp
  have ts: "set ts = snd ` set (gm_tops g)" using g(2) by (metis set_map)
  show ?thesis
  proof (cases "List.find (\<lambda>tx. snd tx = x) (gm_tops g)")
    case None
    then have "x \<notin> set ts" unfolding ts by (auto simp: find_None_iff)
    with None show ?thesis
      by (simp add: Some m topic_list_del_def module_list_get_topic_list_by_id_def find_module_rep [OF G(1)] g(1)
          find_topic_rep [OF G(1) g'])
  next
    case (Some tx)
    then have "x \<in> set ts" unfolding ts by (auto dest: find_in)
    have "mod_rep s g" using G(1) g' by (simp add: mlist_rep_def)
    then have "map snd (filter (\<lambda>u. fst u \<noteq> fst tx) (gm_tops g)) = remove1 x ts"
      using filter_first_topic [OF Some] mod_rep_topics_distinct g(2) by blast
    with registry_upd_tops [OF mlist_rep_distinct [OF G(1)] g(1)] G(2)
    have "registry (upd_tops (gm_addr g) (filter (\<lambda>u. fst u \<noteq> fst tx) (gm_tops g)) G) = reg_set_topics i (remove1 x ts) l"
      by simp
    with topic_del_rep [OF G(1) g(1) Some] \<open>x \<in> set ts\<close> show ?thesis
      by (auto simp: \<open>reg_find i l = Some m\<close> m represents_def)
  qed
qed

section \<open>The contract of the registry\<close>

text \<open>
  What the bridge relies on. \<open>rep\<close> is the relation between a state and the list of modules it
  holds, newest first; an id that is registered twice hides the older registration.
\<close>

locale module_registry =
  fixes rep :: "'s \<Rightarrow> amod list \<Rightarrow> bool"
    and add :: "(nat \<Rightarrow> bool) \<Rightarrow> int \<Rightarrow> string \<Rightarrow> 's \<Rightarrow> (int \<times> 's) res"
    and note_topic :: "(nat \<Rightarrow> bool) \<Rightarrow> string \<Rightarrow> int \<Rightarrow> 's \<Rightarrow> (int \<times> 's) res"
    and name_of :: "'s \<Rightarrow> int \<Rightarrow> cptr res"
  assumes add_law: "rep s l \<Longrightarrow> \<exists>r s'. add ok i n s = Inr (r, s') \<and>
      (r = 0 \<and> rep s' ((i, n, []) # l) \<or> r = - 1 \<and> rep s' l)"
    and topic_law: "rep s l \<Longrightarrow> \<exists>r s'. note_topic ok x i s = Inr (r, s') \<and>
      (case reg_find i l of
         None \<Rightarrow> r = - 1 \<and> rep s' l
       | Some (_, _, ts) \<Rightarrow>
           if x \<in> set ts then r = 0 \<and> rep s' l
           else r = 1 \<and> rep s' (reg_set_topics i (x # ts) l) \<or> r = - 1 \<and> rep s' l)"
    and name_law: "rep s l \<Longrightarrow>
      name_of s i = Inr (case reg_find i l of None \<Rightarrow> Null_Ptr | Some (_, n, _) \<Rightarrow> Owned n)"
begin

lemma name_after_add:
  assumes "rep s l" and "add ok i n s = Inr (0, s')"
  shows "name_of s' j = (if j = i then Inr (Owned n) else name_of s j)"
proof -
  from add_law [OF assms(1), of ok i n] assms(2) have "rep s' ((i, n, []) # l)" by auto
  from name_law [OF this, of j] name_law [OF assms(1), of j] show ?thesis
    by (simp add: reg_find_def)
qed

text \<open>A topic of a module is new once: after it was noted, it is known.\<close>

lemma noted_once:
  assumes rep: "rep s l" and note_first: "note_topic ok x i s = Inr (1, s')"
  shows "\<exists>l' s''. rep s' l' \<and> note_topic ok' x i s' = Inr (0, s'') \<and> rep s'' l'"
proof -
  from topic_law [OF rep, of ok x i] note_first obtain j n ts where f: "reg_find i l = Some (j, n, ts)"
    and r': "rep s' (reg_set_topics i (x # ts) l)"
    by (auto split: option.splits if_splits)
  have "reg_find i (reg_set_topics i us l) = Some (j, n, us)" for us
    using f by (induction l) (auto simp: reg_find_def split: if_splits)
  with topic_law [OF r', of ok' x i] r' show ?thesis
    by (intro exI [of _ "reg_set_topics i (x # ts) l"]) auto
qed

text \<open>Noting a topic never changes the names, nor does it register a module.\<close>

lemma names_kept:
  assumes rep: "rep s l" and noted: "note_topic ok x i s = Inr (r, s')"
  shows "name_of s' j = name_of s j"
proof -
  have names: "map_option (fst \<circ> snd) (reg_find j (reg_set_topics i us l)) = map_option (fst \<circ> snd) (reg_find j l)" for us
    by (induction l) (auto simp: reg_find_def)
  from topic_law [OF rep, of ok x i] noted obtain us where
    "rep s' l \<or> rep s' (reg_set_topics i us l)" by (auto split: option.splits if_splits)
  then show ?thesis
  proof
    assume "rep s' l"
    from name_law [OF this, of j] name_law [OF rep, of j] show ?thesis by simp
  next
    assume "rep s' (reg_set_topics i us l)"
    from name_law [OF this, of j] name_law [OF rep, of j] names [of us] show ?thesis
      by (auto split: option.splits)
  qed
qed

end

interpretation reg: module_registry represents module_list_add topic_list_check_and_add module_list_get_name_by_id
proof unfold_locales
  fix s l ok i n
  assume "represents s l"
  from add_represents [OF this, of ok i n] show "\<exists>r s'. module_list_add ok i n s = Inr (r, s') \<and>
      (r = 0 \<and> represents s' ((i, n, []) # l) \<or> r = - 1 \<and> represents s' l)"
    by (auto split: if_splits)
next
  fix s l ok x i
  assume r: "represents s l"
  show "\<exists>r s'. topic_list_check_and_add ok x i s = Inr (r, s') \<and>
      (case reg_find i l of
         None \<Rightarrow> r = - 1 \<and> represents s' l
       | Some (_, _, ts) \<Rightarrow>
           if x \<in> set ts then r = 0 \<and> represents s' l
           else r = 1 \<and> represents s' (reg_set_topics i (x # ts) l) \<or> r = - 1 \<and> represents s' l)"
  proof (cases "reg_find i l")
    case None
    with check_and_add_represents [OF r, of ok x i] r show ?thesis by simp
  next
    case (Some m)
    obtain j n ts where m: "m = (j, n, ts)" by (cases m)
    show ?thesis
      using check_and_add_represents [OF r, of ok x i] r unfolding Some m by (auto split: if_splits)
  qed
qed (rule name_represents)

section \<open>Properties\<close>

text \<open>
  \<open>module_list_add\<close> implements pushing the module onto the list of modules, whenever
  the two requests to \<open>malloc\<close> succeed; otherwise it returns -1 and the list is as before.
\<close>

theorem module_list_add_refines:
  assumes "represents s l"
  shows "\<exists>r s'. module_list_add ok i n s = Inr (r, s') \<and>
    (if ok (brk s) \<and> ok (Suc (brk s)) then r = 0 \<and> represents s' ((i, n, []) # l) else r = - 1 \<and> represents s' l)"
  using assms by (rule add_represents)

definition empty_mlist :: mlist where
  "empty_mlist = \<lparr>mods = (\<lambda>_. None), tops = (\<lambda>_. None), modules = None, brk = 0\<rparr>"

lemma represents_empty: "represents empty_mlist []"
proof -
  have "mlist_rep empty_mlist []" by (simp add: mlist_rep_def empty_mlist_def)
  then show ?thesis unfolding represents_def by (intro exI [of _ "[]"]) (simp add: registry_def)
qed

definition demo_mlist :: mlist where
  "demo_mlist = (case module_list_add (\<lambda>_. True) 7 ''sensor'' empty_mlist of Inr (_, s) \<Rightarrow> s | Inl _ \<Rightarrow> empty_mlist)"

lemma represents_demo: "represents demo_mlist [(7, ''sensor'', [])]"
  using add_represents [OF represents_empty, of "\<lambda>_. True" 7 "''sensor''"] by (auto simp: demo_mlist_def)

definition demo_mlist_topic :: mlist where
  "demo_mlist_topic =
     (case topic_list_check_and_add (\<lambda>_. True) ''temp'' 7 demo_mlist of Inr (_, s) \<Rightarrow> s | Inl _ \<Rightarrow> empty_mlist)"

lemma represents_demo_topic: "represents demo_mlist_topic [(7, ''sensor'', [''temp''])]"
  using check_and_add_represents [OF represents_demo, of "\<lambda>_. True" "''temp''" 7]
  by (auto simp: demo_mlist_topic_def reg_find_def)

theorem module_list_add_refines_witness:
  "\<exists>r s'. module_list_add (\<lambda>_. True) 7 ''sensor'' empty_mlist = Inr (r, s') \<and> r = 0 \<and> represents s' [(7, ''sensor'', [])]"
  using module_list_add_refines [OF represents_empty, of "\<lambda>_. True" 7 "''sensor''"] by simp

text \<open>
  C8. \<open>topic_list_check_and_add\<close> returns -1 for an unknown module, 0 and no change for a topic
  the newest module of that id has already, and 1 exactly when the topic has been added to it.
\<close>

theorem topic_list_check_and_add_refines:
  assumes "represents s l"
  shows "\<exists>r s'. topic_list_check_and_add ok x i s = Inr (r, s') \<and>
    (case reg_find i l of
       None \<Rightarrow> r = - 1 \<and> s' = s
     | Some (_, _, ts) \<Rightarrow>
         if x \<in> set ts then r = 0 \<and> s' = s
         else if ok (brk s) \<and> ok (Suc (brk s)) then r = 1 \<and> represents s' (reg_set_topics i (x # ts) l)
         else r = - 1 \<and> represents s' l)"
  using assms by (rule check_and_add_represents)

theorem topic_list_check_and_add_refines_witness:
  "topic_list_check_and_add (\<lambda>_. True) ''temp'' 8 demo_mlist = Inr (- 1, demo_mlist) \<and>
   topic_list_check_and_add (\<lambda>_. True) ''temp'' 7 demo_mlist_topic = Inr (0, demo_mlist_topic)"
  using topic_list_check_and_add_refines [OF represents_demo, of "\<lambda>_. True" "''temp''" 8]
    topic_list_check_and_add_refines [OF represents_demo_topic, of "\<lambda>_. True" "''temp''" 7]
  by (simp add: reg_find_def)

text \<open>
  Between the registration of a module and its removal a topic is reported as new once:
  after a call that returned 1, the same call returns 0 whatever \<open>malloc\<close> does, and it neither
  renames nor registers modules.
\<close>

theorem topic_new_only_once:
  assumes "represents s l" and "topic_list_check_and_add ok x i s = Inr (1, s')"
  shows "(\<exists>s''. topic_list_check_and_add ok' x i s' = Inr (0, s''))
    \<and> module_list_get_name_by_id s' j = module_list_get_name_by_id s j"
  using reg.noted_once [OF assms, of ok'] reg.names_kept [OF assms, of j] by blast

lemma demo_topic_added: "topic_list_check_and_add (\<lambda>_. True) ''temp'' 7 demo_mlist = Inr (1, demo_mlist_topic)"
  using check_and_add_represents [OF represents_demo, of "\<lambda>_. True" "''temp''" 7]
  by (auto simp: demo_mlist_topic_def reg_find_def)

theorem topic_new_only_once_witness:
  "\<exists>s''. topic_list_check_and_add (\<lambda>_. False) ''temp'' 7 demo_mlist_topic = Inr (0, s'')"
  using topic_new_only_once [OF represents_demo demo_topic_added, of "\<lambda>_. False"] by blast

text \<open>
  After a registration the new name is found under its id and every other id keeps its name.
\<close>

theorem module_name_after_add:
  assumes "represents s l" and "module_list_add ok i n s = Inr (0, s')"
  shows "module_list_get_name_by_id s' j = (if j = i then Inr (Owned n) else module_list_get_name_by_id s j)"
  using assms by (rule reg.name_after_add)

lemma demo_added: "module_list_add (\<lambda>_. True) 7 ''sensor'' empty_mlist = Inr (0, demo_mlist)"
  using add_represents [OF represents_empty, of "\<lambda>_. True" 7 "''sensor''"] by (auto simp: demo_mlist_def)

theorem module_name_after_add_witness:
  "module_list_get_name_by_id demo_mlist 7 = Inr (Owned ''sensor'')"
  using module_name_after_add [OF represents_empty demo_added, of 7] by simp

text \<open>
  C32. \<open>module_list_del_by_id\<close> removes the newest module of the id when it has no topics. When
  it has topics, \<open>topic_list_del_all\<close> goes on from the node it has just freed: the call reads
  freed memory. An unknown id gives -1.
\<close>

theorem module_list_del_by_id_outcome:
  assumes "represents s l"
  shows "case reg_find i l of
      None \<Rightarrow> module_list_del_by_id i s = Inr (- 1, s)
    | Some (_, _, ts) \<Rightarrow>
        if ts = [] then \<exists>s'. module_list_del_by_id i s = Inr (0, s') \<and> represents s' (reg_del i l)
        else module_list_del_by_id i s = Inl Use_After_Free"
  using assms by (rule del_represents)

theorem module_list_del_by_id_outcome_witness:
  "(\<exists>s'. module_list_del_by_id 7 demo_mlist = Inr (0, s') \<and> represents s' [])
   \<and> module_list_del_by_id 7 demo_mlist_topic = Inl Use_After_Free"
  using module_list_del_by_id_outcome [OF represents_demo, of 7]
    module_list_del_by_id_outcome [OF represents_demo_topic, of 7]
  by (simp add: reg_find_def)

text \<open>
  C33. What the removal of a module's topics lacks: the header has a loop that reads the link of a
  node before the body runs. With \<open>SLIST_FOREACH_SAFE\<close> in the place of \<open>SLIST_FOREACH\<close>, and the
  same body, every topic of the module is removed without a fault and the other modules are as
  they were; with the loop of the code the second node is never reached.
\<close>

theorem topics_need_safe_loop:
  assumes "mlist_rep s G" and "g \<in> set G" and "mods s (gm_addr g) = Some m"
  shows "(\<exists>s'. SLIST_FOREACH_SAFE tops next_topic (drop_topic (gm_addr g)) (fuel_of s) (md_topics m) s = Inr s'
      \<and> mlist_rep s' (upd_tops (gm_addr g) [] G))
    \<and> SLIST_FOREACH tops next_topic (drop_topic (gm_addr g)) (fuel_of s) (md_topics m) s
      = (if gm_tops g = [] then Inr s else Inl Use_After_Free)"
proof -
  have "length (gm_tops g) < fuel_of s" using mlist_rep_topic_fuel [OF assms(1,2)] by simp
  note safe = safe_loop_drops [OF assms this]
  have "md_topics m = None" if "gm_tops g = []" using that assms by (auto simp: mlist_rep_def mod_rep_def)
  moreover have "SLIST_FOREACH tops next_topic (drop_topic (gm_addr g)) (fuel_of s) (md_topics m) s = Inl Use_After_Free"
    if "gm_tops g \<noteq> []"
    using del_all_use_after_free [OF assms(1,2) that] assms(3)
    by (auto simp: topic_list_del_all_def topics_head_def bind_res_Inl_iff)
  ultimately show ?thesis using safe by (simp add: fuel_of_def)
qed

theorem topics_need_safe_loop_witness:
  "\<exists>G g m s'. mlist_rep demo_mlist_topic G \<and> g \<in> set G \<and> gm_tops g \<noteq> [] \<and> mods demo_mlist_topic (gm_addr g) = Some m
    \<and> SLIST_FOREACH_SAFE tops next_topic (drop_topic (gm_addr g)) (fuel_of demo_mlist_topic) (md_topics m) demo_mlist_topic = Inr s'
    \<and> SLIST_FOREACH tops next_topic (drop_topic (gm_addr g)) (fuel_of demo_mlist_topic) (md_topics m) demo_mlist_topic
      = Inl Use_After_Free"
proof -
  obtain G where G: "mlist_rep demo_mlist_topic G" "registry G = [(7, ''sensor'', [''temp''])]"
    using represents_demo_topic by (auto simp: represents_def)
  then obtain g where g: "g \<in> set G" "gm_tops g \<noteq> []" by (cases G) (auto simp: registry_def)
  obtain m where m: "mods demo_mlist_topic (gm_addr g) = Some m" using G(1) g(1) by (fastforce simp: mlist_rep_def mod_rep_def)
  from topics_need_safe_loop [OF G(1) g(1) m] G(1) g m show ?thesis by auto
qed

text \<open>
  \<open>topic_list_del\<close> removes one topic of the newest module of the id, without a fault, and
  returns -1 when the module or the topic is not there.
\<close>

theorem topic_list_del_refines:
  assumes "represents s l"
  shows "case reg_find i l of
      None \<Rightarrow> topic_list_del x i s = Inr (- 1, s)
    | Some (_, _, ts) \<Rightarrow>
        if x \<in> set ts then \<exists>s'. topic_list_del x i s = Inr (0, s') \<and> represents s' (reg_set_topics i (remove1 x ts) l)
        else topic_list_del x i s = Inr (- 1, s)"
  using assms by (rule topic_del_represents)

theorem topic_list_del_refines_witness:
  "\<exists>s'. topic_list_del ''temp'' 7 demo_mlist_topic = Inr (0, s') \<and> represents s' [(7, ''sensor'', [])]"
  using topic_list_del_refines [OF represents_demo_topic, of "''temp''" 7] by (simp add: reg_find_def)

end
