(* ===== verification/Mqtt.thy ===== *)
theory Mqtt
  imports Runtime_Reply Runtime_Conn Module_List
begin

text \<open>
  The MQTT side of the bridge (bridge-tool/src/mqtt.c, http_mqtt_req.h): the event handler of the
  MQTT connection, the processing of events that modules send, and the notifications the bridge
  publishes. Mongoose is represented by the events it delivers (\<open>poll\<close>, one list per call of
  \<open>mqtt_pool_requests\<close>) and by the list of actions the bridge asks it for. The copies the
  handler makes of an incoming message are assumed to find memory.
\<close>

section \<open>State\<close>

datatype mg_event =
    MG_EV_CONNECT
  | MG_EV_MQTT_CONNACK int
  | MG_EV_MQTT_PUBACK int
  | MG_EV_MQTT_SUBACK
  | MG_EV_MQTT_PUBLISH string string   \<comment> \<open>topic and payload\<close>
  | MG_EV_CLOSE
  | MG_EV_OTHER

datatype mq_action =
    Mq_Handshake string string string   \<comment> \<open>client id, topic and message of the last will\<close>
  | Mq_Publish string string
  | Mq_Subscribe string
  | Mq_Unsubscribe string
  | Mq_Ping

record 'd bridge_env =
  base :: "'d rt_env"
  json :: "'d json_api"
  conf :: bt_config_t
  poll :: "nat \<Rightarrow> mg_event list"

record mqtt_state =
  m_rt :: rt_state
  m_reg :: mlist
  s_rt_topic :: cbuf
  s_rt_last_will_msg :: cbuf
  mq_out :: "mq_action list"
  polls :: nat

definition mq_act :: "mq_action \<Rightarrow> mqtt_state \<Rightarrow> mqtt_state" where
  "mq_act a s = s\<lparr>mq_out := mq_out s @ [a]\<rparr>"

section \<open>Messages\<close>

definition EVENT_RT_START :: string where "EVENT_RT_START = ''rt-start''"
definition EVENT_RT_STOP :: string where "EVENT_RT_STOP = ''rt-stop''"
definition EVENT_MOD_INST :: string where "EVENT_MOD_INST = ''module-inst''"
definition EVENT_MOD_UNINST :: string where "EVENT_MOD_UNINST = ''module-uninst''"
definition EVENT_PUB_START :: string where "EVENT_PUB_START = ''pub-start''"
definition EVENT_SUB_START :: string where "EVENT_SUB_START = ''sub-start''"
definition EVENT_SUB_STOP :: string where "EVENT_SUB_STOP = ''sub-stop''"

definition FMTSTR_EVENT_RT_START_JSON :: "string \<Rightarrow> string \<Rightarrow> string \<Rightarrow> string" where
  "FMTSTR_EVENT_RT_START_JSON i l c =
     ''{ \"id\":\"'' @ i @ ''\", \"label\": \"'' @ l @ ''\", \"cmd\": \"'' @ c @ ''\" }''"

definition FMTSTR_EVENT_MOD_INST_JSON :: "string \<Rightarrow> string \<Rightarrow> string \<Rightarrow> string \<Rightarrow> string \<Rightarrow> string" where
  "FMTSTR_EVENT_MOD_INST_JSON i l p c n =
     ''{ \"id\":\"'' @ i @ ''\", \"label\": \"'' @ l @ ''\", \"parent\":\"'' @ p @ ''\", \"cmd\": \"'' @ c
       @ ''\", \"module-name\": \"'' @ n @ ''\"}''"

definition FMTSTR_EVENT_PUSBSUB_JSON :: "string \<Rightarrow> string \<Rightarrow> string \<Rightarrow> string \<Rightarrow> string \<Rightarrow> string" where
  "FMTSTR_EVENT_PUSBSUB_JSON i l p c t =
     ''{ \"id\":\"'' @ i @ ''\", \"label\": \"'' @ l @ ''\", \"parent\":\"'' @ p @ ''\", \"cmd\": \"'' @ c
       @ ''\", \"topic\": \"'' @ t @ ''\"}''"

text \<open>\<open>char b[n]; snprintf (b, sizeof (b), ...)\<close> and the use of \<open>b\<close> as a string.\<close>

definition local_text :: "nat \<Rightarrow> string \<Rightarrow> string res" where
  "local_text n t = bind_res (snprintf_at (zero_buf n) 0 n t) (\<lambda>b. read_cstr b 0)"

definition module_event_publish :: "'d bridge_env \<Rightarrow> string \<Rightarrow> string \<Rightarrow> mqtt_state \<Rightarrow> mqtt_state res" where
  "module_event_publish e module_event mod_name s =
     bind_res (read_cstr (rt_uuid (conf e)) 0) (\<lambda>uuid.
     bind_res (local_text 100 (uuid @ ''.'' @ mod_name)) (\<lambda>module_id.
     bind_res (local_text 200 (FMTSTR_EVENT_MOD_INST_JSON module_id mod_name uuid module_event mod_name)) (\<lambda>event_msg.
     bind_res (read_cstr (s_rt_topic s) 0) (\<lambda>topic.
       Inr (mq_act (Mq_Publish topic event_msg) s)))))"

text \<open>The first component tells whether something was published.\<close>

definition pubsub_event_publish ::
    "'d bridge_env \<Rightarrow> string \<Rightarrow> int \<Rightarrow> string \<Rightarrow> mqtt_state \<Rightarrow> (bool \<times> mqtt_state) res" where
  "pubsub_event_publish e pubsub_event mod_id topic s =
     bind_res (module_list_get_name_by_id (m_reg s) mod_id) (\<lambda>mod_name.
       if mod_name = Null_Ptr then Inr (False, s)
       else bind_res (deref_str mod_name) (\<lambda>name.
            bind_res (read_cstr (rt_uuid (conf e)) 0) (\<lambda>uuid.
            bind_res (local_text 200 (uuid @ ''.'' @ name)) (\<lambda>parent.
            bind_res (local_text 200 (parent @ ''.'' @ topic)) (\<lambda>pubsub_id.
            bind_res (local_text 200 (FMTSTR_EVENT_PUSBSUB_JSON pubsub_id topic parent pubsub_event topic)) (\<lambda>event_msg.
            bind_res (read_cstr (s_rt_topic s) 0) (\<lambda>rt_topic.
              Inr (True, mq_act (Mq_Publish rt_topic event_msg) s))))))))"

section \<open>Events of the MQTT connection\<close>

text \<open>\<open>"%.*s"\<close> prints up to a terminator inside.\<close>

definition cut :: "string \<Rightarrow> string" where
  "cut s = takeWhile (\<lambda>c. c \<noteq> NUL) s"

definition on_connect :: "'d bridge_env \<Rightarrow> mqtt_state \<Rightarrow> mqtt_state res" where
  "on_connect e s =
     bind_res (read_cstr (rt_uuid (conf e)) 0) (\<lambda>uuid.
     bind_res (read_cstr (rt_topic_prefix (conf e)) 0) (\<lambda>pfx.
     bind_res (snprintf_at (s_rt_last_will_msg s) 0 200 (FMTSTR_EVENT_RT_START_JSON uuid uuid EVENT_RT_STOP)) (\<lambda>will.
     bind_res (snprintf_at (s_rt_topic s) 0 200 (pfx @ ''/'' @ uuid)) (\<lambda>tpc.
     bind_res (read_cstr tpc 0) (\<lambda>will_topic.
     bind_res (read_cstr will 0) (\<lambda>will_message.
       Inr (mq_act (Mq_Handshake uuid will_topic will_message)
              (s\<lparr>s_rt_last_will_msg := will, s_rt_topic := tpc\<rparr>))))))))"

definition on_connack :: "'d bridge_env \<Rightarrow> mqtt_state \<Rightarrow> mqtt_state res" where
  "on_connack e s =
     bind_res (read_cstr (rt_uuid (conf e)) 0) (\<lambda>uuid.
     bind_res (read_cstr (rt_topic_prefix (conf e)) 0) (\<lambda>pfx.
     bind_res (local_text 200 (FMTSTR_EVENT_RT_START_JSON uuid uuid EVENT_RT_START)) (\<lambda>started_msg.
     bind_res (local_text 200 (pfx @ uuid)) (\<lambda>topic_str.
       Inr (mq_act (Mq_Publish pfx started_msg) s)))))"

definition raw_str_json :: "string \<Rightarrow> string res" where
  "raw_str_json msg =
     (let max_len = length msg + length ''{ \"raw_str\": \"%.*s\"}'' + 1
      in local_text max_len (''{ \"raw_str\": \"'' @ cut msg @ ''\"}''))"

definition on_publish :: "'d bridge_env \<Rightarrow> string \<Rightarrow> string \<Rightarrow> mqtt_state \<Rightarrow> mqtt_state res" where
  "on_publish e topic msg s =
     bind_res (read_cstr (s_rt_topic s) 0) (\<lambda>own.
       if topic = own then Inr s
       else bind_res (case cJSON_Parse (json e) (Some (cut msg)) of
                        Some j \<Rightarrow> Inr (Some j)
                      | None \<Rightarrow> bind_res (raw_str_json msg) (\<lambda>t. Inr (cJSON_Parse (json e) (Some t))))
              (\<lambda>j.
            bind_res (local_text (length topic + length ''/event/'' + 1) (''/event/'' @ cut topic)) (\<lambda>req_url.
              Inr (s\<lparr>m_rt := snd (rt_req_request (base e) req_url (COAP_EVENT_PUB (wamr (base e))) j (m_rt s))\<rparr>))))"

definition mqtt_ev_handler :: "'d bridge_env \<Rightarrow> mg_event \<Rightarrow> mqtt_state \<Rightarrow> mqtt_state res" where
  "mqtt_ev_handler e ev s =
     (case ev of
        MG_EV_CONNECT \<Rightarrow> on_connect e s
      | MG_EV_MQTT_CONNACK _ \<Rightarrow> on_connack e s
      | MG_EV_MQTT_PUBLISH topic msg \<Rightarrow> on_publish e topic msg s
      | _ \<Rightarrow> Inr s)"

fun mqtt_events :: "'d bridge_env \<Rightarrow> mg_event list \<Rightarrow> mqtt_state \<Rightarrow> mqtt_state res" where
  "mqtt_events e [] s = Inr s"
| "mqtt_events e (ev # evs) s = bind_res (mqtt_ev_handler e ev s) (mqtt_events e evs)"

text \<open>\<open>while (mg_mgr_poll (...) > 0)\<close>: the events delivered until a poll reports nothing.\<close>

definition mqtt_pool_requests :: "'d bridge_env \<Rightarrow> mqtt_state \<Rightarrow> mqtt_state res" where
  "mqtt_pool_requests e s = mqtt_events e (poll e (polls s)) (s\<lparr>polls := Suc (polls s)\<rparr>)"

definition mqtt_notify_module_event :: "'d bridge_env \<Rightarrow> string \<Rightarrow> string \<Rightarrow> mqtt_state \<Rightarrow> mqtt_state res" where
  "mqtt_notify_module_event e ev mod_name s = bind_res (module_event_publish e ev mod_name s) (mqtt_pool_requests e)"

definition mqtt_notify_pubsub_event :: "'d bridge_env \<Rightarrow> string \<Rightarrow> int \<Rightarrow> string \<Rightarrow> mqtt_state \<Rightarrow> mqtt_state res" where
  "mqtt_notify_pubsub_event e ev mod_id topic s =
     bind_res (pubsub_event_publish e ev mod_id topic s) (\<lambda>(sent, s).
       if sent then mqtt_pool_requests e s else Inr s)"

text \<open>\<open>mg_connect\<close> (\<open>connected\<close>: it gave a connection), then the events of the handshake.\<close>

definition mqtt_init :: "'d bridge_env \<Rightarrow> bool \<Rightarrow> mqtt_state \<Rightarrow> (int \<times> mqtt_state) res" where
  "mqtt_init e connected s =
     (if \<not> connected then Inr (- 1, s) else bind_res (mqtt_pool_requests e s) (\<lambda>s. Inr (0, s)))"

section \<open>Events of modules\<close>

definition strndup :: "byte list \<Rightarrow> nat \<Rightarrow> string res" where
  "strndup p n =
     (if NUL \<in> set (take n (chars p)) \<or> n \<le> length p then Inr (cut (take n (chars p))) else Inl Out_Of_Bounds)"

definition event_message :: "'d bridge_env \<Rightarrow> byte list \<Rightarrow> int \<Rightarrow> string res" where
  "event_message e pl len =
     bind_res (attr2json (attrs (base e)) (mem_ok (base e)) (Some pl)) (\<lambda>j.
       case j of
         None \<Rightarrow> strndup pl (nat len)
       | Some j \<Rightarrow>
           (case json_string (cJSON_GetObjectItemCaseSensitive (json e) j ''raw_str'') of
              Some raw \<Rightarrow> Inr raw
            | None \<Rightarrow> (case cJSON_Print (json e) j of Some t \<Rightarrow> Inr t | None \<Rightarrow> strndup pl (nat len))))"

definition mqtt_process_runtime_event :: "'d bridge_env \<Rightarrow> request_t \<Rightarrow> mqtt_state \<Rightarrow> mqtt_state res" where
  "mqtt_process_runtime_event e event s =
     (let w = wamr (base e)
      in if action event = COAP_EVENT_SUB w
         then bind_res (mqtt_pool_requests e (mq_act (Mq_Subscribe (url event)) s))
                (mqtt_notify_pubsub_event e EVENT_SUB_START (sender event) (url event))
         else if action event = COAP_EVENT_UNSUB w
         then bind_res (mqtt_pool_requests e (mq_act (Mq_Unsubscribe (url event)) s))
                (mqtt_notify_pubsub_event e EVENT_SUB_STOP (sender event) (url event))
         else if action event = COAP_EVENT_PUB w
         then (case rq_payload event of
                 None \<Rightarrow> Inr s
               | Some pl \<Rightarrow>
                   if payload_len event \<le> 0 then Inr s
                   else bind_res (event_message e pl (payload_len event)) (\<lambda>msg_str.
                        bind_res (topic_list_check_and_add (mem_ok (base e)) (url event) (sender event) (m_reg s)) (\<lambda>(r, reg).
                        bind_res (if r = 1 then mqtt_notify_pubsub_event e EVENT_PUB_START (sender event) (url event) (s\<lparr>m_reg := reg\<rparr>)
                                  else Inr (s\<lparr>m_reg := reg\<rparr>)) (\<lambda>s.
                          mqtt_pool_requests e (mq_act (Mq_Publish (url event) msg_str) s)))))
         else Inr s)"

section \<open>What is published\<close>

definition quiet :: "'d bridge_env \<Rightarrow> bool" where
  "quiet e \<longleftrightarrow> (\<forall>n. poll e n = [])"

text \<open>The strings of the configuration and the runtime topic.\<close>

definition mq_names :: "'d bridge_env \<Rightarrow> mqtt_state \<Rightarrow> string \<Rightarrow> string \<Rightarrow> string \<Rightarrow> bool" where
  "mq_names e s uuid pfx own \<longleftrightarrow>
     text_of (rt_uuid (conf e)) uuid \<and> text_of (rt_topic_prefix (conf e)) pfx \<and> text_of (s_rt_topic s) own"

lemma local_text_ok: "cstring t \<Longrightarrow> 0 < n \<Longrightarrow> local_text n t = Inr (take (n - 1) t)"
  using snprintf_at_start [of t n "zero_buf n"] by (auto simp: local_text_def text_of_def)

lemma quiet_pool: "quiet e \<Longrightarrow> mqtt_pool_requests e s = Inr (s\<lparr>polls := Suc (polls s)\<rparr>)"
  by (simp add: quiet_def mqtt_pool_requests_def)

lemma mq_act_simps [simp]:
  "m_rt (mq_act a s) = m_rt s" "m_reg (mq_act a s) = m_reg s" "s_rt_topic (mq_act a s) = s_rt_topic s"
  "mq_out (mq_act a s) = mq_out s @ [a]" "polls (mq_act a s) = polls s"
  "s_rt_last_will_msg (mq_act a s) = s_rt_last_will_msg s"
  by (simp_all add: mq_act_def)

lemma mq_names_cstring:
  "mq_names e s uuid pfx own \<Longrightarrow> cstring uuid \<and> cstring pfx \<and> cstring own"
  by (simp add: mq_names_def text_of_iff)

lemma mq_names_cong [simp]:
  "mq_names e (mq_act a s) = mq_names e s" "mq_names e (s\<lparr>polls := n\<rparr>) = mq_names e s"
  "mq_names e (s\<lparr>m_reg := r\<rparr>) = mq_names e s"
  by (simp_all add: mq_names_def fun_eq_iff)

lemma event_cstrings [simp]:
  "cstring EVENT_RT_START" "cstring EVENT_RT_STOP" "cstring EVENT_MOD_INST" "cstring EVENT_MOD_UNINST"
  "cstring EVENT_PUB_START" "cstring EVENT_SUB_START" "cstring EVENT_SUB_STOP"
  by (simp_all add: EVENT_RT_START_def EVENT_RT_STOP_def EVENT_MOD_INST_def EVENT_MOD_UNINST_def
      EVENT_PUB_START_def EVENT_SUB_START_def EVENT_SUB_STOP_def)

lemma format_cstrings [simp]:
  "cstring i \<Longrightarrow> cstring l \<Longrightarrow> cstring c \<Longrightarrow> cstring (FMTSTR_EVENT_RT_START_JSON i l c)"
  "cstring i \<Longrightarrow> cstring l \<Longrightarrow> cstring p \<Longrightarrow> cstring c \<Longrightarrow> cstring n \<Longrightarrow> cstring (FMTSTR_EVENT_MOD_INST_JSON i l p c n)"
  "cstring i \<Longrightarrow> cstring l \<Longrightarrow> cstring p \<Longrightarrow> cstring c \<Longrightarrow> cstring n \<Longrightarrow> cstring (FMTSTR_EVENT_PUSBSUB_JSON i l p c n)"
  by (simp_all add: FMTSTR_EVENT_RT_START_JSON_def FMTSTR_EVENT_MOD_INST_JSON_def FMTSTR_EVENT_PUSBSUB_JSON_def)

definition module_note :: "string \<Rightarrow> string \<Rightarrow> string \<Rightarrow> string" where
  "module_note uuid ev n = take 199 (FMTSTR_EVENT_MOD_INST_JSON (take 99 (uuid @ ''.'' @ n)) n uuid ev n)"

definition pubsub_note :: "string \<Rightarrow> string \<Rightarrow> string \<Rightarrow> string \<Rightarrow> string" where
  "pubsub_note uuid ev n t =
     (let parent = take 199 (uuid @ ''.'' @ n)
      in take 199 (FMTSTR_EVENT_PUSBSUB_JSON (take 199 (parent @ ''.'' @ t)) t parent ev t))"

lemma module_event_published:
  assumes "mq_names e s uuid pfx own" and "cstring n" and "cstring ev"
  shows "module_event_publish e ev n s = Inr (mq_act (Mq_Publish own (module_note uuid ev n)) s)"
proof -
  have "cstring uuid" using assms(1) by (simp add: mq_names_cstring)
  then have "local_text 100 (uuid @ ''.'' @ n) = Inr (take 99 (uuid @ ''.'' @ n))"
    and "local_text 200 (FMTSTR_EVENT_MOD_INST_JSON (take 99 (uuid @ ''.'' @ n)) n uuid ev n) = Inr (module_note uuid ev n)"
    using assms(2,3) by (simp_all add: local_text_ok module_note_def del: take_append)
  with assms(1) show ?thesis
    by (simp add: module_event_publish_def mq_names_def text_of_def)
qed

lemma pubsub_event_published:
  assumes "mq_names e s uuid pfx own" and "module_list_get_name_by_id (m_reg s) i = Inr (Owned n)"
    and "cstring n" and "cstring ev" and "cstring t"
  shows "pubsub_event_publish e ev i t s = Inr (True, mq_act (Mq_Publish own (pubsub_note uuid ev n t)) s)"
proof -
  have u: "cstring uuid" using assms(1) by (simp add: mq_names_cstring)
  define parent where "parent = take 199 (uuid @ ''.'' @ n)"
  have p: "cstring parent" using u assms(3) by (simp add: parent_def del: take_append)
  define pid where "pid = take 199 (parent @ ''.'' @ t)"
  have "local_text 200 (uuid @ ''.'' @ n) = Inr parent" and "local_text 200 (parent @ ''.'' @ t) = Inr pid"
    and "local_text 200 (FMTSTR_EVENT_PUSBSUB_JSON pid t parent ev t) = Inr (take 199 (FMTSTR_EVENT_PUSBSUB_JSON pid t parent ev t))"
    using u p assms(3-5) by (simp_all add: local_text_ok parent_def pid_def del: take_append)
  with assms(1,2) show ?thesis
    by (simp add: pubsub_event_publish_def mq_names_def text_of_def deref_str_def pubsub_note_def Let_def parent_def pid_def)
qed

lemma notify_pubsub_published:
  assumes "quiet e" and "mq_names e s uuid pfx own" and "module_list_get_name_by_id (m_reg s) i = Inr (Owned n)"
    and "cstring n" and "cstring ev" and "cstring t"
  shows "mqtt_notify_pubsub_event e ev i t s
    = Inr ((mq_act (Mq_Publish own (pubsub_note uuid ev n t)) s)\<lparr>polls := Suc (polls s)\<rparr>)"
  using assms by (simp add: mqtt_notify_pubsub_event_def pubsub_event_published quiet_pool)

text \<open>\<open>publication\<close>: the event is a publication whose payload turns into the message.\<close>

definition publication :: "'d bridge_env \<Rightarrow> request_t \<Rightarrow> string \<Rightarrow> bool" where
  "publication e event msg \<longleftrightarrow>
     action event = COAP_EVENT_PUB (wamr (base e))
     \<and> action event \<notin> {COAP_EVENT_SUB (wamr (base e)), COAP_EVENT_UNSUB (wamr (base e))}
     \<and> 0 < payload_len event \<and> (\<exists>pl. rq_payload event = Some pl \<and> event_message e pl (payload_len event) = Inr msg)"

lemma publication_process:
  assumes "publication e event msg"
  shows "mqtt_process_runtime_event e event s =
    bind_res (topic_list_check_and_add (mem_ok (base e)) (url event) (sender event) (m_reg s)) (\<lambda>(r, reg).
    bind_res (if r = 1 then mqtt_notify_pubsub_event e EVENT_PUB_START (sender event) (url event) (s\<lparr>m_reg := reg\<rparr>)
              else Inr (s\<lparr>m_reg := reg\<rparr>)) (\<lambda>s.
      mqtt_pool_requests e (mq_act (Mq_Publish (url event) msg) s)))"
  using assms by (auto simp: publication_def mqtt_process_runtime_event_def Let_def)

lemma publication_known:
  assumes "publication e event msg" and "quiet e"
    and "topic_list_check_and_add (mem_ok (base e)) (url event) (sender event) (m_reg s) = Inr (0, reg)"
  shows "mqtt_process_runtime_event e event s
    = Inr ((mq_act (Mq_Publish (url event) msg) (s\<lparr>m_reg := reg\<rparr>))\<lparr>polls := Suc (polls s)\<rparr>)"
  using assms by (simp add: publication_process quiet_pool)

lemma publication_new:
  assumes "publication e event msg" and "quiet e" and "mq_names e s uuid pfx own"
    and "topic_list_check_and_add (mem_ok (base e)) (url event) (sender event) (m_reg s) = Inr (1, reg)"
    and "module_list_get_name_by_id reg (sender event) = Inr (Owned n)"
    and "cstring n" and "cstring (url event)"
  shows "\<exists>s'. mqtt_process_runtime_event e event s = Inr s' \<and> m_reg s' = reg \<and> s_rt_topic s' = s_rt_topic s
    \<and> mq_out s' = mq_out s @ [Mq_Publish own (pubsub_note uuid EVENT_PUB_START n (url event)), Mq_Publish (url event) msg]"
proof -
  have "mqtt_notify_pubsub_event e EVENT_PUB_START (sender event) (url event) (s\<lparr>m_reg := reg\<rparr>)
    = Inr ((mq_act (Mq_Publish own (pubsub_note uuid EVENT_PUB_START n (url event))) (s\<lparr>m_reg := reg\<rparr>))
        \<lparr>polls := Suc (polls (s\<lparr>m_reg := reg\<rparr>))\<rparr>)"
    using assms by (intro notify_pubsub_published [where pfx = pfx]) simp_all
  with assms(1,2,4) show ?thesis by (simp add: publication_process quiet_pool)
qed

section \<open>Properties\<close>

text \<open>
  C23. What MQTT is told of a module's publication, by what the registry holds. A sender that is not
  registered: the message is forwarded and nothing is announced. A registered sender with a new
  topic: the topic is announced once on the runtime topic, before the message, and a second
  publication of it only forwards the message. A registered sender with a known topic: the message
  is forwarded. This holds for every payload, with memory, and while nothing else arrives. Runs of
  the program that begin with an empty registry and in which every step is defined stay in the
  first case: no module is ever registered in them, so that no topic is ever announced.
\<close>

theorem publication_announced:
  assumes "publication e event msg" and "quiet e" and "mq_names e s uuid pfx own"
    and "represents (m_reg s) l" and "cstring (url event)" and "\<And>k. mem_ok (base e) k"
  shows "case reg_find (sender event) l of
      None \<Rightarrow> \<exists>s1. mqtt_process_runtime_event e event s = Inr s1 \<and> m_reg s1 = m_reg s
        \<and> mq_out s1 = mq_out s @ [Mq_Publish (url event) msg]
    | Some (i, n, ts) \<Rightarrow>
        if url event \<in> set ts
        then \<exists>s1. mqtt_process_runtime_event e event s = Inr s1 \<and> mq_out s1 = mq_out s @ [Mq_Publish (url event) msg]
        else cstring n \<longrightarrow> (\<exists>s1 s2. mqtt_process_runtime_event e event s = Inr s1
          \<and> mq_out s1 = mq_out s @ [Mq_Publish own (pubsub_note uuid EVENT_PUB_START n (url event)), Mq_Publish (url event) msg]
          \<and> mqtt_process_runtime_event e event s1 = Inr s2 \<and> mq_out s2 = mq_out s1 @ [Mq_Publish (url event) msg])"
proof (cases "reg_find (sender event) l")
  case None
  with check_and_add_represents [OF assms(4), of "mem_ok (base e)" "url event" "sender event"]
  have "topic_list_check_and_add (mem_ok (base e)) (url event) (sender event) (m_reg s) = Inr (- 1, m_reg s)" by auto
  with None assms(1,2) show ?thesis by (simp add: publication_process quiet_pool)
next
  case (Some m)
  obtain i n ts where m: "m = (i, n, ts)" by (cases m)
  have check: "\<exists>r reg. topic_list_check_and_add (mem_ok (base e)) (url event) (sender event) (m_reg s) = Inr (r, reg)
      \<and> r = (if url event \<in> set ts then 0 else 1)"
    using check_and_add_represents [OF assms(4), of "mem_ok (base e)" "url event" "sender event"] Some m assms(6)
    by (auto split: if_splits)
  show ?thesis
  proof (cases "url event \<in> set ts")
    case True
    with check obtain reg where "topic_list_check_and_add (mem_ok (base e)) (url event) (sender event) (m_reg s) = Inr (0, reg)" by auto
    from publication_known [OF assms(1,2) this] True Some m show ?thesis by auto
  next
    case False
    with check obtain reg where reg: "topic_list_check_and_add (mem_ok (base e)) (url event) (sender event) (m_reg s) = Inr (1, reg)" by auto
    have name: "module_list_get_name_by_id reg (sender event) = Inr (Owned n)"
      using reg.names_kept [OF assms(4) reg, of "sender event"] name_represents [OF assms(4), of "sender event"] Some m by simp
    have "\<exists>s1 s2. mqtt_process_runtime_event e event s = Inr s1
        \<and> mq_out s1 = mq_out s @ [Mq_Publish own (pubsub_note uuid EVENT_PUB_START n (url event)), Mq_Publish (url event) msg]
        \<and> mqtt_process_runtime_event e event s1 = Inr s2 \<and> mq_out s2 = mq_out s1 @ [Mq_Publish (url event) msg]" if "cstring n"
    proof -
      from publication_new [OF assms(1-3) reg name that assms(5)] obtain s1 where
        s1: "mqtt_process_runtime_event e event s = Inr s1" "m_reg s1 = reg"
          "mq_out s1 = mq_out s @ [Mq_Publish own (pubsub_note uuid EVENT_PUB_START n (url event)), Mq_Publish (url event) msg]" by blast
      obtain reg2 where "topic_list_check_and_add (mem_ok (base e)) (url event) (sender event) (m_reg s1) = Inr (0, reg2)"
        using reg.noted_once [OF assms(4) reg, of "mem_ok (base e)"] s1(2) by auto
      from publication_known [OF assms(1,2) this] s1 show ?thesis by auto
    qed
    with False Some m show ?thesis by simp
  qed
qed

definition text_buf :: "nat \<Rightarrow> string \<Rightarrow> cbuf" where
  "text_buf n t = t @ replicate (n - length t) NUL"

definition demo_bridge :: "int bridge_env" where
  "demo_bridge = \<lparr>base = demo_env, json = demo_json,
     conf = g_bt_config\<lparr>rt_uuid := text_buf 100 ''runtime1'', rt_topic_prefix := text_buf 100 ''realm/r''\<rparr>,
     poll = (\<lambda>_. [])\<rparr>"

definition demo_mqtt :: mqtt_state where
  "demo_mqtt = \<lparr>m_rt = demo_rt, m_reg = demo_mlist, s_rt_topic = text_buf 200 ''realm/r/runtime1'',
     s_rt_last_will_msg = zero_buf 200, mq_out = [], polls = 0\<rparr>"

definition demo_pub :: request_t where
  "demo_pub = \<lparr>mid = 9, url = ''temp'', action = 0xAA, fmt = 99, rq_payload = Some [], payload_len = 1, sender = 7\<rparr>"

lemma text_buf_text: "cstring t \<Longrightarrow> length t < n \<Longrightarrow> text_of (text_buf n t) t"
  by (cases "n - length t") (auto simp: text_buf_def text_of_iff)

lemma demo_names: "mq_names demo_bridge demo_mqtt ''runtime1'' ''realm/r'' ''realm/r/runtime1''"
  by (simp add: mq_names_def demo_bridge_def demo_mqtt_def text_buf_text)

lemma demo_quiet: "quiet demo_bridge"
  by (simp add: quiet_def demo_bridge_def)

definition demo_pub_bridge :: "int bridge_env" where
  "demo_pub_bridge = demo_bridge\<lparr>base := demo_env\<lparr>attrs := demo_attr\<lparr>attr_get_tag := (\<lambda>_. False)\<rparr>\<rparr>\<rparr>"

definition demo_pub2 :: request_t where
  "demo_pub2 = demo_pub\<lparr>rq_payload := Some (bytes ''23''), payload_len := 2\<rparr>"

lemma demo_publication: "publication demo_pub_bridge demo_pub2 ''23''"
proof -
  have "event_message demo_pub_bridge (bytes ''23'') 2 = Inr ''23''"
    by (simp add: event_message_def attr2json_def demo_pub_bridge_def demo_bridge_def demo_env_def demo_attr_def
        strndup_def cut_def)
  then show ?thesis
    by (simp add: publication_def demo_pub2_def demo_pub_def demo_pub_bridge_def demo_bridge_def demo_env_def demo_wamr_def)
qed

theorem publication_announced_witness:
  "(\<exists>s1. mqtt_process_runtime_event demo_pub_bridge demo_pub2 (demo_mqtt\<lparr>m_reg := empty_mlist\<rparr>) = Inr s1
      \<and> mq_out s1 = [Mq_Publish ''temp'' ''23''])
   \<and> (\<exists>s1 s2. mqtt_process_runtime_event demo_pub_bridge demo_pub2 demo_mqtt = Inr s1
      \<and> mq_out s1 = [Mq_Publish ''realm/r/runtime1'' (pubsub_note ''runtime1'' EVENT_PUB_START ''sensor'' ''temp''),
          Mq_Publish ''temp'' ''23'']
      \<and> mqtt_process_runtime_event demo_pub_bridge demo_pub2 s1 = Inr s2
      \<and> mq_out s2 = mq_out s1 @ [Mq_Publish ''temp'' ''23''])"
proof -
  have "quiet demo_pub_bridge" and "mq_names demo_pub_bridge demo_mqtt ''runtime1'' ''realm/r'' ''realm/r/runtime1''"
    and "mq_names demo_pub_bridge (demo_mqtt\<lparr>m_reg := empty_mlist\<rparr>) ''runtime1'' ''realm/r'' ''realm/r/runtime1''"
    using demo_quiet demo_names by (simp_all add: quiet_def mq_names_def demo_pub_bridge_def)
  moreover have "represents (m_reg demo_mqtt) [(7, ''sensor'', [])]" and "represents (m_reg (demo_mqtt\<lparr>m_reg := empty_mlist\<rparr>)) []"
    and "\<And>k. mem_ok (base demo_pub_bridge) k" and "url demo_pub2 = ''temp''" and "sender demo_pub2 = 7" and "mq_out demo_mqtt = []"
    using represents_demo
    by (simp_all add: demo_mqtt_def demo_pub_bridge_def demo_bridge_def demo_env_def demo_pub2_def demo_pub_def represents_empty)
  ultimately show ?thesis
    using publication_announced [OF demo_publication, of demo_mqtt "''runtime1''" "''realm/r''" "''realm/r/runtime1''"
        "[(7, ''sensor'', [])]"]
      publication_announced [OF demo_publication, of "demo_mqtt\<lparr>m_reg := empty_mlist\<rparr>" "''runtime1''" "''realm/r''" "''realm/r/runtime1''" "[]"]
    by (auto simp: reg_find_def)
qed

lemma cut_cstring: "cstring t \<Longrightarrow> cut t = t"
  by (simp add: cut_def cstring_def takeWhile_eq_all_conv) blast

lemma raw_str_json_ok: "cstring m \<Longrightarrow> raw_str_json m = Inr (''{ \"raw_str\": \"'' @ m @ ''\"}'')"
  by (simp add: raw_str_json_def local_text_ok cut_cstring)

definition incoming_json :: "'d bridge_env \<Rightarrow> string \<Rightarrow> 'd cJSON option" where
  "incoming_json e m =
     (case cJSON_Parse (json e) (Some m) of
        Some j \<Rightarrow> Some j | None \<Rightarrow> cJSON_Parse (json e) (Some (''{ \"raw_str\": \"'' @ m @ ''\"}'')))"

lemma on_publish_request:
  assumes "text_of (s_rt_topic s) own" and "cstring topic" and "cstring m" and "topic \<noteq> own"
  shows "on_publish e topic m s
    = Inr (s\<lparr>m_rt := snd (rt_req_request (base e) (''/event/'' @ topic) (COAP_EVENT_PUB (wamr (base e)))
        (incoming_json e m) (m_rt s))\<rparr>)"
proof -
  have "local_text (length topic + length ''/event/'' + 1) (''/event/'' @ cut topic) = Inr (''/event/'' @ topic)"
    using assms(2) by (simp add: local_text_ok cut_cstring)
  moreover have "(case cJSON_Parse (json e) (Some (cut m)) of
                    Some j \<Rightarrow> Inr (Some j)
                  | None \<Rightarrow> bind_res (raw_str_json m) (\<lambda>t. Inr (cJSON_Parse (json e) (Some t)))) = Inr (incoming_json e m)"
    using assms(3) by (simp add: cut_cstring raw_str_json_ok incoming_json_def split: option.splits)
  ultimately show ?thesis using assms(1,4) by (simp add: on_publish_def text_of_def)
qed

text \<open>
  A message that arrives by MQTT: one on the runtime's own topic is ignored, any other goes to
  the runtime as an event on \<open>/event/<topic>\<close>, its text wrapped as \<open>raw_str\<close> when it does not
  parse; and whenever the request is made it takes the place of the request an HTTP client may be
  waiting for: the identifier and the kind that a response is compared with are the new ones.
\<close>

theorem incoming_publish_takes_over_pending:
  assumes "text_of (s_rt_topic s) own" and "cstring topic" and "cstring m"
  shows "(topic = own \<longrightarrow> mqtt_ev_handler e (MG_EV_MQTT_PUBLISH topic m) s = Inr s)
    \<and> (topic \<noteq> own \<longrightarrow> (\<exists>s'. mqtt_ev_handler e (MG_EV_MQTT_PUBLISH topic m) s = Inr s'
      \<and> m_rt s' = snd (rt_req_request (base e) (''/event/'' @ topic) (COAP_EVENT_PUB (wamr (base e)))
                         (incoming_json e m) (m_rt s))
      \<and> ((\<exists>j. incoming_json e m = Some j \<and> json2attr (attrs (base e)) (mem_ok (base e)) j = None)
         \<or> get_pending_request_info (m_rt s') = (rnd (base e) (rand_calls (m_rt s)), REQUEST))))"
proof -
  have part1: "topic = own \<longrightarrow> mqtt_ev_handler e (MG_EV_MQTT_PUBLISH topic m) s = Inr s"
    using assms(1) by (simp add: mqtt_ev_handler_def on_publish_def text_of_def)
  let ?r = "rt_req_request (base e) (''/event/'' @ topic) (COAP_EVENT_PUB (wamr (base e))) (incoming_json e m) (m_rt s)"
  have "get_pending_request_info (snd ?r) = (rnd (base e) (rand_calls (m_rt s)), REQUEST)"
    if "\<not> (\<exists>j. incoming_json e m = Some j \<and> json2attr (attrs (base e)) (mem_ok (base e)) j = None)"
  proof -
    obtain r s' where rs: "?r = (r, s')" by fastforce
    with that have "g_mid s' = rnd (base e) (rand_calls (m_rt s)) \<and> g_req_op_type s' = REQUEST"
      by (auto simp: rt_req_request_def dest!: issue_pending split: option.splits)
    with rs show ?thesis by (simp add: get_pending_request_info_def)
  qed
  note pending = this
  have part2: "topic \<noteq> own \<longrightarrow> (\<exists>s'. mqtt_ev_handler e (MG_EV_MQTT_PUBLISH topic m) s = Inr s'
      \<and> m_rt s' = snd ?r
      \<and> ((\<exists>j. incoming_json e m = Some j \<and> json2attr (attrs (base e)) (mem_ok (base e)) j = None)
         \<or> get_pending_request_info (m_rt s') = (rnd (base e) (rand_calls (m_rt s)), REQUEST)))"
  proof
    assume "topic \<noteq> own"
    let ?s = "s\<lparr>m_rt := snd ?r\<rparr>"
    have "mqtt_ev_handler e (MG_EV_MQTT_PUBLISH topic m) s = Inr ?s"
      unfolding mqtt_ev_handler_def mg_event.case by (rule on_publish_request [OF assms \<open>topic \<noteq> own\<close>])
    moreover have "m_rt ?s = snd ?r" by simp
    ultimately show "\<exists>s'. mqtt_ev_handler e (MG_EV_MQTT_PUBLISH topic m) s = Inr s'
      \<and> m_rt s' = snd ?r
      \<and> ((\<exists>j. incoming_json e m = Some j \<and> json2attr (attrs (base e)) (mem_ok (base e)) j = None)
         \<or> get_pending_request_info (m_rt s') = (rnd (base e) (rand_calls (m_rt s)), REQUEST))"
      using pending by metis
  qed
  from part1 part2 show ?thesis by (rule conjI)
qed

theorem incoming_publish_takes_over_pending_witness:
  "\<exists>s'. mqtt_ev_handler demo_bridge (MG_EV_MQTT_PUBLISH ''light'' ''on'')
      (demo_mqtt\<lparr>m_rt := demo_rt\<lparr>g_mid := 5, g_req_op_type := INSTALL\<rparr>\<rparr>) = Inr s'
    \<and> get_pending_request_info (m_rt s') = (41, REQUEST)"
proof -
  let ?s = "demo_mqtt\<lparr>m_rt := demo_rt\<lparr>g_mid := 5, g_req_op_type := INSTALL\<rparr>\<rparr>"
  have own: "text_of (s_rt_topic ?s) ''realm/r/runtime1''" using demo_names by (simp add: mq_names_def)
  have "\<not> (\<exists>j. incoming_json demo_bridge ''on'' = Some j
      \<and> json2attr (attrs (base demo_bridge)) (mem_ok (base demo_bridge)) j = None)"
    and "rnd (base demo_bridge) (rand_calls (m_rt ?s)) = 41"
    by (auto simp: incoming_json_def demo_bridge_def demo_json_def demo_env_def json2attr_def demo_attr_def
        demo_rt_def)
  with incoming_publish_takes_over_pending [OF own, of "''light''" "''on''" demo_bridge, THEN conjunct2]
  show ?thesis by auto
qed

text \<open>
  Announcing the runtime: the last will is set on the topic \<open><prefix>/<uuid>\<close>, but the start
  message goes to \<open><prefix>\<close>, which is never the topic of the will when that topic fits its array.
\<close>

theorem start_message_not_on_runtime_topic:
  assumes "text_of (rt_uuid (conf e)) uuid" and "text_of (rt_topic_prefix (conf e)) pfx"
    and "length (s_rt_topic s) = 200" and "length (s_rt_last_will_msg s) = 200"
  shows "\<exists>s'. mqtt_events e [MG_EV_CONNECT, MG_EV_MQTT_CONNACK 0] s = Inr s'
    \<and> mq_out s' = mq_out s @
        [Mq_Handshake uuid (take 199 (pfx @ ''/'' @ uuid)) (take 199 (FMTSTR_EVENT_RT_START_JSON uuid uuid EVENT_RT_STOP)),
         Mq_Publish pfx (take 199 (FMTSTR_EVENT_RT_START_JSON uuid uuid EVENT_RT_START))]
    \<and> (length (pfx @ ''/'' @ uuid) \<le> 199 \<longrightarrow> pfx \<noteq> take 199 (pfx @ ''/'' @ uuid))"
proof -
  have cs: "cstring uuid" "cstring pfx" using assms(1,2) by (simp_all add: text_of_iff)
  have "cstring (FMTSTR_EVENT_RT_START_JSON uuid uuid EVENT_RT_STOP)" and "cstring (pfx @ ''/'' @ uuid)"
    using cs by simp_all
  note cs2 = this
  have z: "(0::nat) < 200" "200 \<le> length (s_rt_topic s)" "200 \<le> length (s_rt_last_will_msg s)"
    using assms(3,4) by simp_all
  obtain w where w: "snprintf_at (s_rt_last_will_msg s) 0 200 (FMTSTR_EVENT_RT_START_JSON uuid uuid EVENT_RT_STOP) = Inr w"
      "text_of w (take (200 - 1) (FMTSTR_EVENT_RT_START_JSON uuid uuid EVENT_RT_STOP))"
    using snprintf_at_start [OF cs2(1) z(1,3)] by blast
  obtain t where t: "snprintf_at (s_rt_topic s) 0 200 (pfx @ ''/'' @ uuid) = Inr t" "text_of t (take (200 - 1) (pfx @ ''/'' @ uuid))"
    using snprintf_at_start [OF cs2(2) z(1,2)] by blast
  have l: "local_text 200 (FMTSTR_EVENT_RT_START_JSON uuid uuid EVENT_RT_START)
        = Inr (take 199 (FMTSTR_EVENT_RT_START_JSON uuid uuid EVENT_RT_START))"
    "local_text 200 (pfx @ uuid) = Inr (take 199 (pfx @ uuid))"
    using cs by (simp_all add: local_text_ok del: take_append)
  have "on_connect e s = Inr (mq_act (Mq_Handshake uuid (take 199 (pfx @ ''/'' @ uuid))
      (take 199 (FMTSTR_EVENT_RT_START_JSON uuid uuid EVENT_RT_STOP))) (s\<lparr>s_rt_last_will_msg := w, s_rt_topic := t\<rparr>))"
    unfolding on_connect_def using assms(1,2) w t by (simp add: text_of_def del: take_append append.simps)
  moreover have "on_connack e s1 = Inr (mq_act (Mq_Publish pfx (take 199 (FMTSTR_EVENT_RT_START_JSON uuid uuid EVENT_RT_START))) s1)" for s1
    unfolding on_connack_def using assms(1,2) l by (simp add: text_of_def del: take_append)
  moreover have "pfx \<noteq> take 199 (pfx @ ''/'' @ uuid)" if "length (pfx @ ''/'' @ uuid) \<le> 199"
    using that by simp
  ultimately show ?thesis
    by (simp add: mqtt_ev_handler_def del: take_append append.simps length_append)
qed

theorem start_message_not_on_runtime_topic_witness:
  "\<exists>s'. mqtt_events demo_bridge [MG_EV_CONNECT, MG_EV_MQTT_CONNACK 0] demo_mqtt = Inr s'
    \<and> mq_out s' = [Mq_Handshake ''runtime1'' ''realm/r/runtime1'' (take 199 (FMTSTR_EVENT_RT_START_JSON ''runtime1'' ''runtime1'' EVENT_RT_STOP)),
        Mq_Publish ''realm/r'' (take 199 (FMTSTR_EVENT_RT_START_JSON ''runtime1'' ''runtime1'' EVENT_RT_START))]"
proof -
  have "text_of (rt_uuid (conf demo_bridge)) ''runtime1''" and "text_of (rt_topic_prefix (conf demo_bridge)) ''realm/r''"
    and "length (s_rt_topic demo_mqtt) = 200" "length (s_rt_last_will_msg demo_mqtt) = 200" and "mq_out demo_mqtt = []"
    using demo_names by (simp_all add: mq_names_def demo_mqtt_def text_buf_def)
  from start_message_not_on_runtime_topic [OF this(1-4)] this(5) show ?thesis by simp
qed

end
