(* ===== verification/Http.thy ===== *)
theory Http
  imports Mqtt
begin

text \<open>
  The REST interface of the bridge (bridge-tool/src/http.h and http.c). One connection is served
  at a time by the thread of \<open>http_pool_requests\<close>: \<open>http_handle_modules\<close> starts a request to the
  runtime, blocks in \<open>rt_conn_wait_pending_response\<close> and answers. The model has the part before
  the wait (\<open>http_handle_modules\<close>) and the part after it (\<open>http_answer\<close>). Mongoose's header and
  form lookups are parameters, what it is asked to send is a list.
\<close>

section \<open>State and status codes\<close>

definition HTTP_CREATED_201 :: int where "HTTP_CREATED_201 = 201"
definition HTTP_ACCEPTED_202 :: int where "HTTP_ACCEPTED_202 = 202"
definition HTTP_OK_200 :: int where "HTTP_OK_200 = 200"
definition HTTP_CONTINUE_100 :: int where "HTTP_CONTINUE_100 = 100"
definition HTTP_BAD_REQUEST_400 :: int where "HTTP_BAD_REQUEST_400 = 400"
definition HTTP_UNAUTHORIZED_401 :: int where "HTTP_UNAUTHORIZED_401 = 401"
definition HTTP_FORBIDDEN_403 :: int where "HTTP_FORBIDDEN_403 = 403"
definition HTTP_NOT_FOUND_404 :: int where "HTTP_NOT_FOUND_404 = 404"
definition HTTP_METHOD_NOT_ALLOWED_405 :: int where "HTTP_METHOD_NOT_ALLOWED_405 = 405"
definition HTTP_NOT_ACCEPTABLE_406 :: int where "HTTP_NOT_ACCEPTABLE_406 = 406"
definition HTTP_PRECONDITION_FAILED_412 :: int where "HTTP_PRECONDITION_FAILED_412 = 412"
definition HTTP_REQUEST_ENTITY_TOO_LARGE_413 :: int where "HTTP_REQUEST_ENTITY_TOO_LARGE_413 = 413"
definition HTTP_UNSUPPORTED_MEDIA_TYPE_415 :: int where "HTTP_UNSUPPORTED_MEDIA_TYPE_415 = 415"
definition HTTP_INTERNAL_SERVER_ERROR_500 :: int where "HTTP_INTERNAL_SERVER_ERROR_500 = 500"
definition HTTP_NOT_IMPLEMENTED_501 :: int where "HTTP_NOT_IMPLEMENTED_501 = 501"
definition HTTP_BAD_GATEWAY_502 :: int where "HTTP_BAD_GATEWAY_502 = 502"
definition HTTP_SERVICE_UNAVAILABLE_503 :: int where "HTTP_SERVICE_UNAVAILABLE_503 = 503"
definition HTTP_GATEWAY_TIMEOUT_504 :: int where "HTTP_GATEWAY_TIMEOUT_504 = 504"

text \<open>The \<open>case\<close> labels of \<open>coap_to_http_status\<close>.\<close>

datatype coap_status =
    CREATED_2_01
  | DELETED_2_02
  | VALID_2_03
  | CHANGED_2_04
  | CONTENT_2_05
  | CONTINUE_2_31
  | BAD_REQUEST_4_00
  | BAD_OPTION_4_02
  | UNAUTHORIZED_4_01
  | FORBIDDEN_4_03
  | NOT_FOUND_4_04
  | METHOD_NOT_ALLOWED_4_05
  | NOT_ACCEPTABLE_4_06
  | PRECONDITION_FAILED_4_12
  | REQUEST_ENTITY_TOO_LARGE_4_13
  | UNSUPPORTED_MEDIA_TYPE_4_15
  | INTERNAL_SERVER_ERROR_5_00
  | PROXYING_NOT_SUPPORTED_5_05
  | NOT_IMPLEMENTED_5_01
  | BAD_GATEWAY_5_02
  | SERVICE_UNAVAILABLE_5_03
  | GATEWAY_TIMEOUT_5_04

record http_message =
  hm_method :: string
  hm_uri :: string
  hm_body :: string
  hm_content_type :: "string option"   \<comment> \<open>the result of \<open>mg_get_http_header\<close>\<close>

datatype http_action = Http_Reply int string string | Http_Static | Http_Raw string

text \<open>
  \<open>get_http_var body name size\<close> gives the return value of \<open>mg_get_http_var\<close> and the text it
  stores; \<open>coap_of\<close> gives the label that a CoAP status selects.
\<close>

record 'd http_env =
  br :: "'d bridge_env"
  get_http_var :: "string \<Rightarrow> string \<Rightarrow> nat \<Rightarrow> int \<times> string"
  coap_of :: "int \<Rightarrow> coap_status option"

record http_state =
  mq :: mqtt_state
  last_response_str :: "string option"
  last_response_status :: int
  http_sent :: "http_action list"

definition CT_HEADER_JSON :: string where
  "CT_HEADER_JSON = ''Content-Type: application/json''"

definition FMT_STR_JSON_ERROR_MSG :: "string \<Rightarrow> string" where
  "FMT_STR_JSON_ERROR_MSG m = ''{ \"error message\": \"'' @ m @ ''\"}''"

definition coap_to_http_status :: "'d http_env \<Rightarrow> int \<Rightarrow> int" where
  "coap_to_http_status e st =
     (case coap_of e st of
          Some CREATED_2_01 \<Rightarrow> HTTP_CREATED_201
        | Some DELETED_2_02 \<Rightarrow> HTTP_ACCEPTED_202
        | Some VALID_2_03 \<Rightarrow> HTTP_ACCEPTED_202
        | Some CHANGED_2_04 \<Rightarrow> HTTP_ACCEPTED_202
        | Some CONTENT_2_05 \<Rightarrow> HTTP_OK_200
        | Some CONTINUE_2_31 \<Rightarrow> HTTP_CONTINUE_100
        | Some BAD_REQUEST_4_00 \<Rightarrow> HTTP_BAD_REQUEST_400
        | Some BAD_OPTION_4_02 \<Rightarrow> HTTP_BAD_REQUEST_400
        | Some UNAUTHORIZED_4_01 \<Rightarrow> HTTP_UNAUTHORIZED_401
        | Some FORBIDDEN_4_03 \<Rightarrow> HTTP_FORBIDDEN_403
        | Some NOT_FOUND_4_04 \<Rightarrow> HTTP_NOT_FOUND_404
        | Some METHOD_NOT_ALLOWED_4_05 \<Rightarrow> HTTP_METHOD_NOT_ALLOWED_405
        | Some NOT_ACCEPTABLE_4_06 \<Rightarrow> HTTP_NOT_ACCEPTABLE_406
        | Some PRECONDITION_FAILED_4_12 \<Rightarrow> HTTP_PRECONDITION_FAILED_412
        | Some REQUEST_ENTITY_TOO_LARGE_4_13 \<Rightarrow> HTTP_REQUEST_ENTITY_TOO_LARGE_413
        | Some UNSUPPORTED_MEDIA_TYPE_4_15 \<Rightarrow> HTTP_UNSUPPORTED_MEDIA_TYPE_415
        | Some INTERNAL_SERVER_ERROR_5_00 \<Rightarrow> HTTP_INTERNAL_SERVER_ERROR_500
        | Some PROXYING_NOT_SUPPORTED_5_05 \<Rightarrow> HTTP_NOT_IMPLEMENTED_501
        | Some NOT_IMPLEMENTED_5_01 \<Rightarrow> HTTP_NOT_IMPLEMENTED_501
        | Some BAD_GATEWAY_5_02 \<Rightarrow> HTTP_BAD_GATEWAY_502
        | Some SERVICE_UNAVAILABLE_5_03 \<Rightarrow> HTTP_SERVICE_UNAVAILABLE_503
        | Some GATEWAY_TIMEOUT_5_04 \<Rightarrow> HTTP_GATEWAY_TIMEOUT_504
      | None \<Rightarrow> HTTP_NOT_IMPLEMENTED_501)"

section \<open>Answers\<close>

definition http_send :: "http_action \<Rightarrow> http_state \<Rightarrow> http_state" where
  "http_send a s = s\<lparr>http_sent := http_sent s @ [a]\<rparr>"

text \<open>
  \<open>mg_printf (nc, fmt, argptr)\<close>: the argument of a conversion in \<open>fmt\<close> is the \<open>va_list\<close>
  itself.
\<close>

definition http_printf :: "string \<Rightarrow> http_state \<Rightarrow> http_state res" where
  "http_printf f s = (if CHR ''%'' \<in> set f then Inl Bad_Vararg else Inr (http_send (Http_Raw f) s))"

definition http_printf_with_status :: "int \<Rightarrow> string \<Rightarrow> string \<Rightarrow> http_state \<Rightarrow> http_state res" where
  "http_printf_with_status http_status content_type_header msg s =
     bind_res (local_text 256 msg) (\<lambda>body. Inr (http_send (Http_Reply http_status content_type_header body) s))"

definition http_error :: "int \<Rightarrow> string \<Rightarrow> http_state \<Rightarrow> (int \<times> http_state) res" where
  "http_error st m s =
     bind_res (http_printf_with_status st CT_HEADER_JSON (FMT_STR_JSON_ERROR_MSG m) s) (\<lambda>s. Inr (- 1, s))"

definition http_attr_container_to_str :: "'d bridge_env \<Rightarrow> byte list option \<Rightarrow> int \<Rightarrow> int \<Rightarrow> string option res" where
  "http_attr_container_to_str e pl format len =
     (if format \<noteq> FMT_ATTR_CONTAINER (wamr (base e)) \<or> pl = None \<or> len \<le> 0 then Inr None
      else bind_res (attr2json (attrs (base e)) (mem_ok (base e)) pl) (\<lambda>j.
        Inr (case j of None \<Rightarrow> None | Some j \<Rightarrow> cJSON_Print (json e) j)))"

definition http_output_runtime_response :: "'d http_env \<Rightarrow> response_t \<Rightarrow> http_state \<Rightarrow> http_state res" where
  "http_output_runtime_response e obj s =
     bind_res (http_attr_container_to_str (br e) (r_payload obj) (r_fmt obj) (r_payload_len obj)) (\<lambda>t.
       let s = s\<lparr>last_response_status := coap_to_http_status e (r_status obj), last_response_str := t\<rparr>
       in if t = None then http_printf ''%s'' s else Inr s)"

section \<open>Requests\<close>

definition with_rt :: "(rt_state \<Rightarrow> (int \<times> rt_state) res) \<Rightarrow> http_state \<Rightarrow> (int \<times> http_state) res" where
  "with_rt f s =
     bind_res (f (m_rt (mq s))) (\<lambda>(r, rt). Inr (r, s\<lparr>mq := (mq s)\<lparr>m_rt := rt\<rparr>\<rparr>))"

text \<open>\<open>char str_module_name[50] = ""; strncpy (str_module_name, v, sizeof (str_module_name))\<close>\<close>

definition copy_name :: "string \<Rightarrow> string res" where
  "copy_name v = bind_res (strncpy_at (zero_buf 50) 0 v 50) (\<lambda>b. read_cstr b 0)"

definition body_json :: "'d http_env \<Rightarrow> http_message \<Rightarrow> 'd cJSON option" where
  "body_json e hm = cJSON_Parse (json (br e)) (Some (cut (hm_body hm)))"

definition json_member :: "'d http_env \<Rightarrow> 'd cJSON \<Rightarrow> string \<Rightarrow> string option" where
  "json_member e j k = json_string (cJSON_GetObjectItemCaseSensitive (json (br e)) j k)"

definition FORM :: string where "FORM = ''application/x-www-form-urlencoded''"
definition JSON :: string where "JSON = ''application/json''"

definition uninstall_named :: "'d http_env \<Rightarrow> string \<Rightarrow> http_state \<Rightarrow> (int \<times> http_state) res" where
  "uninstall_named e name s =
     bind_res (with_rt (rt_req_uninstall (base (br e)) name None) s) (\<lambda>(r, s).
       if r < 0 then http_error HTTP_BAD_REQUEST_400 ''Error installing (wasm file not found?).'' s else Inr (0, s))"

definition http_handle_module_uninstall :: "'d http_env \<Rightarrow> http_message \<Rightarrow> http_state \<Rightarrow> (int \<times> http_state) res" where
  "http_handle_module_uninstall e hm s =
     (case hm_content_type hm of
        None \<Rightarrow> Inl Null_Deref
      | Some ct \<Rightarrow>
          if ct = FORM
          then (case get_http_var e (hm_body hm) ''name'' 50 of (r, name) \<Rightarrow>
                  if r \<le> 0 then http_error HTTP_BAD_REQUEST_400 ''Missing module name.'' s
                  else uninstall_named e name s)
          else if ct = JSON
          then (case body_json e hm of
                  None \<Rightarrow> http_error HTTP_BAD_REQUEST_400 ''Could not parse request json.'' s
                | Some j \<Rightarrow>
                    (case json_member e j ''name'' of
                       None \<Rightarrow> http_error HTTP_BAD_REQUEST_400 (''Could not parse json for '' @ [CHR 0x27] @ ''name'' @ [CHR 0x27] @ ''.'') s
                     | Some v \<Rightarrow> bind_res (copy_name v) (\<lambda>name. uninstall_named e name s)))
          else http_error HTTP_UNSUPPORTED_MEDIA_TYPE_415 ''Only support x-www-form-urlencoded and json media types.'' s)"

definition wasm_path :: "'d http_env \<Rightarrow> string \<Rightarrow> string res" where
  "wasm_path e f =
     bind_res (read_cstr (rt_wasm_files_folder (conf (br e))) 0) (\<lambda>folder. local_text 100 (folder @ ''/'' @ f))"

definition install_named :: "'d http_env \<Rightarrow> string \<Rightarrow> string \<Rightarrow> http_state \<Rightarrow> (int \<times> http_state) res" where
  "install_named e path name s =
     bind_res (with_rt (rt_req_install (base (br e)) (Some path) None 0 name None 0 0 0) s) (\<lambda>(r, s).
       if r < 0 then http_error HTTP_BAD_REQUEST_400 ''Error installing (wasm file not found?).'' s else Inr (0, s))"

definition http_handle_module_install :: "'d http_env \<Rightarrow> http_message \<Rightarrow> http_state \<Rightarrow> (int \<times> http_state) res" where
  "http_handle_module_install e hm s =
     (case hm_content_type hm of
        None \<Rightarrow> Inl Null_Deref
      | Some ct \<Rightarrow>
          if ct = FORM
          then (case get_http_var e (hm_body hm) ''name'' 50 of (r, name) \<Rightarrow>
                  if r \<le> 0 then http_error HTTP_BAD_REQUEST_400 ''Missing module name.'' s
                  else (case get_http_var e (hm_body hm) ''wasm_file'' 50 of (r, f) \<Rightarrow>
                          if r \<le> 0 then http_error HTTP_BAD_REQUEST_400 ''Missing wasm file name.'' s
                          else bind_res (wasm_path e f) (\<lambda>path. install_named e path name s)))
          else if ct = JSON
          then (case body_json e hm of
                  None \<Rightarrow> http_error HTTP_BAD_REQUEST_400 ''Could not parse request json.'' s
                | Some j \<Rightarrow>
                    (case json_member e j ''name'' of
                       None \<Rightarrow> http_error HTTP_BAD_REQUEST_400 (''Could not parse json for '' @ [CHR 0x27] @ ''name'' @ [CHR 0x27] @ ''.'') s
                     | Some v \<Rightarrow>
                         (case json_member e j ''wasm_file'' of
                            None \<Rightarrow> http_error HTTP_BAD_REQUEST_400 (''Could not parse jason for '' @ [CHR 0x27] @ ''wasm_file'' @ [CHR 0x27] @ ''.'') s
                          | Some f \<Rightarrow> bind_res (wasm_path e f) (\<lambda>path.
                              bind_res (copy_name v) (\<lambda>name. install_named e path name s)))))
          else http_error HTTP_UNSUPPORTED_MEDIA_TYPE_415 ''Only support x-www-form-urlencoded and json media types.'' s)"

text \<open>The part before the wait; the first component tells whether the wait follows.\<close>

definition http_handle_modules :: "'d http_env \<Rightarrow> http_message \<Rightarrow> http_state \<Rightarrow> (bool \<times> http_state) res" where
  "http_handle_modules e hm s =
     (if hm_method hm = ''POST'' then bind_res (http_handle_module_install e hm s) (\<lambda>(_, s). Inr (True, s))
      else if hm_method hm = ''DELETE'' then bind_res (http_handle_module_uninstall e hm s) (\<lambda>(_, s). Inr (True, s))
      else if hm_method hm = ''GET'' then bind_res (with_rt (rt_req_query (base (br e)) None) s) (\<lambda>(_, s). Inr (True, s))
      else bind_res (http_error HTTP_METHOD_NOT_ALLOWED_405 ''Method not supported.'' s) (\<lambda>(_, s). Inr (False, s)))"

text \<open>The part after the wait.\<close>

definition http_answer :: "http_state \<Rightarrow> http_state res" where
  "http_answer s =
     (case last_response_str s of
        Some t \<Rightarrow> bind_res (http_printf_with_status (last_response_status s) CT_HEADER_JSON t s)
                    (\<lambda>s. Inr (s\<lparr>last_response_str := None\<rparr>))
      | None \<Rightarrow> http_printf ''%s'' s)"

definition http_ev_handler :: "'d http_env \<Rightarrow> http_message \<Rightarrow> http_state \<Rightarrow> (bool \<times> http_state) res" where
  "http_ev_handler e hm s =
     (if hm_uri hm = ''/cwasm/v1/modules'' then http_handle_modules e hm s else Inr (False, http_send Http_Static s))"

section \<open>Properties\<close>

lemma printf_with_status_ok:
  "cstring m \<Longrightarrow> http_printf_with_status st ct m s = Inr (http_send (Http_Reply st ct (take 255 m)) s)"
  by (simp add: http_printf_with_status_def local_text_ok)

lemma http_send_simps [simp]:
  "mq (http_send a s) = mq s" "last_response_str (http_send a s) = last_response_str s"
  "last_response_status (http_send a s) = last_response_status s" "http_sent (http_send a s) = http_sent s @ [a]"
  by (simp_all add: http_send_def)

lemma http_error_ok:
  "cstring m \<Longrightarrow> http_error st m s
    = Inr (- 1, http_send (Http_Reply st CT_HEADER_JSON (take 255 (FMT_STR_JSON_ERROR_MSG m))) s)"
  by (simp add: http_error_def printf_with_status_ok FMT_STR_JSON_ERROR_MSG_def)

lemma copy_name_short: "cstring v \<Longrightarrow> length v < 50 \<Longrightarrow> copy_name v = Inr v"
  using strncpy_at_short [of v 50 "zero_buf 50"] by (auto simp: copy_name_def text_of_def)

lemma copy_name_long: "cstring v \<Longrightarrow> 50 \<le> length v \<Longrightarrow> copy_name v = Inl Out_Of_Bounds"
  using strncpy_at_full [of v 50 "zero_buf 50"] by (simp add: copy_name_def)

text \<open>
  A response of the runtime reaches the client that waits: when its payload prints as \<open>t\<close>, the
  answer has the HTTP status of the CoAP status and the first 255 bytes of \<open>t\<close>, so a longer list of
  modules arrives cut in the middle of its JSON; afterwards no response is left over.
\<close>

theorem http_response_delivered:
  assumes "http_attr_container_to_str (br e) (r_payload obj) (r_fmt obj) (r_payload_len obj) = Inr (Some t)"
    and "cstring t"
  shows "\<exists>s1 s2. http_output_runtime_response e obj s = Inr s1 \<and> http_answer s1 = Inr s2
    \<and> http_sent s2 = http_sent s @ [Http_Reply (coap_to_http_status e (r_status obj)) CT_HEADER_JSON (take 255 t)]
    \<and> last_response_str s2 = None \<and> mq s2 = mq s \<and> (take 255 t = t \<longleftrightarrow> length t \<le> 255)"
  using assms by (simp add: http_output_runtime_response_def Let_def http_answer_def printf_with_status_ok take_all_iff)

definition demo_http :: "int http_env" where
  "demo_http = \<lparr>br = demo_bridge\<lparr>conf := (conf demo_bridge)\<lparr>rt_wasm_files_folder := text_buf 100 ''wasm-apps''\<rparr>\<rparr>,
     get_http_var = (\<lambda>_ _ _. (- 1, [])), coap_of = (\<lambda>c. if c = 65 then Some CREATED_2_01 else None)\<rparr>"

definition demo_http_state :: http_state where
  "demo_http_state = \<lparr>mq = demo_mqtt, last_response_str = None, last_response_status = 0, http_sent = []\<rparr>"

definition demo_created :: response_t where
  "demo_created = demo_answer\<lparr>r_payload := Some [7, 0], r_payload_len := 2\<rparr>"

theorem http_response_delivered_witness:
  "\<exists>s1 s2. http_output_runtime_response demo_http demo_created demo_http_state = Inr s1 \<and> http_answer s1 = Inr s2
    \<and> http_sent s2 = [Http_Reply 201 CT_HEADER_JSON ''{}'']"
proof -
  have "http_attr_container_to_str (br demo_http) (r_payload demo_created) (r_fmt demo_created) (r_payload_len demo_created)
      = Inr (Some ''{}'')"
    by (simp add: http_attr_container_to_str_def demo_http_def demo_bridge_def demo_env_def demo_wamr_def demo_created_def
        demo_answer_def attr2json_def demo_attr_def demo_json_def)
  moreover have "coap_to_http_status demo_http (r_status demo_created) = 201" and "http_sent demo_http_state = []"
    by (simp_all add: coap_to_http_status_def demo_http_def demo_created_def demo_answer_def HTTP_CREATED_201_def
        demo_http_state_def)
  ultimately show ?thesis
    using http_response_delivered [of demo_http demo_created "''{}''" demo_http_state] by auto
qed

text \<open>
  C38. A rejected request has two endings: with a content type that is neither of the two, the
  client gets a 415 answer, nothing is sent to the runtime, and the handler then goes on to wait
  and to answer a second time; as there is no response, that answer passes a \<open>va_list\<close> where the
  format wants a string. A request without a content type dereferences NULL.
\<close>

theorem http_rejection_undefined:
  assumes "hm_method hm \<in> {''POST'', ''DELETE''}" and "last_response_str s = None"
  shows "(hm_content_type hm = None \<longrightarrow> http_handle_modules e hm s = Inl Null_Deref)
    \<and> (\<forall>ct. hm_content_type hm = Some ct \<and> ct \<notin> {FORM, JSON} \<longrightarrow>
      (\<exists>s1 body. http_handle_modules e hm s = Inr (True, s1)
        \<and> http_sent s1 = http_sent s @ [Http_Reply 415 CT_HEADER_JSON body]
        \<and> m_rt (mq s1) = m_rt (mq s) \<and> http_answer s1 = Inl Bad_Vararg))"
proof -
  have part1: "hm_content_type hm = None \<longrightarrow> http_handle_modules e hm s = Inl Null_Deref"
    using assms(1) by (auto simp: http_handle_modules_def http_handle_module_install_def http_handle_module_uninstall_def)
  have m: "cstring ''Only support x-www-form-urlencoded and json media types.''" by simp
  have part2: "\<forall>ct. hm_content_type hm = Some ct \<and> ct \<notin> {FORM, JSON} \<longrightarrow>
      (\<exists>s1 body. http_handle_modules e hm s = Inr (True, s1)
        \<and> http_sent s1 = http_sent s @ [Http_Reply 415 CT_HEADER_JSON body]
        \<and> m_rt (mq s1) = m_rt (mq s) \<and> http_answer s1 = Inl Bad_Vararg)"
    using assms
    by (auto simp: http_handle_modules_def http_handle_module_install_def http_handle_module_uninstall_def
        http_error_ok [OF m] HTTP_UNSUPPORTED_MEDIA_TYPE_415_def http_answer_def http_printf_def)
  from part1 part2 show ?thesis by (rule conjI)
qed

definition demo_bad_request :: http_message where
  "demo_bad_request = \<lparr>hm_method = ''POST'', hm_uri = ''/cwasm/v1/modules'', hm_body = [], hm_content_type = Some ''text/plain''\<rparr>"

theorem http_rejection_undefined_witness:
  "\<exists>s1 body. http_handle_modules demo_http demo_bad_request demo_http_state = Inr (True, s1)
    \<and> http_sent s1 = [Http_Reply 415 CT_HEADER_JSON body] \<and> http_answer s1 = Inl Bad_Vararg"
proof -
  have "hm_method demo_bad_request \<in> {''POST'', ''DELETE''}" and "last_response_str demo_http_state = None"
    and "hm_content_type demo_bad_request = Some ''text/plain''" and "''text/plain'' \<notin> {FORM, JSON}"
    and "http_sent demo_http_state = []"
    by (simp_all add: demo_bad_request_def demo_http_state_def FORM_def JSON_def)
  with http_rejection_undefined [OF this(1,2), of demo_http, THEN conjunct2] show ?thesis by auto
qed

text \<open>An install request by JSON, from the body to the request that is sent.\<close>

lemma json_install_cases:
  assumes "hm_method hm = ''POST''" and "hm_content_type hm = Some JSON" and "body_json e hm = Some j"
    and "json_member e j ''name'' = Some v" and "json_member e j ''wasm_file'' = Some f"
    and "text_of (rt_wasm_files_folder (conf (br e))) folder" and "cstring v" and "cstring f"
  shows "(50 \<le> length v \<longrightarrow> http_handle_modules e hm s = Inl Out_Of_Bounds)
    \<and> (length v < 50 \<longrightarrow> http_handle_modules e hm s
      = bind_res (rt_req_install (base (br e)) (Some (take 99 (folder @ ''/'' @ f))) None 0 v None 0 0 0 (m_rt (mq s)))
          (\<lambda>(r, rt). Inr (True, let s = s\<lparr>mq := (mq s)\<lparr>m_rt := rt\<rparr>\<rparr>
             in if r < 0 then http_send (Http_Reply 400 CT_HEADER_JSON
                  (FMT_STR_JSON_ERROR_MSG ''Error installing (wasm file not found?).'')) s else s)))"
proof -
  have folder: "read_cstr (rt_wasm_files_folder (conf (br e))) 0 = Inr folder" "cstring folder"
    using assms(6) by (simp_all add: text_of_def text_of_iff) (use assms(6) in \<open>simp add: text_of_iff\<close>)
  then have path: "wasm_path e f = Inr (take 99 (folder @ ''/'' @ f))"
    using assms(8) by (simp add: wasm_path_def local_text_ok del: take_append append.simps)
  have ne: "JSON \<noteq> FORM" by (simp add: JSON_def FORM_def)
  have start: "http_handle_modules e hm s = bind_res (bind_res (copy_name v) (\<lambda>name.
      install_named e (take 99 (folder @ ''/'' @ f)) name s)) (\<lambda>(_, s). Inr (True, s))"
    using assms(1-5) path ne by (simp add: http_handle_modules_def http_handle_module_install_def del: take_append append.simps)
  have part1: "50 \<le> length v \<longrightarrow> http_handle_modules e hm s = Inl Out_Of_Bounds"
    using start assms(7) by (simp add: copy_name_long)
  have err: "http_error HTTP_BAD_REQUEST_400 ''Error installing (wasm file not found?).'' s'
      = Inr (- 1, http_send (Http_Reply 400 CT_HEADER_JSON (FMT_STR_JSON_ERROR_MSG ''Error installing (wasm file not found?).'')) s')" for s'
    by (subst http_error_ok) (simp_all add: HTTP_BAD_REQUEST_400_def FMT_STR_JSON_ERROR_MSG_def)
  have part2: "length v < 50 \<longrightarrow> http_handle_modules e hm s
      = bind_res (rt_req_install (base (br e)) (Some (take 99 (folder @ ''/'' @ f))) None 0 v None 0 0 0 (m_rt (mq s)))
          (\<lambda>(r, rt). Inr (True, let s = s\<lparr>mq := (mq s)\<lparr>m_rt := rt\<rparr>\<rparr>
             in if r < 0 then http_send (Http_Reply 400 CT_HEADER_JSON
                  (FMT_STR_JSON_ERROR_MSG ''Error installing (wasm file not found?).'')) s else s))"
    using start assms(7) err
    by (cases "rt_req_install (base (br e)) (Some (take 99 (folder @ ''/'' @ f))) None 0 v None 0 0 0 (m_rt (mq s))")
       (auto simp: copy_name_short install_named_def with_rt_def Let_def simp del: take_append append.simps)
  from part1 part2 show ?thesis by (rule conjI)
qed

text \<open>
  Installing by JSON: the name of the module must be shorter than its array of 50 bytes,
  otherwise an array without terminator is read; then the file that is opened is the configured
  folder with the client's text behind it, cut at 99 bytes and not looked at (\<open>..\<close> leads out of
  the folder), and the answer is 400 exactly when the install request fails.
\<close>

theorem http_install_request:
  assumes "hm_method hm = ''POST''" and "hm_content_type hm = Some JSON" and "body_json e hm = Some j"
    and "json_member e j ''name'' = Some v" and "json_member e j ''wasm_file'' = Some f"
    and "text_of (rt_wasm_files_folder (conf (br e))) folder" and "cstring v" and "cstring f"
  shows "(50 \<le> length v \<longrightarrow> http_handle_modules e hm s = Inl Out_Of_Bounds)
    \<and> (length v < 50 \<longrightarrow> http_handle_modules e hm s
      = bind_res (rt_req_install (base (br e)) (Some (take 99 (folder @ ''/'' @ f))) None 0 v None 0 0 0 (m_rt (mq s)))
          (\<lambda>(r, rt). Inr (True, let s = s\<lparr>mq := (mq s)\<lparr>m_rt := rt\<rparr>\<rparr>
             in if r < 0 then http_send (Http_Reply 400 CT_HEADER_JSON
                  (FMT_STR_JSON_ERROR_MSG ''Error installing (wasm file not found?).'')) s else s)))"
  using json_install_cases [OF assms] .

definition demo_http_install :: "string \<Rightarrow> int http_env" where
  "demo_http_install n = demo_http\<lparr>br := (br demo_http)\<lparr>json := demo_json
     \<lparr>cJSON_Parse := (\<lambda>_. Some (CObject [(''name'', CString n), (''wasm_file'', CString ''../key'')]))\<rparr>\<rparr>\<rparr>"

definition demo_post :: http_message where
  "demo_post = \<lparr>hm_method = ''POST'', hm_uri = ''/cwasm/v1/modules'', hm_body = [], hm_content_type = Some JSON\<rparr>"

lemma demo_install_hyps:
  "hm_method demo_post = ''POST''" "hm_content_type demo_post = Some JSON"
  "body_json (demo_http_install n) demo_post = Some (CObject [(''name'', CString n), (''wasm_file'', CString ''../key'')])"
  "json_member (demo_http_install n) (CObject [(''name'', CString n), (''wasm_file'', CString ''../key'')]) ''name'' = Some n"
  "json_member (demo_http_install n) (CObject [(''name'', CString n), (''wasm_file'', CString ''../key'')]) ''wasm_file'' = Some ''../key''"
  "text_of (rt_wasm_files_folder (conf (br (demo_http_install n)))) ''wasm-apps''"
  by (simp_all add: demo_post_def body_json_def json_member_def demo_http_install_def demo_json_def json_string_def
      demo_http_def text_buf_text)

theorem http_install_request_witness:
  "http_handle_modules (demo_http_install (replicate 50 CHR ''a'')) demo_post demo_http_state = Inl Out_Of_Bounds
   \<and> http_handle_modules (demo_http_install ''pub'') demo_post demo_http_state
      = bind_res (rt_req_install (base (br (demo_http_install ''pub''))) (Some ''wasm-apps/../key'') None 0 ''pub'' None 0 0 0 (m_rt (mq demo_http_state)))
          (\<lambda>(r, rt). Inr (True, let s = demo_http_state\<lparr>mq := (mq demo_http_state)\<lparr>m_rt := rt\<rparr>\<rparr>
             in if r < 0 then http_send (Http_Reply 400 CT_HEADER_JSON
                  (FMT_STR_JSON_ERROR_MSG ''Error installing (wasm file not found?).'')) s else s))"
proof -
  have "cstring (replicate 50 CHR ''a'')" and "cstring ''pub''" and "cstring ''../key''" and "length ''pub'' < 50"
    and "50 \<le> length (replicate 50 CHR ''a'')"
    by (simp_all add: cstring_def)
  with http_install_request [OF demo_install_hyps this(1,3), of demo_http_state, THEN conjunct1]
    http_install_request [OF demo_install_hyps this(2,3), of demo_http_state, THEN conjunct2]
  show ?thesis by simp
qed

end
