(* ===== verification/Bridge_Main.thy ===== *)
theory Bridge_Main
  imports Http
begin

text \<open>
  The main loop of the bridge (bridge-tool/src/bridge-tool.c) and its interleaving with the HTTP
  thread. One turn of \<open>while (1)\<close> is \<open>main_iter\<close>, over a record of what the system calls of that
  turn answer. \<open>bridge_step\<close> interleaves turns of the loop with the two halves of an HTTP request,
  each taken as one step.
\<close>

section \<open>State\<close>

datatype select_result =
    Select_Error bool          \<comment> \<open>whether \<open>errno\<close> is \<open>EINTR\<close>\<close>
  | Select_Timeout
  | Select_Ready bool bool     \<comment> \<open>whether the MQTT and the runtime descriptor are set\<close>

record loop_io =
  io_elapsed :: "32 word"
  io_net :: net_os
  io_mqtt_closed :: bool       \<comment> \<open>\<open>mqtt_mg_conn->sock == -1\<close>\<close>
  io_mqtt_connected :: bool
  io_select :: select_result
  io_read :: "byte list option"   \<comment> \<open>None: \<open>read\<close> gives 0 or less\<close>

record 'd main_env =
  he :: "'d http_env"
  link_malloc :: malloc_fn

record bridge =
  hs :: http_state
  runtime_conn_fd :: "int option"   \<comment> \<open>None: indeterminate\<close>
  cond_init_done :: bool
  rconn :: nat
  total_elapsed_ms :: "32 word"
  mqtt_mg_conn :: bool                \<comment> \<open>whether the pointer is not NULL\<close>
  recv_ctx :: imrt_link_recv_context_t
  http_waiting :: bool

datatype loop_result = Loop bridge | Exit int bridge

definition BUF_SIZE :: nat where
  "BUF_SIZE = 1024"

abbreviation m_base :: "'d main_env \<Rightarrow> 'd rt_env" where
  "m_base e \<equiv> base (br (he e))"

abbreviation rt_of :: "bridge \<Rightarrow> rt_state" where
  "rt_of s \<equiv> m_rt (mq (hs s))"

definition with_mq :: "(mqtt_state \<Rightarrow> mqtt_state res) \<Rightarrow> bridge \<Rightarrow> bridge res" where
  "with_mq f s = bind_res (f (mq (hs s))) (\<lambda>m. Inr (s\<lparr>hs := (hs s)\<lparr>mq := m\<rparr>\<rparr>))"

definition set_reg :: "mlist \<Rightarrow> bridge \<Rightarrow> bridge" where
  "set_reg r s = s\<lparr>hs := (hs s)\<lparr>mq := (mq (hs s))\<lparr>m_reg := r\<rparr>\<rparr>\<rparr>"

section \<open>Messages of the runtime\<close>

text \<open>
  \<open>int mod_id; char mod_name[50]\<close> are not initialised; \<open>zero_buf 50\<close> stands for the content of
  the array, which is read only after it has been written in full.
\<close>

definition handle_installed :: "'d main_env \<Rightarrow> response_t \<Rightarrow> bridge \<Rightarrow> bridge res" where
  "handle_installed e response s =
     bind_res (install_response_get_module_id_and_name (attrs (m_base e)) (json (br (he e)))
                 (FMT_ATTR_CONTAINER (wamr (m_base e))) response (Some (zero_buf 50)) 50) (\<lambda>(r, i, n).
       case (r = 0, i, n) of
         (True, Some mod_id, Some b) \<Rightarrow>
           bind_res (read_cstr b 0) (\<lambda>mod_name.
           bind_res (module_list_add (mem_ok (m_base e)) mod_id mod_name (m_reg (mq (hs s)))) (\<lambda>(_, reg).
             with_mq (mqtt_notify_module_event (br (he e)) EVENT_MOD_INST mod_name) (set_reg reg s)))
       | _ \<Rightarrow> Inl Uninit_Read)"

definition handle_uninstalled :: "'d main_env \<Rightarrow> response_t \<Rightarrow> bridge \<Rightarrow> bridge res" where
  "handle_uninstalled e response s =
     bind_res (install_response_get_module_id_and_name (attrs (m_base e)) (json (br (he e)))
                 (FMT_ATTR_CONTAINER (wamr (m_base e))) response (Some (zero_buf 50)) 0) (\<lambda>(r, i, n).
       case i of
         None \<Rightarrow> Inl Uninit_Read
       | Some mod_id \<Rightarrow> bind_res (module_list_del_by_id mod_id (m_reg (mq (hs s)))) (\<lambda>_. Inl Uninit_Read))"

definition success_status :: "'d main_env \<Rightarrow> int \<Rightarrow> bool" where
  "success_status e st \<longleftrightarrow> coap_of (he e) st \<in> {Some CREATED_2_01, Some DELETED_2_02, Some CONTENT_2_05}"

definition handle_response :: "'d main_env \<Rightarrow> bridge \<Rightarrow> loop_result res" where
  "handle_response e s =
     (let response = snd (parse_response_from_imrtlink (wamr (m_base e)) (message (recv_ctx s)));
          (m, op) = get_pending_request_info (rt_of s)
      in if r_mid response \<noteq> m
         then bind_res (output_response (attrs (m_base e)) (json (br (he e))) (mem_ok (m_base e))
                          (FMT_ATTR_CONTAINER (wamr (m_base e))) response) (\<lambda>_.
              bind_res (http_printf ''%s'' (hs s)) (\<lambda>h. Inr (Exit (- 1) (s\<lparr>hs := h\<rparr>))))
         else bind_res (if success_status e (r_status response) \<and> op = INSTALL then handle_installed e response s
                        else if success_status e (r_status response) \<and> op = UNINSTALL
                        then handle_uninstalled e response s
                        else Inr s) (\<lambda>s.
              bind_res (http_output_runtime_response (he e) response (hs s)) (\<lambda>h.
                Inr (Loop (s\<lparr>hs := h\<lparr>mq := (mq h)\<lparr>m_rt := rt_conn_response_received (m_rt (mq h))\<rparr>\<rparr>\<rparr>)))))"

definition handle_event :: "'d main_env \<Rightarrow> bridge \<Rightarrow> loop_result res" where
  "handle_event e s =
     bind_res (with_mq (mqtt_process_runtime_event (br (he e))
        (snd (parse_event_from_imrtlink (wamr (m_base e)) (message (recv_ctx s))))) s) (\<lambda>s. Inr (Loop s))"

definition main_read :: "'d main_env \<Rightarrow> byte list option \<Rightarrow> bridge \<Rightarrow> loop_result res" where
  "main_read e rd s =
     (case rd of
        None \<Rightarrow> Inr (Loop (s\<lparr>runtime_conn_fd := Some (- 1)\<rparr>))
      | Some buf \<Rightarrow>
          bind_res (process_rcvd_data (link_malloc e) (link_consts (wamr (m_base e))) (take BUF_SIZE buf) (recv_ctx s))
            (\<lambda>(reply_type, c).
              let s = s\<lparr>recv_ctx := c\<rparr>
              in if reply_type = REPLY_TYPE_RESPONSE then handle_response e s
                 else if reply_type = REPLY_TYPE_EVENT then handle_event e s
                 else Inr (Loop s)))"

section \<open>One turn of the loop\<close>

text \<open>\<open>mqtt_init (&mqtt_mg_conn)\<close>: the pointer gets what \<open>mg_connect\<close> returns, also when that is NULL.\<close>

definition open_mqtt :: "'d main_env \<Rightarrow> bool \<Rightarrow> bridge \<Rightarrow> (int \<times> bridge) res" where
  "open_mqtt e connected s =
     bind_res (mqtt_init (br (he e)) connected (mq (hs s))) (\<lambda>(r, m).
       Inr (r, s\<lparr>hs := (hs s)\<lparr>mq := m\<rparr>, mqtt_mg_conn := connected\<rparr>))"

definition main_keepalive :: "'d main_env \<Rightarrow> loop_io \<Rightarrow> bridge \<Rightarrow> bridge res" where
  "main_keepalive e io s =
     (let t = total_elapsed_ms s + io_elapsed io
      in if mqtt_keepalive_ms (conf (br (he e))) \<le> t
         then if \<not> mqtt_mg_conn s then Inl Null_Deref
              else bind_res (with_mq (\<lambda>m. mqtt_pool_requests (br (he e)) (mq_act Mq_Ping m)) s)
                     (\<lambda>s. Inr (s\<lparr>total_elapsed_ms := 0\<rparr>))
         else Inr (s\<lparr>total_elapsed_ms := t\<rparr>))"

text \<open>\<open>runtime_conn_init (&runtime_conn_fd)\<close> on the variables of the program\<close>

definition open_runtime :: "'d main_env \<Rightarrow> net_os \<Rightarrow> bridge \<Rightarrow> (int \<times> bridge) res" where
  "open_runtime e os s =
     bind_res (runtime_conn_init os (conf (br (he e)))
        \<lparr>link = lnk (rt_of s), main_fd = runtime_conn_fd s, cond_ready = cond_init_done s\<rparr>) (\<lambda>(r, c).
       Inr (r, s\<lparr>hs := (hs s)\<lparr>mq := (mq (hs s))\<lparr>m_rt := (rt_of s)\<lparr>lnk := link c\<rparr>\<rparr>\<rparr>,
                 runtime_conn_fd := main_fd c, cond_init_done := cond_ready c\<rparr>))"

text \<open>The first component tells whether the turn goes on.\<close>

definition main_reconnect :: "'d main_env \<Rightarrow> loop_io \<Rightarrow> bridge \<Rightarrow> (bool \<times> bridge) res" where
  "main_reconnect e io s =
     (case runtime_conn_fd s of
        None \<Rightarrow> Inl Uninit_Read
      | Some fd \<Rightarrow>
          if fd = - 1
          then bind_res (open_runtime e (io_net io) (s\<lparr>rconn := Suc (rconn s)\<rparr>)) (\<lambda>(r, s).
                 Inr (if r \<noteq> 0 then (False, s) else (True, s\<lparr>rconn := 0\<rparr>)))
          else Inr (True, s))"

definition main_mqtt :: "'d main_env \<Rightarrow> loop_io \<Rightarrow> bridge \<Rightarrow> (bool \<times> bridge) res" where
  "main_mqtt e io s =
     (if \<not> mqtt_mg_conn s then Inl Null_Deref
      else if io_mqtt_closed io
      then bind_res (open_mqtt e (io_mqtt_connected io) s) (\<lambda>(r, s). Inr (r = 0, s))
      else Inr (True, s))"

definition main_select :: "'d main_env \<Rightarrow> loop_io \<Rightarrow> bridge \<Rightarrow> loop_result res" where
  "main_select e io s =
     (case io_select io of
        Select_Ready mqtt_set runtime_set \<Rightarrow>
          if mqtt_set then bind_res (with_mq (mqtt_pool_requests (br (he e))) s) (\<lambda>s. Inr (Loop s))
          else if runtime_set then main_read e (io_read io) s
          else Inr (Loop s)
      | _ \<Rightarrow> Inr (Loop s))"

definition main_iter :: "'d main_env \<Rightarrow> loop_io \<Rightarrow> bridge \<Rightarrow> loop_result res" where
  "main_iter e io s =
     bind_res (main_keepalive e io s) (\<lambda>s.
       if rt_reconnect_attempts (conf (br (he e))) < word_of_nat (rconn s) then Inr (Exit (- 1) s)
       else bind_res (main_reconnect e io s) (\<lambda>(go, s).
              if \<not> go then Inr (Loop s)
              else bind_res (main_mqtt e io s) (\<lambda>(go, s).
                     if \<not> go then Inr (Loop s) else main_select e io s)))"

definition http_init :: "bool \<Rightarrow> bool \<Rightarrow> int" where
  "http_init bound thread_created = (if \<not> bound then - 1 else if \<not> thread_created then - 1 else 0)"

text \<open>The part before the loop; \<open>config_ret\<close> is the result of \<open>read_config\<close>.\<close>

definition main_start :: "'d main_env \<Rightarrow> int \<Rightarrow> net_os \<Rightarrow> bool \<Rightarrow> bool \<Rightarrow> bool \<Rightarrow> bridge \<Rightarrow> loop_result res" where
  "main_start e config_ret os bound thread_created connected s =
     (if config_ret \<noteq> 0 then Inr (Exit (- 1) s)
      else bind_res (open_runtime e os s) (\<lambda>(r, s).
             if r \<noteq> 0 then Inr (Exit (- 1) s)
             else if http_init bound thread_created \<noteq> 0 then Inr (Exit (- 1) s)
             else bind_res (open_mqtt e connected s) (\<lambda>(r, s).
                    Inr (if r \<noteq> 0 then Exit (- 1) s else Loop s))))"

section \<open>Two threads\<close>

datatype step_label = S_request http_message | S_answer | S_main loop_io

inductive bridge_step :: "'d main_env \<Rightarrow> step_label \<Rightarrow> bridge \<Rightarrow> bridge \<Rightarrow> bool" for e where
  request: "\<not> http_waiting s \<Longrightarrow> http_ev_handler (he e) hm (hs s) = Inr (w, h) \<Longrightarrow>
     bridge_step e (S_request hm) s (s\<lparr>hs := h, http_waiting := w\<rparr>)"
| answer: "http_waiting s \<Longrightarrow> rt_conn_wait_over (rt_of s) \<Longrightarrow> http_answer (hs s) = Inr h \<Longrightarrow>
     bridge_step e S_answer s (s\<lparr>hs := h, http_waiting := False\<rparr>)"
| turn: "main_iter e io s = Inr (Loop s') \<Longrightarrow> bridge_step e (S_main io) s s'"

inductive bridge_run :: "'d main_env \<Rightarrow> step_label list \<Rightarrow> bridge \<Rightarrow> bridge \<Rightarrow> bool" for e where
  ended: "bridge_run e [] s s"
| more: "bridge_step e l s s1 \<Longrightarrow> bridge_run e ls s1 s2 \<Longrightarrow> bridge_run e (l # ls) s s2"

inductive_cases request_step: "bridge_step e (S_request hm) s s'"
inductive_cases answer_step: "bridge_step e S_answer s s'"
inductive_cases main_step: "bridge_step e (S_main io) s s'"
inductive_simps run_Nil [simp]: "bridge_run e [] s s'"
inductive_simps run_Cons: "bridge_run e (l # ls) s s'"

section \<open>What the steps keep\<close>

text \<open>
  Facts that the steps do not end: no module is registered, the two static texts of the MQTT side
  are terminated strings in their arrays of 200 bytes (\<open>lasts\<close>), and, outside of
  \<open>handle_response\<close>, a request is pending (\<open>keeps\<close>).
\<close>

definition busy :: "mqtt_state \<Rightarrow> bool" where
  "busy m \<longleftrightarrow> g_req_op_type (m_rt m) \<noteq> NONE"

definition text200 :: "cbuf \<Rightarrow> bool" where
  "text200 b \<longleftrightarrow> length b = 200 \<and> (\<exists>t. text_of b t)"

definition mq_typed :: "mqtt_state \<Rightarrow> bool" where
  "mq_typed m \<longleftrightarrow> text200 (s_rt_topic m) \<and> text200 (s_rt_last_will_msg m)"

definition lasts :: "mqtt_state \<Rightarrow> mqtt_state \<Rightarrow> bool" where
  "lasts m m' \<longleftrightarrow> (represents (m_reg m) [] \<longrightarrow> represents (m_reg m') []) \<and> (mq_typed m \<longrightarrow> mq_typed m')"

definition keeps :: "mqtt_state \<Rightarrow> mqtt_state \<Rightarrow> bool" where
  "keeps m m' \<longleftrightarrow> (busy m \<longrightarrow> busy m') \<and> lasts m m'"

lemma lasts_refl [simp]: "lasts m m"
  by (simp add: lasts_def)

lemma lasts_trans: "lasts a b \<Longrightarrow> lasts b c \<Longrightarrow> lasts a c"
  by (simp add: lasts_def)

lemma lasts_same:
  "m_reg m' = m_reg m \<Longrightarrow> s_rt_topic m' = s_rt_topic m \<Longrightarrow> s_rt_last_will_msg m' = s_rt_last_will_msg m \<Longrightarrow> lasts m m'"
  by (simp add: lasts_def mq_typed_def)

lemma snprintf_text200: "snprintf_at b 0 200 t = Inr b' \<Longrightarrow> text200 b \<Longrightarrow> text200 b'"
  by (auto simp: snprintf_at_def text200_def buf_write_def text_of_def read_cstr_def split: if_splits)

text \<open>Formatting into an array of 200 bytes with its size as the bound.\<close>

lemma snprintf_200:
  assumes "text200 b" and "cstring t"
  shows "\<exists>b'. snprintf_at b 0 200 t = Inr b' \<and> text200 b' \<and> text_of b' (take 199 t)"
  using snprintf_at_start [OF assms(2), of 200 b] assms(1) by (auto simp: text200_def)

lemma local_text_total: "0 < n \<Longrightarrow> \<exists>u. local_text n t = Inr u"
  by (auto simp: local_text_def snprintf_at_def buf_write_def read_cstr_def)

lemma text_of_read: "text_of b t \<Longrightarrow> read_cstr b 0 = Inr t"
  by (simp add: text_of_def)

lemma on_connect_typed:
  assumes "text_of (rt_uuid (conf e)) u" and "text_of (rt_topic_prefix (conf e)) pfx" and "mq_typed m"
  shows "\<exists>m'. on_connect e m = Inr m' \<and> mq_typed m' \<and> text_of (s_rt_topic m') (take 199 (pfx @ ''/'' @ u))
    \<and> mq_out m' = mq_out m @ [Mq_Handshake u (take 199 (pfx @ ''/'' @ u)) (take 199 (FMTSTR_EVENT_RT_START_JSON u u EVENT_RT_STOP))]"
proof -
  have c: "cstring u" "cstring pfx" using assms(1,2) by (simp_all add: text_of_iff)
  have "cstring (FMTSTR_EVENT_RT_START_JSON u u EVENT_RT_STOP)" and "cstring (pfx @ ''/'' @ u)"
    using c by (simp_all add: FMTSTR_EVENT_RT_START_JSON_def EVENT_RT_STOP_def)
  from snprintf_200 [OF _ this(1), of "s_rt_last_will_msg m"] snprintf_200 [OF _ this(2), of "s_rt_topic m"] assms(3)
  obtain will tpc where
    "snprintf_at (s_rt_last_will_msg m) 0 200 (FMTSTR_EVENT_RT_START_JSON u u EVENT_RT_STOP) = Inr will" "text200 will"
    "text_of will (take 199 (FMTSTR_EVENT_RT_START_JSON u u EVENT_RT_STOP))"
    "snprintf_at (s_rt_topic m) 0 200 (pfx @ ''/'' @ u) = Inr tpc" "text200 tpc" "text_of tpc (take 199 (pfx @ ''/'' @ u))"
    by (auto simp: mq_typed_def)
  then show ?thesis
    using assms(1,2) [THEN text_of_read] text_of_read [of will] text_of_read [of tpc] by (simp add: on_connect_def mq_typed_def mq_act_def)
qed

lemma on_connack_typed:
  assumes "text_of (rt_uuid (conf e)) u" and "text_of (rt_topic_prefix (conf e)) pfx" and "mq_typed m"
  shows "\<exists>m'. on_connack e m = Inr m' \<and> mq_typed m'"
  using assms(3) assms(1,2) [THEN text_of_read] local_text_total [of 200 "FMTSTR_EVENT_RT_START_JSON u u EVENT_RT_START"]
    local_text_total [of 200 "pfx @ u"]
  by (auto simp: on_connack_def mq_typed_def mq_act_def)

lemma on_publish_typed:
  assumes "mq_typed m"
  shows "\<exists>m'. on_publish e topic msg m = Inr m' \<and> mq_typed m'"
proof -
  obtain own where own: "read_cstr (s_rt_topic m) 0 = Inr own"
    using assms by (auto simp: mq_typed_def text200_def text_of_def)
  obtain req_url where req: "local_text (length topic + length ''/event/'' + 1) (''/event/'' @ cut topic) = Inr req_url"
    using local_text_total [of "length topic + length ''/event/'' + 1"] by (auto simp del: list.size)
  obtain raw where "raw_str_json msg = Inr raw"
    using local_text_total [of "length msg + length ''{ \"raw_str\": \"%.*s\"}'' + 1"] by (auto simp: raw_str_json_def Let_def simp del: list.size)
  with own req assms show ?thesis
    by (auto simp: on_publish_def mq_typed_def simp del: list.size split: option.split)
qed

lemma events_typed:
  assumes "text_of (rt_uuid (conf e)) u" and "text_of (rt_topic_prefix (conf e)) pfx" and "mq_typed m"
  shows "\<exists>m'. mqtt_events e evs m = Inr m' \<and> mq_typed m'"
  using assms(3)
proof (induction evs arbitrary: m)
  case (Cons ev evs)
  have "\<exists>m'. mqtt_ev_handler e ev m = Inr m' \<and> mq_typed m'"
    using on_connect_typed [OF assms(1,2) Cons.prems] on_connack_typed [OF assms(1,2) Cons.prems]
      on_publish_typed [OF Cons.prems, of e] Cons.prems
    by (cases ev) (auto simp: mqtt_ev_handler_def)
  with Cons.IH show ?case by auto
qed simp

named_theorems keeping \<open>operations that keep a pending request and an empty registry\<close>

lemma keeps_refl [simp]: "keeps m m"
  by (simp add: keeps_def)

lemma keeps_trans: "keeps a b \<Longrightarrow> keeps b c \<Longrightarrow> keeps a c"
  by (auto simp: keeps_def intro: lasts_trans)

lemma keeps_texts:
  "m_rt m' = m_rt m \<Longrightarrow> m_reg m' = m_reg m \<Longrightarrow> mq_typed m \<longrightarrow> mq_typed m' \<Longrightarrow> keeps m m'"
  by (simp add: keeps_def busy_def lasts_def)

lemma keeps_act [simp]: "keeps (mq_act a m) m' \<longleftrightarrow> keeps m m'" "keeps m (mq_act a m') \<longleftrightarrow> keeps m m'"
  by (simp_all add: keeps_def busy_def lasts_def mq_typed_def)

lemma keeps_polls [simp]: "keeps (m\<lparr>polls := n\<rparr>) m' \<longleftrightarrow> keeps m m'" "keeps m (m'\<lparr>polls := n\<rparr>) \<longleftrightarrow> keeps m m'"
  by (simp_all add: keeps_def busy_def lasts_def mq_typed_def)

lemma request_keeps: "keeps m (m\<lparr>m_rt := snd (rt_req_request e u act j (m_rt m))\<rparr>)"
proof -
  obtain r s' where rs: "rt_req_request e u act j (m_rt m) = (r, s')" by fastforce
  then have "s' = m_rt m \<or> g_req_op_type s' = REQUEST"
    by (auto simp: rt_req_request_def dest!: issue_pending split: option.splits)
  with rs show ?thesis by (auto simp: keeps_def busy_def lasts_def mq_typed_def)
qed

lemma on_connect_keeps: "on_connect e m = Inr m' \<Longrightarrow> keeps m m'"
  by (auto simp: on_connect_def bind_res_Inr_iff mq_typed_def intro!: keeps_texts dest: snprintf_text200)

lemma mqtt_ev_handler_keeps [keeping]: "mqtt_ev_handler e ev m = Inr m' \<Longrightarrow> keeps m m'"
  by (auto simp: mqtt_ev_handler_def on_connack_def on_publish_def bind_res_Inr_iff request_keeps
      dest: on_connect_keeps split: mg_event.splits if_splits)

lemma mqtt_events_keeps: "mqtt_events e evs m = Inr m' \<Longrightarrow> keeps m m'"
proof (induction evs arbitrary: m)
  case (Cons ev evs)
  then show ?case by (auto simp: bind_res_Inr_iff intro: keeps_trans mqtt_ev_handler_keeps)
qed simp

lemma mqtt_pool_keeps [keeping]: "mqtt_pool_requests e m = Inr m' \<Longrightarrow> keeps m m'"
  using mqtt_events_keeps [of e "poll e (polls m)" "m\<lparr>polls := Suc (polls m)\<rparr>" m']
  by (simp add: mqtt_pool_requests_def)

lemma mqtt_notify_pubsub_keeps [keeping]: "mqtt_notify_pubsub_event e ev i t m = Inr m' \<Longrightarrow> keeps m m'"
  by (auto simp: mqtt_notify_pubsub_event_def pubsub_event_publish_def bind_res_Inr_iff
      dest!: mqtt_pool_keeps split: if_splits)

lemma check_and_add_unknown:
  assumes "represents s []"
  shows "topic_list_check_and_add ok x i s = Inr (- 1, s)"
  using check_and_add_represents [OF assms, of ok x i] by (auto simp: reg_find_def)

lemma reg_keeps:
  "topic_list_check_and_add ok x i (m_reg m) = Inr (r, reg) \<Longrightarrow> keeps m (m\<lparr>m_reg := reg\<rparr>)"
  using check_and_add_unknown [of "m_reg m" ok x i] by (auto simp: keeps_def busy_def lasts_def mq_typed_def)

lemma process_event_keeps [keeping]:
  assumes "mqtt_process_runtime_event e event m = Inr m'"
  shows "keeps m m'"
proof -
  have sub: "keeps m m'" if "bind_res (mqtt_pool_requests e (mq_act a m)) (mqtt_notify_pubsub_event e ev i t) = Inr m'" for a ev i t
    using that by (auto simp: bind_res_Inr_iff dest!: mqtt_pool_keeps mqtt_notify_pubsub_keeps intro: keeps_trans)
  have pub: "keeps m m'"
    if "topic_list_check_and_add ok x i (m_reg m) = Inr (r, reg)"
      and "(if r = 1 then mqtt_notify_pubsub_event e ev j t (m\<lparr>m_reg := reg\<rparr>) else Inr (m\<lparr>m_reg := reg\<rparr>)) = Inr m1"
      and "mqtt_pool_requests e (mq_act a m1) = Inr m'" for ok x i r reg ev j t m1 a
  proof -
    have "keeps (m\<lparr>m_reg := reg\<rparr>) m1" using that(2) by (auto dest: mqtt_notify_pubsub_keeps split: if_splits)
    moreover have "keeps m1 m'" using mqtt_pool_keeps [OF that(3)] by simp
    ultimately show ?thesis using reg_keeps [OF that(1)] by (blast intro: keeps_trans)
  qed
  show ?thesis using assms
    by (auto simp: mqtt_process_runtime_event_def Let_def bind_res_Inr_iff [of "event_message _ _ _"]
        bind_res_Inr_iff [of "topic_list_check_and_add _ _ _ _"]
        bind_res_Inr_iff [of "if _ then _ else _"] intro: pub dest: sub split: if_splits option.splits)
qed

definition bkeeps :: "bridge \<Rightarrow> bridge \<Rightarrow> bool" where
  "bkeeps s s' \<longleftrightarrow> keeps (mq (hs s)) (mq (hs s')) \<and> http_waiting s' = http_waiting s"

lemma bkeeps_refl [simp]: "bkeeps s s"
  by (simp add: bkeeps_def)

lemma bkeeps_trans: "bkeeps a b \<Longrightarrow> bkeeps b c \<Longrightarrow> bkeeps a c"
  by (auto simp: bkeeps_def intro: keeps_trans)

lemma bkeeps_with_mq:
  assumes "with_mq f s = Inr s'" and "\<And>m. f (mq (hs s)) = Inr m \<Longrightarrow> keeps (mq (hs s)) m"
  shows "bkeeps s s'" and "recv_ctx s' = recv_ctx s"
  using assms by (auto simp: with_mq_def bkeeps_def bind_res_Inr_iff)

lemma main_keepalive_keeps:
  "main_keepalive e io s = Inr s' \<Longrightarrow> bkeeps s s' \<and> recv_ctx s' = recv_ctx s"
  by (auto simp: main_keepalive_def Let_def bind_res_Inr_iff with_mq_def bkeeps_def
      dest!: mqtt_pool_keeps split: if_splits)

lemma open_runtime_keeps:
  "open_runtime e os s = Inr (r, s') \<Longrightarrow> bkeeps s s' \<and> recv_ctx s' = recv_ctx s"
  by (auto simp: open_runtime_def bind_res_Inr_iff bkeeps_def keeps_def busy_def lasts_def mq_typed_def)

lemma main_reconnect_keeps:
  assumes "main_reconnect e io s = Inr (go, s')"
  shows "bkeeps s s' \<and> recv_ctx s' = recv_ctx s"
proof -
  have "bkeeps s (s1\<lparr>rconn := n\<rparr>) \<and> recv_ctx (s1\<lparr>rconn := n\<rparr>) = recv_ctx s"
    if "open_runtime e os (s\<lparr>rconn := k\<rparr>) = Inr (r, s1)" for os k r s1 n
    using open_runtime_keeps [OF that] by (simp add: bkeeps_def)
  moreover have "bkeeps s s1 \<and> recv_ctx s1 = recv_ctx s"
    if "open_runtime e os (s\<lparr>rconn := k\<rparr>) = Inr (r, s1)" for os k r s1
    using open_runtime_keeps [OF that] by (simp add: bkeeps_def)
  ultimately show ?thesis using assms
    by (auto simp: main_reconnect_def bind_res_Inr_iff split: option.splits if_splits)
qed

lemma main_mqtt_keeps:
  "main_mqtt e io s = Inr (go, s') \<Longrightarrow> bkeeps s s' \<and> recv_ctx s' = recv_ctx s"
  by (auto simp: main_mqtt_def open_mqtt_def mqtt_init_def bind_res_Inr_iff bkeeps_def dest!: mqtt_pool_keeps split: if_splits)

text \<open>The runtime's descriptor is ready, the MQTT one is not, and the turn reads the last byte of a response.\<close>

definition responds :: "'d main_env \<Rightarrow> loop_io \<Rightarrow> bridge \<Rightarrow> bool" where
  "responds e io s \<longleftrightarrow> io_select io = Select_Ready False True \<and> (\<exists>buf c. io_read io = Some buf \<and>
     process_rcvd_data (link_malloc e) (link_consts (wamr (m_base e))) (take BUF_SIZE buf) (recv_ctx s)
       = Inr (REPLY_TYPE_RESPONSE, c))"

lemma install_response_no_room:
  assumes "install_response_get_module_id_and_name a js f obj (Some b) (length b) = Inr (r, i, n)" and "b \<noteq> []"
  shows "r \<noteq> 0"
  using assms strncpy_at_ok [of "length b" b]
  by (auto simp: install_response_get_module_id_and_name_def Let_def bind_res_Inr_iff buf_write_def
      split: option.splits if_splits dest: buf_write_length simp: strncpy_at_def)

lemma handle_installed_undefined: "\<exists>f. handle_installed e response s = Inl f"
proof (cases "install_response_get_module_id_and_name (attrs (m_base e)) (json (br (he e)))
    (FMT_ATTR_CONTAINER (wamr (m_base e))) response (Some (zero_buf 50)) 50")
  case (Inl f)
  then show ?thesis by (simp add: handle_installed_def)
next
  case (Inr t)
  obtain r i n where t: "t = (r, i, n)" by (cases t)
  have "zero_buf 50 \<noteq> []" by (simp add: zero_buf_def)
  with install_response_no_room [of _ _ _ _ "zero_buf 50" r i n] Inr t have "r \<noteq> 0" by simp
  with Inr t show ?thesis by (simp add: handle_installed_def)
qed

lemma handle_uninstalled_undefined: "\<exists>f. handle_uninstalled e response s = Inl f"
  unfolding handle_uninstalled_def bind_res_def
  by (auto split: sum.splits option.splits)

lemma handle_response_effect:
  assumes "handle_response e s = Inr (Loop s')"
  shows "lasts (mq (hs s)) (mq (hs s')) \<and> http_waiting s' = http_waiting s \<and> recv_ctx s' = recv_ctx s
    \<and> rt_conn_wait_over (rt_of s')"
proof -
  have no: "handle_installed e r s \<noteq> Inr x" "handle_uninstalled e r s \<noteq> Inr x" for r x
    using handle_installed_undefined [of e r s] handle_uninstalled_undefined [of e r s] by auto
  have out: "mq h = mq g" if "http_output_runtime_response (he e) obj g = Inr h" for obj g h
    using that by (auto simp: http_output_runtime_response_def http_printf_def bind_res_Inr_iff Let_def split: if_splits)
  show ?thesis using assms
    by (auto simp: handle_response_def Let_def bind_res_Inr_iff no http_printf_def rt_conn_wait_over_def
        rt_conn_response_received_def intro!: lasts_same split: if_splits prod.splits dest: out)
qed

lemma main_read_keeps:
  assumes "main_read e (io_read io) s = Inr (Loop s')" and ready: "io_select io = Select_Ready False True"
  shows "lasts (mq (hs s)) (mq (hs s'))
    \<and> http_waiting s' = http_waiting s \<and> (\<not> responds e io s \<longrightarrow> bkeeps s s')"
proof (cases "io_read io")
  case None
  with assms show ?thesis by (auto simp: main_read_def bkeeps_def)
next
  case (Some buf)
  obtain r c where p: "process_rcvd_data (link_malloc e) (link_consts (wamr (m_base e))) (take BUF_SIZE buf) (recv_ctx s) = Inr (r, c)"
    using assms Some by (auto simp: main_read_def bind_res_Inr_iff)
  consider "r = REPLY_TYPE_RESPONSE" | "r = REPLY_TYPE_EVENT" | "r \<noteq> REPLY_TYPE_RESPONSE" "r \<noteq> REPLY_TYPE_EVENT" by blast
  then show ?thesis
  proof cases
    case 1
    with assms Some p have "handle_response e (s\<lparr>recv_ctx := c\<rparr>) = Inr (Loop s')" by (simp add: main_read_def Let_def)
    from handle_response_effect [OF this] 1 p Some ready show ?thesis by (auto simp: responds_def)
  next
    case 2
    have "REPLY_TYPE_EVENT \<noteq> REPLY_TYPE_RESPONSE" by (simp add: REPLY_TYPE_EVENT_def REPLY_TYPE_RESPONSE_def)
    with 2 assms Some p have "handle_event e (s\<lparr>recv_ctx := c\<rparr>) = Inr (Loop s')" by (simp add: main_read_def Let_def)
    then have "bkeeps (s\<lparr>recv_ctx := c\<rparr>) s'"
      by (auto simp: handle_event_def bind_res_Inr_iff with_mq_def bkeeps_def dest: process_event_keeps)
    then show ?thesis by (auto simp: bkeeps_def keeps_def)
  next
    case 3
    with assms Some p have "s' = s\<lparr>recv_ctx := c\<rparr>" by (simp add: main_read_def Let_def)
    then show ?thesis by (simp add: bkeeps_def)
  qed
qed


lemma main_select_keeps:
  assumes "main_select e io s = Inr (Loop s')"
  shows "lasts (mq (hs s)) (mq (hs s'))
    \<and> http_waiting s' = http_waiting s \<and> (\<not> responds e io s \<longrightarrow> bkeeps s s')"
proof (cases "\<exists>r. io_select io = Select_Ready False r \<and> r")
  case True
  with assms show ?thesis by (auto simp: main_select_def dest: main_read_keeps)
next
  case False
  with assms have "bkeeps s s'"
    by (auto simp: main_select_def bind_res_Inr_iff with_mq_def bkeeps_def dest: mqtt_pool_keeps
        split: select_result.splits if_splits)
  then show ?thesis by (simp add: bkeeps_def keeps_def)
qed

text \<open>\<open>responds\<close> depends on the receiver's context only, which the first part of a turn keeps.\<close>

lemma responds_cong: "recv_ctx s' = recv_ctx s \<Longrightarrow> responds e io s' = responds e io s"
  by (simp add: responds_def)

lemma main_iter_select:
  assumes "main_iter e io s = Inr (Loop s')"
  shows "\<exists>t. bkeeps s t \<and> recv_ctx t = recv_ctx s \<and> (s' = t \<or> main_select e io t = Inr (Loop s'))"
proof -
  obtain s1 where k: "main_keepalive e io s = Inr s1" using assms by (auto simp: main_iter_def bind_res_Inr_iff)
  note a = main_keepalive_keeps [OF k]
  obtain go s2 where c: "main_reconnect e io s1 = Inr (go, s2)"
    using assms k by (auto simp: main_iter_def bind_res_Inr_iff split: if_splits)
  note b = main_reconnect_keeps [OF c]
  have s2: "bkeeps s s2" "recv_ctx s2 = recv_ctx s" using a b by (auto intro: bkeeps_trans)
  show ?thesis
  proof (cases go)
    case False
    with assms k c have "s' = s2" by (auto simp: main_iter_def split: if_splits)
    with s2 show ?thesis by blast
  next
    case True
    then obtain go3 s3 where m: "main_mqtt e io s2 = Inr (go3, s3)"
      using assms k c by (auto simp: main_iter_def bind_res_Inr_iff split: if_splits)
    have s3: "bkeeps s s3" "recv_ctx s3 = recv_ctx s" using s2 main_mqtt_keeps [OF m] by (auto intro: bkeeps_trans)
    have "s' = s3 \<or> main_select e io s3 = Inr (Loop s')"
      using assms k c m True by (cases go3) (auto simp: main_iter_def split: if_splits)
    with s3 show ?thesis by blast
  qed
qed

lemma main_iter_keeps:
  assumes "main_iter e io s = Inr (Loop s')"
  shows "lasts (mq (hs s)) (mq (hs s'))
    \<and> http_waiting s' = http_waiting s \<and> (\<not> responds e io s \<longrightarrow> bkeeps s s')"
proof -
  obtain t where t: "bkeeps s t" "recv_ctx t = recv_ctx s" "s' = t \<or> main_select e io t = Inr (Loop s')"
    using main_iter_select [OF assms] by blast
  have keeps_t: "lasts (mq (hs s)) (mq (hs t)) \<and> http_waiting t = http_waiting s"
    using t(1) by (simp add: bkeeps_def keeps_def)
  show ?thesis
  proof (cases "s' = t")
    case True
    with t(1) keeps_t show ?thesis by simp
  next
    case False
    with t(3) have "main_select e io t = Inr (Loop s')" by simp
    from main_select_keeps [OF this] responds_cong [OF t(2), of e io] bkeeps_trans [OF t(1), of s'] keeps_t
    show ?thesis by (auto intro: lasts_trans)
  qed
qed

section \<open>Runs\<close>

lemma main_read_recv:
  assumes "main_read e rd s = Inr (Loop s')"
  shows "recv_ctx s' = recv_ctx s \<or>
    (\<exists>buf r. process_rcvd_data (link_malloc e) (link_consts (wamr (m_base e))) buf (recv_ctx s) = Inr (r, recv_ctx s'))"
proof (cases rd)
  case None
  with assms show ?thesis by (auto simp: main_read_def)
next
  case (Some buf)
  obtain r c where p: "process_rcvd_data (link_malloc e) (link_consts (wamr (m_base e))) (take BUF_SIZE buf) (recv_ctx s) = Inr (r, c)"
    using assms Some by (auto simp: main_read_def bind_res_Inr_iff)
  have "recv_ctx s' = c"
    using assms Some p
    by (auto simp: main_read_def Let_def handle_event_def with_mq_def bind_res_Inr_iff dest: handle_response_effect split: if_splits)
  with p show ?thesis by blast
qed

lemma main_iter_recv:
  assumes "main_iter e io s = Inr (Loop s')"
  shows "recv_ctx s' = recv_ctx s \<or>
    (\<exists>buf r. process_rcvd_data (link_malloc e) (link_consts (wamr (m_base e))) buf (recv_ctx s) = Inr (r, recv_ctx s'))"
proof -
  obtain t where t: "recv_ctx t = recv_ctx s" "s' = t \<or> main_select e io t = Inr (Loop s')"
    using main_iter_select [OF assms] by blast
  have "recv_ctx s' = recv_ctx t \<or> (\<exists>rd. main_read e rd t = Inr (Loop s'))" if "main_select e io t = Inr (Loop s')"
    using that by (auto simp: main_select_def with_mq_def bind_res_Inr_iff split: select_result.splits if_splits)
  with t main_read_recv [of e _ t s'] show ?thesis by auto
qed

lemma step_keeps_link_safe:
  assumes "bridge_step e l s s'" and "malloc_sized (link_malloc e)" and "link_safe (link_malloc e) (recv_ctx s)"
  shows "link_safe (link_malloc e) (recv_ctx s')"
  using assms(1,3)
proof cases
  case (turn io)
  have "link_safe (link_malloc e) c" if "process_rcvd_data (link_malloc e) k buf (recv_ctx s) = Inr (r, c)" for k buf r c
    using process_safe [OF assms(2,3), of k buf] that by auto
  with main_iter_recv [OF turn(2)] assms(3) show ?thesis by auto
qed auto

lemma run_invariant:
  assumes "bridge_run e ls s s'" and "I s" and "\<And>l a b. l \<in> set ls \<Longrightarrow> bridge_step e l a b \<Longrightarrow> I a \<Longrightarrow> I b"
  shows "I s'"
  using assms by (induction rule: bridge_run.induct) auto

text \<open>The HTTP thread changes no more than the runtime's part of the MQTT side's state.\<close>

definition only_rt :: "mqtt_state \<Rightarrow> mqtt_state \<Rightarrow> bool" where
  "only_rt m m' \<longleftrightarrow> m'\<lparr>m_rt := m_rt m\<rparr> = m"

lemma only_rt_lasts: "only_rt m m' \<Longrightarrow> lasts m m'"
  by (cases m, cases m') (simp add: only_rt_def lasts_def mq_typed_def)

lemma with_rt_only: "with_rt f h = Inr (r, h') \<Longrightarrow> only_rt (mq h) (mq h')"
  by (auto simp: with_rt_def bind_res_Inr_iff only_rt_def)

lemma http_error_mq: "http_error st t h = Inr (r, h') \<Longrightarrow> mq h' = mq h"
  by (auto simp: http_error_def http_printf_with_status_def bind_res_Inr_iff)

lemma named_only:
  "install_named e p n h = Inr (r, h') \<Longrightarrow> only_rt (mq h) (mq h')"
  "uninstall_named e n h = Inr (r, h') \<Longrightarrow> only_rt (mq h) (mq h')"
  by (auto simp: install_named_def uninstall_named_def bind_res_Inr_iff
      dest!: with_rt_only http_error_mq split: if_splits)

lemma only_rt_refl: "mq h' = mq h \<Longrightarrow> only_rt (mq h) (mq h')"
  by (simp add: only_rt_def)

lemma http_ev_handler_only: "http_ev_handler e hm h = Inr (w, h') \<Longrightarrow> only_rt (mq h) (mq h')"
  by (auto simp: http_ev_handler_def http_handle_modules_def http_handle_module_install_def
      http_handle_module_uninstall_def bind_res_Inr_iff only_rt_refl
      dest: named_only with_rt_only http_error_mq [THEN only_rt_refl] split: if_splits option.splits prod.splits)

lemma http_answer_mq: "http_answer h = Inr h' \<Longrightarrow> mq h' = mq h"
  by (auto simp: http_answer_def http_printf_with_status_def http_printf_def bind_res_Inr_iff split: option.splits)

lemma step_lasts:
  assumes "bridge_step e l s s'"
  shows "lasts (mq (hs s)) (mq (hs s'))"
  using assms
proof cases
  case (request hm w h)
  then show ?thesis by (auto dest: http_ev_handler_only intro: only_rt_lasts)
next
  case (answer h)
  then show ?thesis by (simp add: http_answer_mq)
next
  case (turn io)
  with main_iter_keeps show ?thesis by blast
qed

lemma run_lasts: "bridge_run e ls s s' \<Longrightarrow> lasts (mq (hs s)) (mq (hs s'))"
  using run_invariant [of e ls s s' "\<lambda>t. lasts (mq (hs s)) (mq (hs t))"] step_lasts lasts_trans lasts_refl by blast

lemma run_snoc: "bridge_run e ls s s1 \<Longrightarrow> bridge_step e l s1 s2 \<Longrightarrow> bridge_run e (ls @ [l]) s s2"
  by (induction rule: bridge_run.induct) (auto intro: bridge_run.intros)

section \<open>Properties\<close>

text \<open>A turn in which nothing is due and both connections stand, up to \<open>select\<close>.\<close>

definition calm_turn :: "'d main_env \<Rightarrow> loop_io \<Rightarrow> bridge \<Rightarrow> bool" where
  "calm_turn e io s \<longleftrightarrow>
     total_elapsed_ms s + io_elapsed io < mqtt_keepalive_ms (conf (br (he e)))
     \<and> word_of_nat (rconn s) \<le> rt_reconnect_attempts (conf (br (he e)))
     \<and> runtime_conn_fd s \<notin> {None, Some (- 1)} \<and> mqtt_mg_conn s \<and> \<not> io_mqtt_closed io"

lemma calm_turn_iter:
  "calm_turn e io s \<Longrightarrow> main_iter e io s = main_select e io (s\<lparr>total_elapsed_ms := total_elapsed_ms s + io_elapsed io\<rparr>)"
  unfolding calm_turn_def main_iter_def main_keepalive_def
  by (auto simp: Let_def main_reconnect_def main_mqtt_def not_less leD split: option.split)

text \<open>Such a turn in which the runtime delivers \<open>buf\<close>, and one in which MQTT delivers \<open>evs\<close>.\<close>

definition quiet_turn :: "'d main_env \<Rightarrow> loop_io \<Rightarrow> bridge \<Rightarrow> byte list \<Rightarrow> bool" where
  "quiet_turn e io s buf \<longleftrightarrow> calm_turn e io s \<and> io_select io = Select_Ready False True \<and> io_read io = Some buf"

definition mqtt_turn :: "'d main_env \<Rightarrow> loop_io \<Rightarrow> bridge \<Rightarrow> mg_event list \<Rightarrow> bool" where
  "mqtt_turn e io s evs \<longleftrightarrow> calm_turn e io s \<and> (\<exists>rs. io_select io = Select_Ready True rs)
     \<and> poll (br (he e)) (polls (mq (hs s))) = evs"

lemma quiet_turn_iter:
  "quiet_turn e io s buf \<Longrightarrow>
   main_iter e io s = main_read e (Some buf) (s\<lparr>total_elapsed_ms := total_elapsed_ms s + io_elapsed io\<rparr>)"
  by (simp add: quiet_turn_def calm_turn_iter main_select_def)

text \<open>One message from MQTT: the turn hands it to the runtime.\<close>

lemma mqtt_turn_step:
  assumes "mqtt_turn e io s [MG_EV_MQTT_PUBLISH topic m]" and "text_of (s_rt_topic (mq (hs s))) own"
    and "cstring topic" and "cstring m" and "topic \<noteq> own"
  shows "\<exists>q. bridge_step e (S_main io) s
        (s\<lparr>total_elapsed_ms := total_elapsed_ms s + io_elapsed io, hs := (hs s)\<lparr>mq := q\<rparr>\<rparr>)
    \<and> m_rt q = snd (rt_req_request (m_base e) (''/event/'' @ topic) (COAP_EVENT_PUB (wamr (m_base e)))
                        (incoming_json (br (he e)) m) (rt_of s))"
proof -
  let ?q = "(mq (hs s))\<lparr>polls := Suc (polls (mq (hs s)))\<rparr>"
  have own: "text_of (s_rt_topic ?q) own" using assms(2) by simp
  show ?thesis
    using assms(1) on_publish_request [OF own assms(3-5), of "br (he e)"]
    by (intro exI conjI, intro turn)
       (auto simp: mqtt_turn_def calm_turn_iter main_select_def with_mq_def mqtt_pool_requests_def mqtt_ev_handler_def)
qed

lemma query_step:
  assumes "\<not> http_waiting s" and "hm_method hm = ''GET''" and "hm_uri hm = ''/cwasm/v1/modules''"
  shows "\<exists>rt. bridge_step e (S_request hm) s (s\<lparr>hs := (hs s)\<lparr>mq := (mq (hs s))\<lparr>m_rt := rt\<rparr>\<rparr>, http_waiting := True\<rparr>)
    \<and> get_pending_request_info rt = (rnd (m_base e) (rand_calls (rt_of s)), QUERY)
    \<and> rand_calls rt = Suc (rand_calls (rt_of s))"
proof -
  obtain arr where arr: "query_url None = Inr arr" "read_cstr arr 0 = Inr ''/applet''" using query_url_text by blast
  obtain r rt where rt: "rt_req_query (m_base e) None (rt_of s) = Inr (r, rt)"
    "get_pending_request_info rt = (rnd (m_base e) (rand_calls (rt_of s)), QUERY)" "rand_calls rt = Suc (rand_calls (rt_of s))"
  proof -
    obtain r rt where i: "issue (m_base e) QUERY False ''/applet'' (COAP_GET (wamr (m_base e))) (FMT_ATTR_CONTAINER (wamr (m_base e)))
        None 0 (rt_of s) = (r, rt)" by fastforce
    then have "rt_req_query (m_base e) None (rt_of s) = Inr (r, rt)" by (simp add: rt_req_query_def arr)
    with issue_pending [OF i] issue_calls [OF i] that show ?thesis by (simp add: get_pending_request_info_def)
  qed
  have "http_ev_handler (he e) hm (hs s) = Inr (True, (hs s)\<lparr>mq := (mq (hs s))\<lparr>m_rt := rt\<rparr>\<rparr>)"
    using assms rt by (simp add: http_ev_handler_def http_handle_modules_def with_rt_def)
  from request [OF assms(1) this] rt(2,3) show ?thesis by blast
qed

text \<open>A frame that arrives whole in one read while the receiver waits for one.\<close>

definition frame_arrives :: "'d main_env \<Rightarrow> bridge \<Rightarrow> 16 word \<Rightarrow> byte list \<Rightarrow> bool" where
  "frame_arrives e s t p \<longleftrightarrow>
     phase (recv_ctx s) = Phase_Non_Start \<and> payload_fits p \<and> length (link_frame t p) \<le> BUF_SIZE
     \<and> (\<exists>b. link_malloc e (length p) = Some b \<and> length b = length p)"

lemma frame_read:
  assumes "frame_arrives e s t p" and "reply_of (link_consts (wamr (m_base e))) t = r" and "r \<noteq> - 1"
  shows "process_rcvd_data (link_malloc e) (link_consts (wamr (m_base e))) (take BUF_SIZE (link_frame t p)) (recv_ctx s)
    = Inr (r, received t p)"
  using assms process_frame [of "recv_ctx s" p "link_malloc e" _ "link_consts (wamr (m_base e))" t "[]"]
  by (auto simp: frame_arrives_def)

lemma response_frame:
  assumes "frame_arrives e s t p" and "uint t = RESPONSE_PACKET (link_consts (wamr (m_base e)))"
  shows "main_read e (Some (link_frame t p)) s = handle_response e (s\<lparr>recv_ctx := received t p\<rparr>)"
  using frame_read [OF assms(1)] assms(2) by (simp add: main_read_def reply_of_def)

lemma event_frame:
  assumes "frame_arrives e s t p" and "uint t = REQUEST_PACKET (link_consts (wamr (m_base e)))"
    and "REQUEST_PACKET (link_consts (wamr (m_base e))) \<noteq> RESPONSE_PACKET (link_consts (wamr (m_base e)))"
  shows "main_read e (Some (link_frame t p)) s = handle_event e (s\<lparr>recv_ctx := received t p\<rparr>)"
  using frame_read [OF assms(1)] assms(2,3) by (simp add: main_read_def reply_of_def REPLY_TYPE_EVENT_def REPLY_TYPE_RESPONSE_def)

text \<open>A publication of a module that the bridge has not registered is forwarded in the turn that reads it.\<close>

lemma event_published:
  assumes "quiet_turn e io s (link_frame t p)" and "frame_arrives e s t p"
    and "uint t = REQUEST_PACKET (link_consts (wamr (m_base e)))"
    and "REQUEST_PACKET (link_consts (wamr (m_base e))) \<noteq> RESPONSE_PACKET (link_consts (wamr (m_base e)))"
    and "unpack_request (wamr (m_base e)) (Some p) = Some event" and "publication (br (he e)) event m"
    and "quiet (br (he e))" and "represents (m_reg (mq (hs s))) []"
  shows "\<exists>s'. bridge_step e (S_main io) s s' \<and> mq_out (mq (hs s')) = mq_out (mq (hs s)) @ [Mq_Publish (url event) m]
    \<and> phase (recv_ctx s') = Phase_Non_Start"
proof -
  define s1 where "s1 = s\<lparr>total_elapsed_ms := total_elapsed_ms s + io_elapsed io\<rparr>"
  have "frame_arrives e s1 t p" using assms(2) by (simp add: frame_arrives_def s1_def)
  then have "main_iter e io s = handle_event e (s1\<lparr>recv_ctx := received t p\<rparr>)"
    using assms(1,3,4) by (simp add: quiet_turn_iter event_frame s1_def [symmetric])
  moreover have "snd (parse_event_from_imrtlink (wamr (m_base e)) (message (received t p))) = event"
    using assms(5) by (simp add: parse_event_from_imrtlink_def received_def)
  ultimately obtain q where "main_iter e io s = Inr (Loop (s1\<lparr>recv_ctx := received t p, hs := (hs s)\<lparr>mq := q\<rparr>\<rparr>))"
    and "mq_out q = mq_out (mq (hs s)) @ [Mq_Publish (url event) m]"
    using check_and_add_represents [OF assms(8), of "mem_ok (m_base e)" "url event" "sender event"] assms(6,7)
    by (auto simp: handle_event_def with_mq_def publication_process reg_find_def quiet_pool s1_def)
  then show ?thesis by (intro exI) (auto intro!: turn simp: received_def)
qed

text \<open>\<open>prints_as\<close>: the payload of the response is a container that decodes and prints as \<open>t\<close>.\<close>

definition prints_as :: "'d main_env \<Rightarrow> response_t \<Rightarrow> string \<Rightarrow> bool" where
  "prints_as e obj t \<longleftrightarrow>
     http_attr_container_to_str (br (he e)) (r_payload obj) (r_fmt obj) (r_payload_len obj) = Inr (Some t)"

text \<open>The state after the response has been passed on.\<close>

definition delivered :: "'d main_env \<Rightarrow> response_t \<Rightarrow> string \<Rightarrow> bridge \<Rightarrow> bridge" where
  "delivered e obj t s = s\<lparr>hs := (hs s)\<lparr>last_response_status := coap_to_http_status (he e) (r_status obj),
    last_response_str := Some t, mq := (mq (hs s))\<lparr>m_rt := rt_conn_response_received (rt_of s)\<rparr>\<rparr>\<rparr>"

definition held_response :: "'d main_env \<Rightarrow> bridge \<Rightarrow> response_t" where
  "held_response e s = snd (parse_response_from_imrtlink (wamr (m_base e)) (message (recv_ctx s)))"

lemma output_runtime_response_cases:
  "http_output_runtime_response (he e) obj h = Inr h' \<longleftrightarrow>
    (\<exists>t. prints_as e obj t \<and> h' = h\<lparr>last_response_status := coap_to_http_status (he e) (r_status obj), last_response_str := Some t\<rparr>)"
  by (auto simp: http_output_runtime_response_def prints_as_def bind_res_Inr_iff Let_def http_printf_def)

lemma handle_response_Inr:
  "handle_response e s = Inr x \<longleftrightarrow>
     r_mid (held_response e s) = g_mid (rt_of s)
     \<and> \<not> (success_status e (r_status (held_response e s)) \<and> g_req_op_type (rt_of s) \<in> {INSTALL, UNINSTALL})
     \<and> (\<exists>t. prints_as e (held_response e s) t \<and> x = Loop (delivered e (held_response e s) t s))"
proof -
  have no: "handle_installed e r s \<noteq> Inr y" "handle_uninstalled e r s \<noteq> Inr y" for r y
    using handle_installed_undefined [of e r s] handle_uninstalled_undefined [of e r s] by auto
  show ?thesis
    by (auto simp: handle_response_def Let_def held_response_def [symmetric] get_pending_request_info_def bind_res_Inr_iff
        no http_printf_def output_runtime_response_cases delivered_def)
qed

lemma handle_response_plain:
  assumes "unpack_response (wamr (m_base e)) (payload (message (recv_ctx s))) = Some obj"
    and "get_pending_request_info (rt_of s) = (r_mid obj, op)" and "op \<notin> {INSTALL, UNINSTALL}" and "prints_as e obj t"
  shows "handle_response e s = Inr (Loop (delivered e obj t s))"
proof -
  have "held_response e s = obj" using assms(1) by (simp add: held_response_def parse_response_from_imrtlink_def)
  with assms(2-4) show ?thesis by (auto simp: handle_response_Inr get_pending_request_info_def)
qed

text \<open>The handling of a response to a successful install or uninstall request is undefined.\<close>

lemma handle_response_install:
  assumes "r_mid (held_response e s) = g_mid (rt_of s)" and "success_status e (r_status (held_response e s))"
    and "g_req_op_type (rt_of s) \<in> {INSTALL, UNINSTALL}"
  shows "\<exists>f. handle_response e s = Inl f"
  using handle_response_Inr [of e s] assms by (cases "handle_response e s") auto

lemma handle_response_overrun:
  assumes "r_mid (held_response e s) = g_mid (rt_of s)" and "success_status e (r_status (held_response e s))"
    and "g_req_op_type (rt_of s) = INSTALL"
    and "answer_has (attrs (m_base e)) (json (br (he e))) (FMT_ATTR_CONTAINER (wamr (m_base e))) (held_response e s) i (Some n)"
  shows "handle_response e s = Inl Out_Of_Bounds"
proof -
  have "install_response_get_module_id_and_name (attrs (m_base e)) (json (br (he e))) (FMT_ATTR_CONTAINER (wamr (m_base e)))
      (held_response e s) (Some (zero_buf 50)) 50 = Inl Out_Of_Bounds"
    using install_response_at [OF assms(4), of 50 "zero_buf 50"] strncpy_at_ok [of 50 "zero_buf 50" n] by (auto simp: buf_write_def)
  with assms(1-3) show ?thesis
    by (simp add: handle_response_def Let_def held_response_def [symmetric] get_pending_request_info_def handle_installed_def)
qed

lemma response_turn_read:
  assumes "quiet_turn e io s buf"
    and "process_rcvd_data (link_malloc e) (link_consts (wamr (m_base e))) (take BUF_SIZE buf) (recv_ctx s) = Inr (REPLY_TYPE_RESPONSE, c)"
  shows "main_iter e io s = handle_response e (s\<lparr>total_elapsed_ms := total_elapsed_ms s + io_elapsed io, recv_ctx := c\<rparr>)"
  using quiet_turn_iter [OF assms(1)] assms(2) by (simp add: main_read_def)

text \<open>A client's query up to the turn that reads the response, and from there to the answer.\<close>

lemma query_delivered:
  assumes "\<not> http_waiting s" and "hm_method hm = ''GET''" and "hm_uri hm = ''/cwasm/v1/modules''"
    and "quiet_turn e io s (link_frame t p)" and "frame_arrives e s t p"
    and "uint t = RESPONSE_PACKET (link_consts (wamr (m_base e)))"
    and "unpack_response (wamr (m_base e)) (Some p) = Some obj" and "r_mid obj = rnd (m_base e) (rand_calls (rt_of s))"
    and "prints_as e obj str"
  shows "\<exists>rt. bridge_run e [S_request hm, S_main io] s
      (delivered e obj str (s\<lparr>hs := (hs s)\<lparr>mq := (mq (hs s))\<lparr>m_rt := rt\<rparr>\<rparr>, http_waiting := True,
        total_elapsed_ms := total_elapsed_ms s + io_elapsed io, recv_ctx := received t p\<rparr>))"
proof -
  obtain rt where rt: "bridge_step e (S_request hm) s (s\<lparr>hs := (hs s)\<lparr>mq := (mq (hs s))\<lparr>m_rt := rt\<rparr>\<rparr>, http_waiting := True\<rparr>)"
    "get_pending_request_info rt = (r_mid obj, QUERY)"
    using query_step [OF assms(1-3), of e] assms(8) by auto
  define s1 where "s1 = s\<lparr>hs := (hs s)\<lparr>mq := (mq (hs s))\<lparr>m_rt := rt\<rparr>\<rparr>, http_waiting := True\<rparr>"
  define s2 where "s2 = s1\<lparr>total_elapsed_ms := total_elapsed_ms s1 + io_elapsed io, recv_ctx := received t p\<rparr>"
  have "quiet_turn e io s1 (link_frame t p)" using assms(4) by (simp add: quiet_turn_def calm_turn_def s1_def)
  then have "main_iter e io s1 = handle_response e s2"
    using response_frame [OF _ assms(6), of "s1\<lparr>total_elapsed_ms := total_elapsed_ms s1 + io_elapsed io\<rparr>" p] assms(5)
    by (simp add: quiet_turn_iter s1_def s2_def frame_arrives_def)
  moreover have "handle_response e s2 = Inr (Loop (delivered e obj str s2))"
    using assms(7,9) rt(2)
    by (intro handle_response_plain [where op = QUERY]) (simp_all add: s2_def s1_def received_def)
  ultimately have "bridge_step e (S_main io) s1 (delivered e obj str s2)" by (simp add: bridge_step.turn)
  with rt(1) have "bridge_run e [S_request hm, S_main io] s (delivered e obj str s2)"
    unfolding s1_def [symmetric] by (blast intro: bridge_run.intros)
  then show ?thesis by (intro exI [of _ rt]) (simp add: s2_def s1_def)
qed

lemma answer_delivered:
  assumes "http_waiting s" and "rt_conn_wait_over (rt_of s)" and "last_response_str (hs s) = Some str" and "cstring str"
  shows "bridge_step e S_answer s (s\<lparr>hs := (http_send (Http_Reply (last_response_status (hs s)) CT_HEADER_JSON (take 255 str)) (hs s))
      \<lparr>last_response_str := None\<rparr>, http_waiting := False\<rparr>)"
  using assms by (intro bridge_step.answer) (simp_all add: http_answer_def printf_with_status_ok)

lemma query_run:
  assumes "\<not> http_waiting s" and "hm_method hm = ''GET''" and "hm_uri hm = ''/cwasm/v1/modules''"
    and "quiet_turn e io s (link_frame t p)" and "frame_arrives e s t p"
    and "uint t = RESPONSE_PACKET (link_consts (wamr (m_base e)))"
    and "unpack_response (wamr (m_base e)) (Some p) = Some obj" and "r_mid obj = rnd (m_base e) (rand_calls (rt_of s))"
    and "prints_as e obj str" and "cstring str"
  shows "\<exists>s'. bridge_run e [S_request hm, S_main io, S_answer] s s' \<and> \<not> http_waiting s'
    \<and> http_sent (hs s') = http_sent (hs s)
        @ [Http_Reply (coap_to_http_status (he e) (r_status obj)) CT_HEADER_JSON (take 255 str)]
    \<and> rt_conn_wait_over (rt_of s') \<and> phase (recv_ctx s') = Phase_Non_Start"
proof -
  obtain rt where run: "bridge_run e [S_request hm, S_main io] s
      (delivered e obj str (s\<lparr>hs := (hs s)\<lparr>mq := (mq (hs s))\<lparr>m_rt := rt\<rparr>\<rparr>, http_waiting := True,
        total_elapsed_ms := total_elapsed_ms s + io_elapsed io, recv_ctx := received t p\<rparr>))" (is "bridge_run e _ s ?d")
    using query_delivered [OF assms(1-9)] by blast
  note fields = delivered_def rt_conn_wait_over_def rt_conn_response_received_def received_def
  have "bridge_step e S_answer ?d (?d\<lparr>hs := (http_send (Http_Reply (last_response_status (hs ?d)) CT_HEADER_JSON (take 255 str)) (hs ?d))
      \<lparr>last_response_str := None\<rparr>, http_waiting := False\<rparr>)"
    by (rule answer_delivered) (use assms(10) in \<open>simp_all add: fields\<close>)
  from run_snoc [OF run this] show ?thesis by (intro exI conjI) (simp_all, simp_all add: fields)
qed

text \<open>
  The path of a query through both threads: a GET request makes the HTTP thread wait; when
  the runtime's frame with the answer to it arrives (same identifier, the payload prints as \<open>t\<close>),
  the turn of the main loop that reads it ends the wait, and the client gets one reply, with the
  status translated to HTTP and the first 255 bytes of \<open>t\<close>; no request is pending afterwards and
  the receiver is ready for the next frame.
\<close>

theorem query_answered:
  assumes "\<not> http_waiting s" and "hm_method hm = ''GET''" and "hm_uri hm = ''/cwasm/v1/modules''"
    and "quiet_turn e io s (link_frame t p)" and "frame_arrives e s t p"
    and "uint t = RESPONSE_PACKET (link_consts (wamr (m_base e)))"
    and "unpack_response (wamr (m_base e)) (Some p) = Some obj" and "r_mid obj = rnd (m_base e) (rand_calls (rt_of s))"
    and "prints_as e obj str" and "cstring str"
  shows "\<exists>s'. bridge_run e [S_request hm, S_main io, S_answer] s s' \<and> \<not> http_waiting s'
    \<and> http_sent (hs s') = http_sent (hs s)
        @ [Http_Reply (coap_to_http_status (he e) (r_status obj)) CT_HEADER_JSON (take 255 str)]
    \<and> rt_conn_wait_over (rt_of s') \<and> phase (recv_ctx s') = Phase_Non_Start"
  using query_run [OF assms] .


definition demo_main :: "int main_env" where
  "demo_main = \<lparr>he = demo_http\<lparr>br := (br demo_http)
       \<lparr>base := demo_env\<lparr>wamr := demo_wamr\<lparr>unpack_response := (\<lambda>p. if p = Some [7, 0] then Some demo_created else None)\<rparr>\<rparr>,
        conf := (conf (br demo_http))\<lparr>mqtt_keepalive_ms := 5000, rt_connection_mode := 1\<rparr>\<rparr>\<rparr>, link_malloc = zeroed\<rparr>"

definition demo_idle :: bridge where
  "demo_idle = \<lparr>hs = demo_http_state\<lparr>mq := demo_mqtt\<lparr>m_reg := empty_mlist\<rparr>\<rparr>, runtime_conn_fd = Some 5, cond_init_done = False, rconn = 0,
     total_elapsed_ms = 0, mqtt_mg_conn = True, recv_ctx = recv_ctx_init, http_waiting = False\<rparr>"

definition demo_io :: "byte list \<Rightarrow> loop_io" where
  "demo_io buf = \<lparr>io_elapsed = 20, io_net = demo_os\<lparr>sys_socket := - 1\<rparr>, io_mqtt_closed = False,
     io_mqtt_connected = True, io_select = Select_Ready False True, io_read = Some buf\<rparr>"

definition demo_get :: http_message where
  "demo_get = \<lparr>hm_method = ''GET'', hm_uri = ''/cwasm/v1/modules'', hm_body = [], hm_content_type = None\<rparr>"

lemma demo_prints: "prints_as demo_main demo_created ''{}''"
  by (simp add: prints_as_def http_attr_container_to_str_def demo_main_def demo_http_def demo_bridge_def demo_env_def
      demo_wamr_def demo_created_def demo_answer_def attr2json_def demo_attr_def demo_json_def)

lemma demo_query_hyps:
  "\<not> http_waiting demo_idle" "hm_method demo_get = ''GET''" "hm_uri demo_get = ''/cwasm/v1/modules''"
  "quiet_turn demo_main (demo_io (link_frame 49 [7, 0])) demo_idle (link_frame 49 [7, 0])"
  "frame_arrives demo_main demo_idle 49 [7, 0]"
  "uint (49 :: 16 word) = RESPONSE_PACKET (link_consts (wamr (m_base demo_main)))"
  "unpack_response (wamr (m_base demo_main)) (Some [7, 0]) = Some demo_created"
  "r_mid demo_created = rnd (m_base demo_main) (rand_calls (rt_of demo_idle))"
  by (simp_all add: demo_idle_def demo_get_def demo_io_def quiet_turn_def calm_turn_def frame_arrives_def demo_main_def demo_http_def recv_ctx_init_def
      payload_fits_def zeroed_def demo_env_def demo_wamr_def demo_consts_def BUF_SIZE_def link_frame_def
      leading_def mem16_def mem32_def demo_created_def demo_answer_def demo_http_state_def demo_mqtt_def demo_rt_def)

theorem query_answered_witness:
  "\<exists>s'. bridge_run demo_main [S_request demo_get, S_main (demo_io (link_frame 49 [7, 0])), S_answer] demo_idle s'
    \<and> http_sent (hs s') = [Http_Reply 201 CT_HEADER_JSON ''{}'']"
proof -
  have "cstring ''{}''" and "coap_to_http_status (he demo_main) (r_status demo_created) = 201"
    and "http_sent (hs demo_idle) = []"
    by (simp_all add: coap_to_http_status_def demo_main_def demo_http_def demo_created_def demo_answer_def
        HTTP_CREATED_201_def demo_idle_def demo_http_state_def)
  with query_answered [OF demo_query_hyps demo_prints this(1)] show ?thesis by auto
qed

text \<open>
  C3. When the code that handles a response is defined: exactly for a response with the expected
  identifier whose payload decodes and prints, and which does not announce the success of an
  install or uninstall request; then the loop goes on, the text is stored for the client and the
  wait ends. All other cases are undefined behaviour (a \<open>va_list\<close> passed for a string, a write one
  past \<open>mod_name\<close>, \<open>mod_name\<close> read without having been written), so \<open>return -1\<close> behind
  "ignore invalid response" is never reached and no installed module is ever registered.
\<close>

theorem response_handling_defined:
  "handle_response e s = Inr x \<longleftrightarrow>
     r_mid (held_response e s) = g_mid (rt_of s)
     \<and> \<not> (success_status e (r_status (held_response e s)) \<and> g_req_op_type (rt_of s) \<in> {INSTALL, UNINSTALL})
     \<and> (\<exists>t. prints_as e (held_response e s) t \<and> x = Loop (delivered e (held_response e s) t s))"
  by (rule handle_response_Inr)

text \<open>
  C4. Only a response ends a wait: when a client waits for a pending request and is answered some
  time later, then between the two there was a turn of the main loop whose \<open>read\<close> completed a
  response. Nothing else does it: no timeout, no failed or closed connection, no MQTT message and
  no other HTTP request, so a lost response leaves the REST interface blocked for good.
\<close>

theorem answer_needs_response:
  assumes "bridge_run e ls s s'" and "http_waiting s" and "\<not> rt_conn_wait_over (rt_of s)" and "\<not> http_waiting s'"
  shows "\<exists>ls1 io ls2 t. ls = ls1 @ S_main io # ls2 \<and> bridge_run e ls1 s t \<and> responds e io t"
  using assms
proof (induction rule: bridge_run.induct)
  case (more l s s1 ls s2)
  from more.hyps(1) show ?case
  proof cases
    case (turn io)
    show ?thesis
    proof (cases "responds e io s")
      case True
      with turn(1) show ?thesis by (intro exI [of _ "[]"] exI [of _ io] exI [of _ ls] exI [of _ s]) simp
    next
      case False
      with main_iter_keeps [OF turn(2)] have "bkeeps s s1" by simp
      with more.prems have "http_waiting s1" "\<not> rt_conn_wait_over (rt_of s1)"
        by (auto simp: bkeeps_def keeps_def busy_def rt_conn_wait_over_def)
      with more.IH more.prems(3) obtain ls1 io2 ls2 t where
        "ls = ls1 @ S_main io2 # ls2" "bridge_run e ls1 s1 t" "responds e io2 t" by blast
      with more.hyps(1) show ?thesis
        by (intro exI [of _ "l # ls1"] exI [of _ io2] exI [of _ ls2] exI [of _ t]) (simp add: bridge_run.more)
    qed
  qed (use more.prems in \<open>simp_all add: rt_conn_wait_over_def\<close>)
qed simp

lemma demo_wait:
  "\<exists>s s'. http_waiting s \<and> \<not> rt_conn_wait_over (rt_of s) \<and> \<not> http_waiting s'
    \<and> bridge_run demo_main [S_main (demo_io (link_frame 49 [7, 0])), S_answer] s s'"
proof -
  have "cstring ''{}''" by simp
  from query_run [OF demo_query_hyps demo_prints this] obtain s' where s':
    "bridge_run demo_main [S_request demo_get, S_main (demo_io (link_frame 49 [7, 0])), S_answer] demo_idle s'"
    "\<not> http_waiting s'" by blast
  then obtain s where s: "bridge_step demo_main (S_request demo_get) demo_idle s"
    "bridge_run demo_main [S_main (demo_io (link_frame 49 [7, 0])), S_answer] s s'"
    by (auto simp: run_Cons)
  obtain arr where arr: "query_url None = Inr arr" "read_cstr arr 0 = Inr ''/applet''" using query_url_text by blast
  from s(1) have "http_waiting s \<and> g_req_op_type (rt_of s) = QUERY"
    by (auto elim!: request_step simp: http_ev_handler_def http_handle_modules_def demo_get_def with_rt_def
        rt_req_query_def arr bind_res_Inr_iff dest!: issue_pending split: prod.splits)
  with s(2) s'(2) show ?thesis by (auto simp: rt_conn_wait_over_def)
qed

theorem answer_needs_response_witness:
  "\<exists>s s' ls1 io ls2 t. bridge_run demo_main [S_main (demo_io (link_frame 49 [7, 0])), S_answer] s s'
    \<and> [S_main (demo_io (link_frame 49 [7, 0])), S_answer] = ls1 @ S_main io # ls2
    \<and> bridge_run demo_main ls1 s t \<and> responds demo_main io t"
  using demo_wait answer_needs_response by metis

lemma demo_run:
  "\<exists>s'. bridge_run demo_main [S_request demo_get, S_main (demo_io (link_frame 49 [7, 0])), S_answer] demo_idle s'"
  using query_run [OF demo_query_hyps demo_prints] by auto

text \<open>
  C26. As far as C defines what the program does, no module is ever registered. Whatever requests,
  MQTT messages, events and responses arrive in whatever order, a run of the two threads that begins
  with an empty registry ends with one; and at the end of any such run, a turn that reads the
  successful response to an install request has undefined behaviour: when the response is well
  formed (it has an identifier and a name), \<open>mod_name[50]\<close> of an array of 50 bytes is written before
  the module is registered. The response to an uninstall request, with \<open>mod_name\<close> never written, is
  undefined as well. The README documents an event for every installed module; a compiled program
  in which the byte behind the array can be written unnoticed would send it, and is not what this
  speaks of.
\<close>

theorem install_response_undefined:
  assumes "bridge_run e ls s s'" and "represents (m_reg (mq (hs s))) []"
  shows "represents (m_reg (mq (hs s'))) []
    \<and> (\<forall>io buf c. quiet_turn e io s' buf \<longrightarrow>
        process_rcvd_data (link_malloc e) (link_consts (wamr (m_base e))) (take BUF_SIZE buf) (recv_ctx s') = Inr (REPLY_TYPE_RESPONSE, c) \<longrightarrow>
        r_mid (held_response e (s'\<lparr>recv_ctx := c\<rparr>)) = g_mid (rt_of s') \<longrightarrow> success_status e (r_status (held_response e (s'\<lparr>recv_ctx := c\<rparr>))) \<longrightarrow>
        (g_req_op_type (rt_of s') \<in> {INSTALL, UNINSTALL} \<longrightarrow> (\<exists>f. main_iter e io s' = Inl f))
        \<and> (\<forall>i n. g_req_op_type (rt_of s') = INSTALL \<longrightarrow>
             answer_has (attrs (m_base e)) (json (br (he e))) (FMT_ATTR_CONTAINER (wamr (m_base e)))
               (held_response e (s'\<lparr>recv_ctx := c\<rparr>)) i (Some n) \<longrightarrow> main_iter e io s' = Inl Out_Of_Bounds))"
proof (intro conjI allI impI)
  show "represents (m_reg (mq (hs s'))) []" using run_lasts [OF assms(1)] assms(2) by (simp add: lasts_def)
next
  fix io :: loop_io and buf c
  let ?s = "s'\<lparr>total_elapsed_ms := total_elapsed_ms s' + io_elapsed io, recv_ctx := c\<rparr>"
  assume read: "quiet_turn e io s' buf"
    "process_rcvd_data (link_malloc e) (link_consts (wamr (m_base e))) (take BUF_SIZE buf) (recv_ctx s') = Inr (REPLY_TYPE_RESPONSE, c)"
    and ok: "r_mid (held_response e (s'\<lparr>recv_ctx := c\<rparr>)) = g_mid (rt_of s')" "success_status e (r_status (held_response e (s'\<lparr>recv_ctx := c\<rparr>)))"
  note turn = response_turn_read [OF read]
  have held: "held_response e ?s = held_response e (s'\<lparr>recv_ctx := c\<rparr>)" by (simp add: held_response_def)
  { assume "g_req_op_type (rt_of s') \<in> {INSTALL, UNINSTALL}"
    then show "\<exists>f. main_iter e io s' = Inl f" unfolding turn using ok by (intro handle_response_install) (simp_all add: held) }
  { fix i n
    assume "g_req_op_type (rt_of s') = INSTALL" and "answer_has (attrs (m_base e)) (json (br (he e))) (FMT_ATTR_CONTAINER (wamr (m_base e)))
      (held_response e (s'\<lparr>recv_ctx := c\<rparr>)) i (Some n)"
    then show "main_iter e io s' = Inl Out_Of_Bounds"
      unfolding turn using ok by (intro handle_response_overrun) (simp_all add: held) }
qed

definition demo_installing :: "int main_env" where
  "demo_installing = demo_main\<lparr>he := (he demo_main)\<lparr>br := (br (he demo_main))\<lparr>base := (m_base demo_main)\<lparr>attrs := demo_attr_data,
     wamr := demo_wamr\<lparr>unpack_response := (\<lambda>p. if p = Some [7, 0] then Some demo_answer else None)\<rparr>\<rparr>\<rparr>\<rparr>\<rparr>"

definition demo_install_pending :: bridge where
  "demo_install_pending = demo_idle\<lparr>http_waiting := True, hs := (hs demo_idle)\<lparr>mq := (mq (hs demo_idle))
     \<lparr>m_rt := (rt_of demo_idle)\<lparr>g_mid := 41, g_req_op_type := INSTALL\<rparr>\<rparr>\<rparr>\<rparr>"

theorem install_response_undefined_witness:
  "main_iter demo_installing (demo_io (link_frame 49 [7, 0])) demo_install_pending = Inl Out_Of_Bounds"
proof -
  note env = demo_installing_def demo_main_def demo_http_def demo_bridge_def demo_env_def demo_wamr_def
  have run: "bridge_run demo_installing [] demo_install_pending demo_install_pending" "represents (m_reg (mq (hs demo_install_pending))) []"
    by (simp_all add: demo_install_pending_def demo_idle_def represents_empty)
  have quiet: "quiet_turn demo_installing (demo_io (link_frame 49 [7, 0])) demo_install_pending (link_frame 49 [7, 0])"
    by (simp add: quiet_turn_def calm_turn_def demo_install_pending_def demo_idle_def demo_io_def env)
  have "frame_arrives demo_installing demo_install_pending 49 [7, 0]"
    by (simp add: frame_arrives_def demo_install_pending_def demo_idle_def recv_ctx_init_def payload_fits_def BUF_SIZE_def link_frame_def
        leading_def mem16_def mem32_def zeroed_def env)
  moreover have "reply_of (link_consts (wamr (m_base demo_installing))) 49 = REPLY_TYPE_RESPONSE"
    by (simp add: reply_of_def env demo_consts_def)
  ultimately have read: "process_rcvd_data (link_malloc demo_installing) (link_consts (wamr (m_base demo_installing)))
      (take BUF_SIZE (link_frame 49 [7, 0])) (recv_ctx demo_install_pending) = Inr (REPLY_TYPE_RESPONSE, received 49 [7, 0])"
    by (rule frame_read) simp
  have held: "held_response demo_installing (demo_install_pending\<lparr>recv_ctx := received 49 [7, 0]\<rparr>) = demo_answer"
    by (simp add: held_response_def parse_response_from_imrtlink_def received_def env)
  have "answer_has (attrs (m_base demo_installing)) (json (br (he demo_installing))) (FMT_ATTR_CONTAINER (wamr (m_base demo_installing)))
      demo_answer ''12'' (Some ''pub'')"
    using demo_answer_has by (simp add: env)
  moreover have "r_mid demo_answer = g_mid (rt_of demo_install_pending)" "success_status demo_installing (r_status demo_answer)"
    "g_req_op_type (rt_of demo_install_pending) = INSTALL"
    by (simp_all add: demo_answer_def demo_install_pending_def success_status_def env)
  ultimately show ?thesis
    using install_response_undefined [OF run, THEN conjunct2, rule_format, OF quiet read, unfolded held] by blast
qed



text \<open>
  C9. What is unsafe in the receiver of the whole program, and that nothing else is: in every state
  that a run reaches, from the zeroed context or any other safe one, the next \<open>read\<close> can deliver any
  bytes, and they are processed without leaving a buffer, unless a \<open>malloc\<close> of at most one megabyte
  fails: the one fault there is, a write through NULL, needs that, because the result of \<open>malloc\<close> is
  not checked. A receiver between frames that reads a frame for whose payload there is no memory
  always gets there.
  \<open>malloc\<close> gives blocks of the requested size or NULL.
\<close>

theorem receiver_faults_in_runs:
  assumes "bridge_run e ls s s'" and "link_safe (link_malloc e) (recv_ctx s)" and "malloc_sized (link_malloc e)"
  shows "link_safe (link_malloc e) (recv_ctx s')
    \<and> (\<forall>buf. (\<exists>r c. process_rcvd_data (link_malloc e) (link_consts (wamr (m_base e))) buf (recv_ctx s') = Inr (r, c))
         \<or> process_rcvd_data (link_malloc e) (link_consts (wamr (m_base e))) buf (recv_ctx s') = Inl Null_Deref \<and> malloc_fails (link_malloc e))
    \<and> (\<forall>t p buf. phase (recv_ctx s') = Phase_Non_Start \<longrightarrow> payload_fits p \<longrightarrow> link_malloc e (length p) = None \<longrightarrow>
         process_rcvd_data (link_malloc e) (link_consts (wamr (m_base e))) (link_frame t p @ buf) (recv_ctx s') = Inl Null_Deref)"
proof -
  have safe: "link_safe (link_malloc e) (recv_ctx s')"
    using run_invariant [of e ls s s' "\<lambda>s. link_safe (link_malloc e) (recv_ctx s)", OF assms(1,2)] step_keeps_link_safe assms(3) by blast
  have "(\<exists>r c. process_rcvd_data (link_malloc e) (link_consts (wamr (m_base e))) buf (recv_ctx s') = Inr (r, c))
      \<or> process_rcvd_data (link_malloc e) (link_consts (wamr (m_base e))) buf (recv_ctx s') = Inl Null_Deref \<and> malloc_fails (link_malloc e)" for buf
    using process_safe [OF assms(3) safe, of "link_consts (wamr (m_base e))" buf] by (auto split: sum.splits)
  with safe show ?thesis using process_frame_no_memory by blast
qed

text \<open>Memory for up to 9 bytes.\<close>

definition demo_poor :: "int main_env" where
  "demo_poor = demo_main\<lparr>link_malloc := (\<lambda>n. if n < 10 then Some (replicate n 0) else None)\<rparr>"

theorem receiver_faults_in_runs_witness:
  "process_rcvd_data (link_malloc demo_poor) (link_consts (wamr (m_base demo_poor))) (link_frame 49 (replicate 10 7)) (recv_ctx demo_idle)
    = Inl Null_Deref"
proof -
  have "bridge_run demo_poor [] demo_idle demo_idle" "link_safe (link_malloc demo_poor) (recv_ctx demo_idle)" "malloc_sized (link_malloc demo_poor)"
    by (simp_all add: demo_idle_def malloc_sized_def demo_poor_def)
  note safe = receiver_faults_in_runs [OF this, THEN conjunct2, THEN conjunct2, rule_format]
  have "phase (recv_ctx demo_idle) = Phase_Non_Start" "payload_fits (replicate 10 7)" "link_malloc demo_poor (length (replicate 10 (7 :: byte))) = None"
    by (simp_all add: demo_idle_def recv_ctx_init_def payload_fits_def demo_poor_def)
  from safe [OF this, of 49 "[]"] show ?thesis by simp
qed

text \<open>\<open>unreachable\<close>: neither a socket nor a TCP connection can be had in this turn.\<close>

definition unreachable :: "net_os \<Rightarrow> bool" where
  "unreachable os \<longleftrightarrow> sys_socket os = - 1 \<or> (\<forall>fd a. sys_connect os fd a \<noteq> 0)"

lemma unreachable_open:
  assumes "unreachable os" and "rt_connection_mode (conf (br (he e))) = CONNECTION_MODE_TCP"
    and "open_runtime e os s = Inr (r, s')"
  shows "r \<noteq> 0 \<and> runtime_conn_fd s' = runtime_conn_fd s \<and> rconn s' = rconn s"
  using assms by (auto simp: unreachable_def open_runtime_def runtime_conn_init_def tcp_init_def conn_opened_def
      bind_res_Inr_iff Let_def split: if_splits)

lemma keepalive_conn: "main_keepalive e io s = Inr s' \<Longrightarrow> runtime_conn_fd s' = runtime_conn_fd s \<and> rconn s' = rconn s"
  by (auto simp: main_keepalive_def Let_def with_mq_def bind_res_Inr_iff split: if_splits)

lemma failing_turn:
  assumes "main_iter e io s = Inr (Loop s')" and "runtime_conn_fd s = Some (- 1)"
    and "rt_connection_mode (conf (br (he e))) = CONNECTION_MODE_TCP" and "unreachable (io_net io)"
  shows "word_of_nat (rconn s) \<le> rt_reconnect_attempts (conf (br (he e)))
    \<and> rconn s' = Suc (rconn s) \<and> runtime_conn_fd s' = Some (- 1)"
proof -
  obtain s1 where k: "main_keepalive e io s = Inr s1" using assms(1) by (auto simp: main_iter_def bind_res_Inr_iff)
  note a = keepalive_conn [OF k]
  have le: "word_of_nat (rconn s) \<le> rt_reconnect_attempts (conf (br (he e)))"
    using assms(1) k a by (auto simp: main_iter_def not_less split: if_splits)
  obtain r s2 where o: "open_runtime e (io_net io) (s1\<lparr>rconn := Suc (rconn s1)\<rparr>) = Inr (r, s2)"
    using assms(1,2) k a by (auto simp: main_iter_def main_reconnect_def bind_res_Inr_iff split: if_splits)
  from unreachable_open [OF assms(4,3) o] a assms(2)
  have f: "r \<noteq> 0" "runtime_conn_fd s2 = Some (- 1)" "rconn s2 = Suc (rconn s)" by simp_all
  have "s' = s2" using assms(1,2) k a o f(1) by (auto simp: main_iter_def main_reconnect_def split: if_splits)
  with le f show ?thesis by simp
qed

text \<open>
  C34. Reconnection is bounded: while the runtime cannot be reached over TCP, every turn of the
  loop counts one attempt, and the program stays in the loop for at most one turn more than the
  configured number of attempts (\<open>rconn > attempts\<close> then leads to \<open>exit (-1)\<close>).
\<close>

theorem reconnection_bounded:
  assumes "bridge_run e (map S_main ios) s s'" and "runtime_conn_fd s = Some (- 1)" and "rconn s = 0"
    and "rt_connection_mode (conf (br (he e))) = CONNECTION_MODE_TCP" and "\<forall>io \<in> set ios. unreachable (io_net io)"
    and "rt_reconnect_attempts (conf (br (he e))) < 2 ^ 31 - 1"
  shows "rconn s' = length ios \<and> length ios \<le> Suc (unat (rt_reconnect_attempts (conf (br (he e)))))"
proof -
  let ?a = "unat (rt_reconnect_attempts (conf (br (he e))))"
  have a: "?a < 2 ^ 31 - 1" using assms(6) by (simp add: word_less_nat_alt)
  have "rconn s' = rconn s + length ios \<and> rconn s' \<le> Suc ?a" if "rconn s \<le> Suc ?a"
    using assms(1,2,5) that
  proof (induction ios arbitrary: s)
    case (Cons io ios)
    then obtain t where t: "main_iter e io s = Inr (Loop t)" "bridge_run e (map S_main ios) t s'"
      by (auto simp: run_Cons elim!: main_step)
    from failing_turn [OF t(1) Cons.prems(2) assms(4)] Cons.prems(3)
    have f: "word_of_nat (rconn s) \<le> rt_reconnect_attempts (conf (br (he e)))" "rconn t = Suc (rconn s)"
      "runtime_conn_fd t = Some (- 1)" by simp_all
    have "unat (word_of_nat (rconn s) :: 32 word) = rconn s" using Cons.prems(4) a by (simp add: unat_of_nat)
    with f(1) have "rconn s \<le> ?a" by (simp add: word_le_nat_alt)
    with Cons.IH [OF t(2) f(3)] Cons.prems(3) f(2) show ?case by simp
  qed simp
  with assms(3) show ?thesis by simp
qed

definition demo_lost :: bridge where
  "demo_lost = demo_idle\<lparr>runtime_conn_fd := Some (- 1)\<rparr>"

theorem reconnection_bounded_witness:
  "\<exists>s'. bridge_run demo_main (map S_main [demo_io []]) demo_lost s' \<and> rconn s' = 1"
proof -
  have c: "read_cstr (rt_address (conf (br (he demo_main)))) 0 = Inr []"
    using text_of_zero [of STR_MAXLEN]
    by (simp add: demo_main_def demo_http_def demo_bridge_def g_bt_config_def text_of_def STR_MAXLEN_def)
  have m: "rt_connection_mode (conf (br (he demo_main))) = CONNECTION_MODE_TCP"
    and u: "unreachable (io_net (demo_io []))" and a: "rt_reconnect_attempts (conf (br (he demo_main))) = 0"
    by (simp_all add: demo_main_def CONNECTION_MODE_TCP_def unreachable_def demo_io_def demo_http_def demo_bridge_def g_bt_config_def)
  have "\<exists>s'. main_iter demo_main (demo_io []) demo_lost = Inr (Loop s')"
    using c m by (simp add: main_iter_def main_keepalive_def main_reconnect_def open_runtime_def runtime_conn_init_def
        demo_lost_def demo_idle_def demo_io_def tcp_init_def conn_opened_def a Let_def)
       (simp add: demo_main_def tcp_init_def conn_opened_def)
  then obtain s' where run: "bridge_run demo_main (map S_main [demo_io []]) demo_lost s'"
    by (auto simp: run_Cons intro: bridge_step.turn)
  have "runtime_conn_fd demo_lost = Some (- 1)" and "rconn demo_lost = 0" by (simp_all add: demo_lost_def demo_idle_def)
  from reconnection_bounded [OF run this m] u a run show ?thesis by auto
qed

end
