(* ===== verification/Pending_Threads.thy ===== *)
theory Pending_Threads
  imports Bridge_Main
begin

text \<open>
  The record of the pending request under two threads. \<open>handle_response\<close> (bridge-tool.c) reads it,
  stores the text for the client and clears it in three calls, of which only the last one takes
  \<open>mutex_request\<close>; the HTTP thread notes its request, waits until none is pending and answers
  (http.c, runtime_conn.c). A step here is one of these calls, over the same state as in
  Bridge_Main. The section on runs of \<open>bridge_step\<close> has what happens to a client when a message
  from MQTT arrives around the turn that reads its response.
\<close>

section \<open>Calls as steps\<close>

text \<open>
  A response with another identifier, or one that announces an installation, has no step: its code is
  undefined (theory Bridge_Main). \<open>P_publish\<close> is the record's part of a message from MQTT.
\<close>

datatype main_place = M_Loop | M_Checked response_t | M_Stored

record pending =
  web :: http_state
  main_at :: main_place
  client :: bool   \<comment> \<open>the HTTP thread is in \<open>rt_conn_wait_pending_response\<close>\<close>

datatype pending_label =
    P_check response_t        \<comment> \<open>\<open>get_pending_request_info\<close> and the comparison with the response\<close>
  | P_store                   \<comment> \<open>\<open>http_output_runtime_response\<close>\<close>
  | P_clear                   \<comment> \<open>\<open>rt_conn_response_received\<close>\<close>
  | P_note op_type "32 word"  \<comment> \<open>\<open>rt_conn_request_sent\<close> by the HTTP thread, which goes on to wait\<close>
  | P_publish "32 word"       \<comment> \<open>\<open>rt_conn_request_sent\<close> by the main thread\<close>
  | P_answer

definition web_rt :: "(rt_state \<Rightarrow> rt_state) \<Rightarrow> http_state \<Rightarrow> http_state" where
  "web_rt f h = h\<lparr>mq := (mq h)\<lparr>m_rt := f (m_rt (mq h))\<rparr>\<rparr>"

definition no_module_event :: "'d main_env \<Rightarrow> response_t \<Rightarrow> op_type \<Rightarrow> bool" where
  "no_module_event e obj op \<longleftrightarrow> \<not> (success_status e (r_status obj) \<and> op \<in> {INSTALL, UNINSTALL})"

inductive pending_step :: "'d main_env \<Rightarrow> pending_label \<Rightarrow> pending \<Rightarrow> pending \<Rightarrow> bool" for e where
  check: "main_at s = M_Loop \<Longrightarrow> get_pending_request_info (m_rt (mq (web s))) = (r_mid obj, op) \<Longrightarrow> no_module_event e obj op \<Longrightarrow>
     pending_step e (P_check obj) s (s\<lparr>main_at := M_Checked obj\<rparr>)"
| store_text: "main_at s = M_Checked obj \<Longrightarrow> http_output_runtime_response (he e) obj (web s) = Inr h \<Longrightarrow>
     pending_step e P_store s (s\<lparr>web := h, main_at := M_Stored\<rparr>)"
| clear: "main_at s = M_Stored \<Longrightarrow>
     pending_step e P_clear s (s\<lparr>web := web_rt rt_conn_response_received (web s), main_at := M_Loop\<rparr>)"
| noted: "\<not> client s \<Longrightarrow>
     pending_step e (P_note op m) s (s\<lparr>web := web_rt (rt_conn_request_sent op m) (web s), client := True\<rparr>)"
| publish: "main_at s = M_Loop \<Longrightarrow>
     pending_step e (P_publish m) s (s\<lparr>web := web_rt (rt_conn_request_sent REQUEST m) (web s)\<rparr>)"
| reply: "client s \<Longrightarrow> rt_conn_wait_over (m_rt (mq (web s))) \<Longrightarrow> http_answer (web s) = Inr h \<Longrightarrow>
     pending_step e P_answer s (s\<lparr>web := h, client := False\<rparr>)"

inductive pending_run :: "'d main_env \<Rightarrow> pending_label list \<Rightarrow> pending \<Rightarrow> pending \<Rightarrow> bool" for e where
  nothing: "pending_run e [] s s"
| steps: "pending_step e l s s1 \<Longrightarrow> pending_run e ls s1 s2 \<Longrightarrow> pending_run e (l # ls) s s2"

inductive_simps pending_Nil [simp]: "pending_run e [] s s'"
inductive_simps pending_Cons: "pending_run e (l # ls) s s'"
inductive_simps pending_step_simps: "pending_step e (P_check obj) s s'" "pending_step e P_store s s'" "pending_step e P_clear s s'"
  "pending_step e (P_note op m) s s'" "pending_step e (P_publish m) s s'" "pending_step e P_answer s s'"


section \<open>The three calls are the handler\<close>

lemma web_rt_simps [simp]:
  "m_rt (mq (web_rt f h)) = f (m_rt (mq h))" "last_response_str (web_rt f h) = last_response_str h"
  "last_response_status (web_rt f h) = last_response_status h" "http_sent (web_rt f h) = http_sent h"
  by (simp_all add: web_rt_def)

text \<open>\<open>handle_response\<close> goes on with the loop exactly when the three calls in a row do, with the same state.\<close>

lemma three_calls:
  "pending_run e [P_check obj, P_store, P_clear] \<lparr>web = h, main_at = M_Loop, client = c\<rparr> s' \<longleftrightarrow>
     r_mid obj = g_mid (m_rt (mq h)) \<and> no_module_event e obj (g_req_op_type (m_rt (mq h)))
     \<and> (\<exists>t. prints_as e obj t \<and> s' = \<lparr>web = web_rt rt_conn_response_received
          (h\<lparr>last_response_status := coap_to_http_status (he e) (r_status obj), last_response_str := Some t\<rparr>),
          main_at = M_Loop, client = c\<rparr>)"
  by (fastforce simp: pending_Cons pending_step_simps output_runtime_response_cases get_pending_request_info_def)

lemma handle_response_calls:
  "handle_response e s = Inr (Loop s') \<longleftrightarrow>
    (\<exists>h. pending_run e [P_check (held_response e s), P_store, P_clear]
           \<lparr>web = hs s, main_at = M_Loop, client = c\<rparr> \<lparr>web = h, main_at = M_Loop, client = c\<rparr> \<and> s' = s\<lparr>hs := h\<rparr>)"
  unfolding three_calls handle_response_Inr by (auto simp: no_module_event_def delivered_def web_rt_def)

section \<open>Properties of the record\<close>

lemma stolen_run:
  assumes "main_at s = M_Loop" and "\<not> client s" and "get_pending_request_info (m_rt (mq (web s))) = (r_mid obj, op)"
    and "no_module_event e obj op" and "prints_as e obj t" and "cstring t"
  shows "\<exists>s'. pending_run e [P_check obj, P_note op2 m, P_store, P_clear, P_answer] s s' \<and> \<not> client s'
    \<and> http_sent (web s') = http_sent (web s) @ [Http_Reply (coap_to_http_status (he e) (r_status obj)) CT_HEADER_JSON (take 255 t)]
    \<and> get_pending_request_info (m_rt (mq (web s'))) = (m, NONE)"
proof -
  define h1 where "h1 = web_rt (rt_conn_request_sent op2 m) (web s)"
  define h2 where "h2 = h1\<lparr>last_response_status := coap_to_http_status (he e) (r_status obj), last_response_str := Some t\<rparr>"
  define h3 where "h3 = web_rt rt_conn_response_received h2"
  define h4 where "h4 = (http_send (Http_Reply (coap_to_http_status (he e) (r_status obj)) CT_HEADER_JSON (take 255 t)) h3)\<lparr>last_response_str := None\<rparr>"
  define s1 where "s1 = s\<lparr>main_at := M_Checked obj\<rparr>"
  define s2 where "s2 = s1\<lparr>web := h1, client := True\<rparr>"
  define s3 where "s3 = s2\<lparr>web := h2, main_at := M_Stored\<rparr>"
  define s4 where "s4 = s3\<lparr>web := h3, main_at := M_Loop\<rparr>"
  define s5 where "s5 = s4\<lparr>web := h4, client := False\<rparr>"
  have "pending_step e (P_check obj) s s1" unfolding s1_def using assms(1,3,4) by (rule check)
  moreover have "pending_step e (P_note op2 m) s1 s2"
    using noted [of s1 e op2 m] assms(2) by (simp add: s2_def s1_def h1_def)
  moreover have "pending_step e P_store s2 s3"
    unfolding s3_def using assms(5) by (intro store_text) (auto simp: s2_def s1_def output_runtime_response_cases h2_def)
  moreover have "pending_step e P_clear s3 s4"
    using clear [of s3 e] by (simp add: s4_def s3_def h3_def)
  moreover have "http_answer h3 = Inr h4"
    using assms(6) by (simp add: http_answer_def h3_def h2_def h4_def printf_with_status_ok)
  then have "pending_step e P_answer s4 s5"
    unfolding s5_def by (intro reply) (simp_all add: s4_def s3_def s2_def h3_def rt_conn_wait_over_def rt_conn_response_received_def)
  ultimately have "pending_run e [P_check obj, P_note op2 m, P_store, P_clear, P_answer] s s5" by (blast intro: pending_run.intros)
  then show ?thesis
    by (intro exI [of _ s5]) (simp add: s5_def h4_def h3_def h2_def h1_def get_pending_request_info_def
        rt_conn_response_received_def rt_conn_request_sent_def)
qed

text \<open>
  C17. The answer to somebody else: while the main thread handles the response to one request, the
  HTTP thread can note the next one between the check of the identifier and the end of the handling,
  as only the single writes take the lock. Its wait then ends at once, and its client gets the text
  of the first request's response; the identifier of its own request stays behind with no request
  pending.
\<close>

theorem answer_to_another_request:
  assumes "main_at s = M_Loop" and "\<not> client s" and "get_pending_request_info (m_rt (mq (web s))) = (r_mid obj, op)"
    and "no_module_event e obj op" and "prints_as e obj t" and "cstring t" and "m \<noteq> r_mid obj"
  shows "\<exists>s'. pending_run e [P_check obj, P_note op2 m, P_store, P_clear, P_answer] s s' \<and> \<not> client s'
    \<and> http_sent (web s') = http_sent (web s) @ [Http_Reply (coap_to_http_status (he e) (r_status obj)) CT_HEADER_JSON (take 255 t)]
    \<and> get_pending_request_info (m_rt (mq (web s'))) = (m, NONE)"
  using stolen_run [OF assms(1-6)] .

definition demo_pending :: pending where
  "demo_pending = \<lparr>web = web_rt (rt_conn_request_sent REQUEST 41) demo_http_state, main_at = M_Loop, client = False\<rparr>"

lemma demo_pending_hyps:
  "main_at demo_pending = M_Loop" "\<not> client demo_pending"
  "get_pending_request_info (m_rt (mq (web demo_pending))) = (r_mid demo_created, REQUEST)"
  "no_module_event demo_main demo_created REQUEST" "http_sent (web demo_pending) = []"
  by (simp_all add: demo_pending_def get_pending_request_info_def rt_conn_request_sent_def no_module_event_def
      demo_created_def demo_answer_def demo_http_state_def)

theorem answer_to_another_request_witness:
  "\<exists>s'. pending_run demo_main [P_check demo_created, P_note QUERY 42, P_store, P_clear, P_answer] demo_pending s'
    \<and> http_sent (web s') = [Http_Reply 201 CT_HEADER_JSON ''{}''] \<and> get_pending_request_info (m_rt (mq (web s'))) = (42, NONE)"
proof -
  have "cstring ''{}''" and "42 \<noteq> r_mid demo_created" and "coap_to_http_status (he demo_main) (r_status demo_created) = 201"
    by (simp_all add: demo_created_def demo_answer_def coap_to_http_status_def demo_main_def demo_http_def HTTP_CREATED_201_def)
  with answer_to_another_request [OF demo_pending_hyps(1-4) demo_prints this(1,2), of QUERY] demo_pending_hyps(5)
  show ?thesis by auto
qed


text \<open>
  With the handling uninterrupted (as it would be under one lock) and no message from MQTT in
  between, a waiting client gets a response to its own request: one of those handled during the wait
  that carries the identifier of the request.
\<close>

lemma pending_append: "pending_run e (xs @ ys) s s' \<longleftrightarrow> (\<exists>t. pending_run e xs s t \<and> pending_run e ys t s')"
  by (induction xs arbitrary: s) (auto simp: pending_Cons)

definition handling :: "response_t \<Rightarrow> pending_label list" where
  "handling obj = [P_check obj, P_store, P_clear]"

lemma handling_run:
  assumes "pending_run e (handling obj) s s'" and "main_at s = M_Loop"
  shows "r_mid obj = g_mid (m_rt (mq (web s))) \<and> main_at s' = M_Loop \<and> client s' = client s
    \<and> g_mid (m_rt (mq (web s'))) = g_mid (m_rt (mq (web s))) \<and> http_sent (web s') = http_sent (web s)
    \<and> (\<exists>t. prints_as e obj t \<and> last_response_str (web s') = Some t
        \<and> last_response_status (web s') = coap_to_http_status (he e) (r_status obj))"
proof -
  have "s = \<lparr>web = web s, main_at = M_Loop, client = client s\<rparr>" using assms(2) by (cases s) simp
  with assms(1) obtain t where t: "r_mid obj = g_mid (m_rt (mq (web s)))" "prints_as e obj t"
    "s' = \<lparr>web = web_rt rt_conn_response_received
        ((web s)\<lparr>last_response_status := coap_to_http_status (he e) (r_status obj), last_response_str := Some t\<rparr>),
      main_at = M_Loop, client = client s\<rparr>"
    using three_calls [of e obj "web s" "client s" s'] by (auto simp: handling_def)
  then show ?thesis by (simp add: rt_conn_response_received_def)
qed

lemma handlings_run:
  assumes "pending_run e (concat (map handling objs)) s s'" and "main_at s = M_Loop"
  shows "main_at s' = M_Loop \<and> client s' = client s \<and> g_mid (m_rt (mq (web s'))) = g_mid (m_rt (mq (web s)))
    \<and> http_sent (web s') = http_sent (web s) \<and> (\<forall>obj \<in> set objs. r_mid obj = g_mid (m_rt (mq (web s))))
    \<and> (objs = [] \<and> s' = s \<or> objs \<noteq> [] \<and> (\<exists>t. prints_as e (last objs) t \<and> last_response_str (web s') = Some t
        \<and> last_response_status (web s') = coap_to_http_status (he e) (r_status (last objs))))"
  using assms
proof (induction objs arbitrary: s)
  case (Cons obj objs)
  then obtain s1 where s1: "pending_run e (handling obj) s s1" "pending_run e (concat (map handling objs)) s1 s'"
    by (auto simp: pending_append)
  from handling_run [OF s1(1) Cons.prems(2)] have a: "r_mid obj = g_mid (m_rt (mq (web s)))" "main_at s1 = M_Loop"
    "client s1 = client s" "g_mid (m_rt (mq (web s1))) = g_mid (m_rt (mq (web s)))" "http_sent (web s1) = http_sent (web s)"
    "\<exists>t. prints_as e obj t \<and> last_response_str (web s1) = Some t
        \<and> last_response_status (web s1) = coap_to_http_status (he e) (r_status obj)" by simp_all
  from Cons.IH [OF s1(2) a(2)] a show ?case by (cases "objs = []") auto
qed simp

text \<open>
  C18. What a lock around the handling would give: when responses are handled without interruption,
  and no message from MQTT comes in between, a client that waits for its pending request is answered
  with the text and the status of a response that carries the identifier of that request.
\<close>

theorem uninterrupted_handling_answers_own:
  assumes "pending_run e (concat (map handling objs) @ [P_answer]) s s'" and "main_at s = M_Loop"
    and "\<not> rt_conn_wait_over (m_rt (mq (web s)))" and "\<forall>obj t. prints_as e obj t \<longrightarrow> cstring t"
  shows "\<exists>obj \<in> set objs. \<exists>t. r_mid obj = g_mid (m_rt (mq (web s))) \<and> prints_as e obj t
    \<and> http_sent (web s') = http_sent (web s) @ [Http_Reply (coap_to_http_status (he e) (r_status obj)) CT_HEADER_JSON (take 255 t)]
    \<and> \<not> client s'"
proof -
  obtain s1 where s1: "pending_run e (concat (map handling objs)) s s1" "pending_step e P_answer s1 s'"
    using assms(1) by (auto simp: pending_append pending_Cons)
  note h = handlings_run [OF s1(1) assms(2)]
  have ne: "objs \<noteq> []" using h s1(2) assms(3) by (auto simp: pending_step_simps)
  with h obtain t where t: "prints_as e (last objs) t" "last_response_str (web s1) = Some t"
    "last_response_status (web s1) = coap_to_http_status (he e) (r_status (last objs))" by auto
  have "last objs \<in> set objs" using ne by simp
  moreover have "http_sent (web s') = http_sent (web s)
      @ [Http_Reply (coap_to_http_status (he e) (r_status (last objs))) CT_HEADER_JSON (take 255 t)] \<and> \<not> client s'"
    using s1(2) t h assms(4) by (auto simp: pending_step_simps http_answer_def printf_with_status_ok)
  ultimately show ?thesis using h t(1) by blast
qed

theorem uninterrupted_handling_answers_own_witness:
  "\<exists>s s'. pending_run demo_main [P_check demo_created, P_store, P_clear, P_answer] s s'
    \<and> http_sent (web s') = http_sent (web s) @ [Http_Reply 201 CT_HEADER_JSON ''{}''] \<and> \<not> client s'"
proof -
  let ?s = "demo_pending\<lparr>client := True\<rparr>"
  have s: "?s = \<lparr>web = web demo_pending, main_at = M_Loop, client = True\<rparr>" by (simp add: demo_pending_def)
  have mid: "r_mid demo_created = g_mid (m_rt (mq (web ?s)))" and op: "g_req_op_type (m_rt (mq (web demo_pending))) = REQUEST"
    using demo_pending_hyps(3) by (simp_all add: get_pending_request_info_def)
  obtain s1 where s1: "pending_run demo_main (handling demo_created) ?s s1"
    using demo_prints demo_pending_hyps(4) mid op unfolding s handling_def three_calls by auto
  have texts: "\<forall>obj t. prints_as demo_main obj t \<longrightarrow> cstring t"
    by (auto simp: prints_as_def http_attr_container_to_str_def bind_res_Inr_iff demo_main_def demo_http_def demo_bridge_def
        demo_json_def split: if_splits option.splits)
  note h = handling_run [OF s1]
  obtain t where t: "main_at s1 = M_Loop" "client s1" "last_response_str (web s1) = Some t" "prints_as demo_main demo_created t"
    using h by (auto simp: s)
  have over: "rt_conn_wait_over (m_rt (mq (web s1)))"
    using s1 by (auto simp: handling_def pending_Cons pending_step_simps rt_conn_wait_over_def rt_conn_response_received_def)
  have "\<exists>h. http_answer (web s1) = Inr h" using t texts by (auto simp: http_answer_def printf_with_status_ok)
  then obtain s2 where "pending_step demo_main P_answer s1 s2" using t(2) over by (auto simp: pending_step_simps)
  with s1 have run: "pending_run demo_main (concat (map handling [demo_created]) @ [P_answer]) ?s s2"
    by (auto simp: pending_append pending_Cons)
  have "main_at ?s = M_Loop" and "\<not> rt_conn_wait_over (m_rt (mq (web ?s)))"
    using op by (simp_all add: s rt_conn_wait_over_def)
  from uninterrupted_handling_answers_own [OF run this texts] obtain u where
    u: "prints_as demo_main demo_created u" "http_sent (web s2) = http_sent (web ?s)
      @ [Http_Reply (coap_to_http_status (he demo_main) (r_status demo_created)) CT_HEADER_JSON (take 255 u)]" "\<not> client s2"
    by auto
  have "u = ''{}''" using u(1) demo_prints by (simp add: prints_as_def)
  moreover have "coap_to_http_status (he demo_main) (r_status demo_created) = 201"
    by (simp add: demo_created_def demo_answer_def coap_to_http_status_def demo_main_def demo_http_def HTTP_CREATED_201_def)
  ultimately show ?thesis using u run by (intro exI [of _ ?s] exI [of _ s2]) (simp add: handling_def)
qed


section \<open>A message from MQTT around the response\<close>

lemma publish_pending:
  assumes "mqtt_turn e io s [MG_EV_MQTT_PUBLISH topic m]" and "text_of (s_rt_topic (mq (hs s))) own"
    and "cstring topic" and "cstring m" and "topic \<noteq> own"
    and "incoming_json (br (he e)) m = Some j" and "json2attr (attrs (m_base e)) (mem_ok (m_base e)) j = Some c"
  shows "\<exists>q. bridge_step e (S_main io) s
        (s\<lparr>total_elapsed_ms := total_elapsed_ms s + io_elapsed io, hs := (hs s)\<lparr>mq := q\<rparr>\<rparr>)
    \<and> get_pending_request_info (m_rt q) = (rnd (m_base e) (rand_calls (rt_of s)), REQUEST)"
proof -
  obtain r rt where rt: "rt_req_request (m_base e) (''/event/'' @ topic) (COAP_EVENT_PUB (wamr (m_base e))) (Some j) (rt_of s) = (r, rt)"
    by fastforce
  then have "issue (m_base e) REQUEST False (''/event/'' @ topic) (COAP_EVENT_PUB (wamr (m_base e)))
      (FMT_ATTR_CONTAINER (wamr (m_base e))) (Some c) (attr_serialize_length (attrs (m_base e)) c) (rt_of s) = (r, rt)"
    using assms(7) by (simp add: rt_req_request_def)
  from issue_pending [OF this] mqtt_turn_step [OF assms(1-5)] rt assms(6)
  show ?thesis by (auto simp: get_pending_request_info_def)
qed

text \<open>
  C15. A lost wake-up: the response to a client's query has been read and its text stored for the
  client, so that its wait is over; if the main thread reads a message from MQTT before the HTTP
  thread has come out of its wait, the record of the pending request is taken over and the HTTP
  thread goes on waiting, with its answer lying there. It cannot answer in the state reached.
\<close>

theorem wake_up_lost:
  assumes "\<not> http_waiting s" and "hm_method hm = ''GET''" and "hm_uri hm = ''/cwasm/v1/modules''"
    and "quiet_turn e io s (link_frame t p)" and "frame_arrives e s t p"
    and "uint t = RESPONSE_PACKET (link_consts (wamr (m_base e)))"
    and "unpack_response (wamr (m_base e)) (Some p) = Some obj" and "r_mid obj = rnd (m_base e) (rand_calls (rt_of s))"
    and "prints_as e obj str"
    and "mqtt_turn e io2 (s\<lparr>total_elapsed_ms := total_elapsed_ms s + io_elapsed io\<rparr>) [MG_EV_MQTT_PUBLISH topic m]"
    and "text_of (s_rt_topic (mq (hs s))) own" and "cstring topic" and "cstring m" and "topic \<noteq> own"
    and "incoming_json (br (he e)) m = Some j" and "json2attr (attrs (m_base e)) (mem_ok (m_base e)) j = Some c"
  shows "\<exists>s1 s2. bridge_run e [S_request hm, S_main io] s s1 \<and> http_waiting s1 \<and> rt_conn_wait_over (rt_of s1)
    \<and> bridge_step e (S_main io2) s1 s2 \<and> http_waiting s2 \<and> last_response_str (hs s2) = Some str
    \<and> \<not> rt_conn_wait_over (rt_of s2) \<and> (\<nexists>s3. bridge_step e S_answer s2 s3)"
proof -
  obtain rt where run: "bridge_run e [S_request hm, S_main io] s
      (delivered e obj str (s\<lparr>hs := (hs s)\<lparr>mq := (mq (hs s))\<lparr>m_rt := rt\<rparr>\<rparr>, http_waiting := True,
        total_elapsed_ms := total_elapsed_ms s + io_elapsed io, recv_ctx := received t p\<rparr>))" (is "bridge_run e _ s ?d")
    using query_delivered [OF assms(1-9)] by blast
  have "mqtt_turn e io2 ?d [MG_EV_MQTT_PUBLISH topic m]" and "text_of (s_rt_topic (mq (hs ?d))) own"
    using assms(10,11) by (simp_all add: mqtt_turn_def calm_turn_def delivered_def)
  from publish_pending [OF this assms(12-16)] obtain q where
    q: "bridge_step e (S_main io2) ?d (?d\<lparr>total_elapsed_ms := total_elapsed_ms ?d + io_elapsed io2, hs := (hs ?d)\<lparr>mq := q\<rparr>\<rparr>)"
    "g_req_op_type (m_rt q) = REQUEST"
    by (auto simp: get_pending_request_info_def)
  have "http_waiting ?d" "rt_conn_wait_over (rt_of ?d)" "last_response_str (hs ?d) = Some str"
    by (simp_all add: delivered_def rt_conn_wait_over_def rt_conn_response_received_def)
  with run q show ?thesis
    by (intro exI [of _ ?d] exI conjI) (assumption | auto simp: rt_conn_wait_over_def elim!: answer_step)+
qed

definition demo_crossed :: "int main_env" where
  "demo_crossed = demo_main\<lparr>he := (he demo_main)\<lparr>br := (br (he demo_main))
     \<lparr>base := (m_base demo_main)\<lparr>rnd := (\<lambda>n. word_of_nat (41 + n))\<rparr>, poll := (\<lambda>_. [MG_EV_MQTT_PUBLISH ''light'' ''on''])\<rparr>\<rparr>\<rparr>"

abbreviation demo_mqtt_io :: loop_io where
  "demo_mqtt_io \<equiv> (demo_io [])\<lparr>io_select := Select_Ready True False\<rparr>"

lemma demo_crossed_query:
  "quiet_turn demo_crossed (demo_io (link_frame 49 [7, 0])) demo_idle (link_frame 49 [7, 0])"
  "frame_arrives demo_crossed demo_idle 49 [7, 0]"
  "uint (49 :: 16 word) = RESPONSE_PACKET (link_consts (wamr (m_base demo_crossed)))"
  "unpack_response (wamr (m_base demo_crossed)) (Some [7, 0]) = Some demo_created"
  "r_mid demo_created = rnd (m_base demo_crossed) (rand_calls (rt_of demo_idle))"
  "prints_as demo_crossed demo_created ''{}''"
proof -
  show "prints_as demo_crossed demo_created ''{}''"
    by (simp add: prints_as_def http_attr_container_to_str_def demo_crossed_def demo_main_def demo_http_def demo_bridge_def
        demo_env_def demo_wamr_def demo_created_def demo_answer_def attr2json_def demo_attr_def demo_json_def)
qed (use demo_query_hyps(4-7) in \<open>simp_all add: quiet_turn_def calm_turn_def frame_arrives_def demo_crossed_def
      demo_created_def demo_answer_def demo_idle_def demo_http_state_def demo_mqtt_def demo_rt_def\<close>)

lemma demo_crossed_publish:
  "mqtt_turn demo_crossed demo_mqtt_io demo_idle [MG_EV_MQTT_PUBLISH ''light'' ''on'']"
  "mqtt_turn demo_crossed demo_mqtt_io (demo_idle\<lparr>total_elapsed_ms := total_elapsed_ms demo_idle + io_elapsed (demo_io (link_frame 49 [7, 0]))\<rparr>)
     [MG_EV_MQTT_PUBLISH ''light'' ''on'']"
  "text_of (s_rt_topic (mq (hs demo_idle))) ''realm/r/runtime1''"
  "incoming_json (br (he demo_crossed)) ''on'' = Some (CObject [(''id'', CString ''12''), (''name'', CString ''on'')])"
  "\<exists>c. json2attr (attrs (m_base demo_crossed)) (mem_ok (m_base demo_crossed)) (CObject [(''id'', CString ''12''), (''name'', CString ''on'')]) = Some c"
proof -
  note defs = demo_crossed_def demo_main_def demo_http_def demo_bridge_def demo_idle_def demo_io_def demo_env_def demo_http_state_def
    demo_mqtt_def demo_wamr_def
  show "mqtt_turn demo_crossed demo_mqtt_io demo_idle [MG_EV_MQTT_PUBLISH ''light'' ''on'']"
    and "mqtt_turn demo_crossed demo_mqtt_io (demo_idle\<lparr>total_elapsed_ms := total_elapsed_ms demo_idle + io_elapsed (demo_io (link_frame 49 [7, 0]))\<rparr>)
     [MG_EV_MQTT_PUBLISH ''light'' ''on'']"
    unfolding mqtt_turn_def by (intro conjI exI [of _ False]; simp add: calm_turn_def defs)+
  show "text_of (s_rt_topic (mq (hs demo_idle))) ''realm/r/runtime1''"
    using demo_names by (simp add: mq_names_def demo_idle_def)
qed (auto simp: incoming_json_def json2attr_def demo_crossed_def demo_main_def demo_http_def demo_bridge_def
    demo_json_def demo_env_def demo_attr_def)

theorem wake_up_lost_witness:
  "\<exists>s1 s2. bridge_run demo_crossed [S_request demo_get, S_main (demo_io (link_frame 49 [7, 0]))] demo_idle s1
    \<and> bridge_step demo_crossed (S_main demo_mqtt_io) s1 s2 \<and> last_response_str (hs s2) = Some ''{}''
    \<and> (\<nexists>s3. bridge_step demo_crossed S_answer s2 s3)"
proof -
  have texts: "cstring ''light''" "cstring ''on''" "''light'' \<noteq> ''realm/r/runtime1''" by simp_all
  obtain c where c: "json2attr (attrs (m_base demo_crossed)) (mem_ok (m_base demo_crossed))
      (CObject [(''id'', CString ''12''), (''name'', CString ''on'')]) = Some c" using demo_crossed_publish(5) by blast
  show ?thesis
    using wake_up_lost [OF demo_query_hyps(1-3) demo_crossed_query demo_crossed_publish(2,3) texts demo_crossed_publish(4) c]
    by blast
qed

text \<open>
  C16. An overtaken response ends the bridge: when a message from MQTT is read while a client's query
  is pending, its event gets an identifier of its own and replaces that of the query. The turn that
  then reads the runtime's response to the query takes it for an unexpected one, and its code is
  undefined (a \<open>va_list\<close> is passed for the text) before \<open>return -1\<close>, which would end the program.
\<close>

theorem overtaken_response_ends_bridge:
  assumes "\<not> http_waiting s" and "hm_method hm = ''GET''" and "hm_uri hm = ''/cwasm/v1/modules''"
    and "mqtt_turn e io s [MG_EV_MQTT_PUBLISH topic m]"
    and "text_of (s_rt_topic (mq (hs s))) own" and "cstring topic" and "cstring m" and "topic \<noteq> own"
    and "incoming_json (br (he e)) m = Some j" and "json2attr (attrs (m_base e)) (mem_ok (m_base e)) j = Some c"
    and "quiet_turn e io2 (s\<lparr>total_elapsed_ms := total_elapsed_ms s + io_elapsed io\<rparr>) (link_frame t p)" and "frame_arrives e s t p"
    and "uint t = RESPONSE_PACKET (link_consts (wamr (m_base e)))"
    and "unpack_response (wamr (m_base e)) (Some p) = Some obj" and "r_mid obj = rnd (m_base e) (rand_calls (rt_of s))"
    and "rnd (m_base e) (Suc (rand_calls (rt_of s))) \<noteq> rnd (m_base e) (rand_calls (rt_of s))"
  shows "\<exists>s2 f. bridge_run e [S_request hm, S_main io] s s2 \<and> http_waiting s2 \<and> main_iter e io2 s2 = Inl f"
proof -
  obtain rt where rt: "bridge_step e (S_request hm) s (s\<lparr>hs := (hs s)\<lparr>mq := (mq (hs s))\<lparr>m_rt := rt\<rparr>\<rparr>, http_waiting := True\<rparr>)"
    (is "bridge_step e _ s ?s1") and calls: "rand_calls rt = Suc (rand_calls (rt_of s))"
    using query_step [OF assms(1-3), of e] by blast
  have "mqtt_turn e io ?s1 [MG_EV_MQTT_PUBLISH topic m]" and "text_of (s_rt_topic (mq (hs ?s1))) own"
    using assms(4,5) by (simp_all add: mqtt_turn_def calm_turn_def)
  from publish_pending [OF this assms(6-10)] obtain q where
    q: "bridge_step e (S_main io) ?s1 (?s1\<lparr>total_elapsed_ms := total_elapsed_ms ?s1 + io_elapsed io, hs := (hs ?s1)\<lparr>mq := q\<rparr>\<rparr>)"
    (is "bridge_step e _ _ ?s2") and mid: "g_mid (m_rt q) = rnd (m_base e) (Suc (rand_calls (rt_of s)))"
    by (auto simp: get_pending_request_info_def calls)
  define s3 where "s3 = ?s2\<lparr>total_elapsed_ms := total_elapsed_ms ?s2 + io_elapsed io2\<rparr>"
  have "quiet_turn e io2 ?s2 (link_frame t p)" using assms(11) by (simp add: quiet_turn_def calm_turn_def)
  moreover have "frame_arrives e s3 t p" using assms(12) by (simp add: frame_arrives_def s3_def)
  ultimately have "main_iter e io2 ?s2 = handle_response e (s3\<lparr>recv_ctx := received t p\<rparr>)"
    using response_frame [OF _ assms(13)] by (simp add: quiet_turn_iter s3_def)
  moreover have "handle_response e (s3\<lparr>recv_ctx := received t p\<rparr>) \<noteq> Inr x" for x
    using assms(14-16) mid by (simp add: handle_response_Inr held_response_def parse_response_from_imrtlink_def received_def s3_def)
  ultimately obtain f where "main_iter e io2 ?s2 = Inl f" by (cases "main_iter e io2 ?s2") auto
  moreover have "bridge_run e [S_request hm, S_main io] s ?s2" using rt q by (auto simp: run_Cons)
  ultimately show ?thesis by (intro exI [of _ ?s2] exI [of _ f]) simp
qed

theorem overtaken_response_ends_bridge_witness:
  "\<exists>s2 f. bridge_run demo_crossed [S_request demo_get, S_main demo_mqtt_io] demo_idle s2 \<and> http_waiting s2
    \<and> main_iter demo_crossed (demo_io (link_frame 49 [7, 0])) s2 = Inl f"
proof -
  have texts: "cstring ''light''" "cstring ''on''" "''light'' \<noteq> ''realm/r/runtime1''" by simp_all
  obtain c where c: "json2attr (attrs (m_base demo_crossed)) (mem_ok (m_base demo_crossed))
      (CObject [(''id'', CString ''12''), (''name'', CString ''on'')]) = Some c" using demo_crossed_publish(5) by blast
  have "quiet_turn demo_crossed (demo_io (link_frame 49 [7, 0]))
      (demo_idle\<lparr>total_elapsed_ms := total_elapsed_ms demo_idle + io_elapsed demo_mqtt_io\<rparr>) (link_frame 49 [7, 0])"
    by (simp add: quiet_turn_def calm_turn_def demo_crossed_def demo_main_def demo_http_def demo_bridge_def demo_idle_def demo_io_def)
  moreover have "rnd (m_base demo_crossed) (Suc (rand_calls (rt_of demo_idle))) \<noteq> rnd (m_base demo_crossed) (rand_calls (rt_of demo_idle))"
    by (simp add: demo_crossed_def demo_idle_def demo_http_state_def demo_mqtt_def demo_rt_def)
  ultimately show ?thesis
    using overtaken_response_ends_bridge [OF demo_query_hyps(1-3) demo_crossed_publish(1,3) texts demo_crossed_publish(4) c _
        demo_crossed_query(2-5)] by blast
qed

end
