(* ===== verification/Sessions.thy ===== *)
theory Sessions
  imports Bridge_Main
begin

text \<open>
  Sessions of the bridge: any number of REST queries one after the other, with turns of the main
  loop between them and while a client waits, idle ones (a timeout of \<open>select\<close>, an interrupted call)
  and ones that read the publication of a module, over as many keep-alive periods as they take. MQTT
  delivers nothing meanwhile, and the connections stand. Shown here: every query gets its own
  answer, in the order of the queries; MQTT gets every publication once, in their order, and a ping
  in exactly the turns in which the elapsed time, a 32-bit counter, has reached the configured period.
\<close>

section \<open>Turns of a standing bridge\<close>

definition standing :: "'d main_env \<Rightarrow> bridge \<Rightarrow> bool" where
  "standing e s \<longleftrightarrow> word_of_nat (rconn s) \<le> rt_reconnect_attempts (conf (br (he e)))
     \<and> runtime_conn_fd s \<notin> {None, Some (- 1)} \<and> mqtt_mg_conn s"

definition ping_due :: "'d main_env \<Rightarrow> 32 word \<Rightarrow> loop_io \<Rightarrow> bool" where
  "ping_due e t io \<longleftrightarrow> mqtt_keepalive_ms (conf (br (he e))) \<le> t + io_elapsed io"

definition elapsed_after :: "'d main_env \<Rightarrow> 32 word \<Rightarrow> loop_io \<Rightarrow> 32 word" where
  "elapsed_after e t io = (if ping_due e t io then 0 else t + io_elapsed io)"

text \<open>The state at \<open>select\<close>.\<close>

definition ticked :: "'d main_env \<Rightarrow> loop_io \<Rightarrow> bridge \<Rightarrow> bridge" where
  "ticked e io s =
     (let s' = s\<lparr>total_elapsed_ms := elapsed_after e (total_elapsed_ms s) io\<rparr>
      in if ping_due e (total_elapsed_ms s) io
         then s'\<lparr>hs := (hs s)\<lparr>mq := (mq_act Mq_Ping (mq (hs s)))\<lparr>polls := Suc (polls (mq (hs s)))\<rparr>\<rparr>\<rparr>
         else s')"

lemma ticked_simps [simp]:
  "total_elapsed_ms (ticked e io s) = elapsed_after e (total_elapsed_ms s) io"
  "mq_out (mq (hs (ticked e io s))) = mq_out (mq (hs s)) @ replicate (if ping_due e (total_elapsed_ms s) io then 1 else 0) Mq_Ping"
  "rt_of (ticked e io s) = rt_of s" "http_waiting (ticked e io s) = http_waiting s" "recv_ctx (ticked e io s) = recv_ctx s"
  "http_sent (hs (ticked e io s)) = http_sent (hs s)" "standing e' (ticked e io s) = standing e' s"
  by (simp_all add: ticked_def Let_def standing_def)

lemma standing_turn:
  assumes "standing e s" and "quiet (br (he e))" and "\<not> io_mqtt_closed io"
  shows "main_iter e io s = main_select e io (ticked e io s)"
proof -
  have "main_keepalive e io s = Inr (ticked e io s)"
    using assms(1,2) by (auto simp: main_keepalive_def with_mq_def quiet_pool ticked_def elapsed_after_def ping_due_def
        standing_def Let_def mq_act_def not_le)
  then show ?thesis
    using assms by (auto simp: main_iter_def main_reconnect_def main_mqtt_def standing_def ticked_def Let_def leD split: option.split)
qed

section \<open>Sessions\<close>

record publication_frame =
  p_io :: loop_io
  p_type :: "16 word"
  p_payload :: "byte list"
  p_event :: request_t
  p_text :: string

datatype turn = Idle loop_io | Event publication_frame

record exchange =
  x_request :: http_message
  x_turns :: "turn list"        \<comment> \<open>the turns while the client waits\<close>
  x_io :: loop_io               \<comment> \<open>the turn that reads the response\<close>
  x_type :: "16 word"
  x_payload :: "byte list"
  x_response :: response_t
  x_text :: string

datatype session_item = Turn turn | Query exchange

fun turn_io :: "turn \<Rightarrow> loop_io" where
  "turn_io (Idle io) = io"
| "turn_io (Event p) = p_io p"

abbreviation turn_steps :: "turn list \<Rightarrow> step_label list" where
  "turn_steps ts \<equiv> map (\<lambda>t. S_main (turn_io t)) ts"

fun item_steps :: "session_item \<Rightarrow> step_label list" where
  "item_steps (Turn t) = [S_main (turn_io t)]"
| "item_steps (Query x) = S_request (x_request x) # turn_steps (x_turns x) @ [S_main (x_io x), S_answer]"

definition session_steps :: "session_item list \<Rightarrow> step_label list" where
  "session_steps xs = concat (map item_steps xs)"

definition idle_turn :: "loop_io \<Rightarrow> bool" where
  "idle_turn io \<longleftrightarrow> \<not> io_mqtt_closed io \<and> (case io_select io of Select_Ready mqtt_set runtime_set \<Rightarrow> \<not> mqtt_set \<and> \<not> runtime_set | _ \<Rightarrow> True)"

text \<open>A frame that the runtime sends, whole in one read.\<close>

definition whole_frame :: "'d main_env \<Rightarrow> loop_io \<Rightarrow> 16 word \<Rightarrow> byte list \<Rightarrow> bool" where
  "whole_frame e io t p \<longleftrightarrow> \<not> io_mqtt_closed io \<and> io_select io = Select_Ready False True \<and> io_read io = Some (link_frame t p)
     \<and> payload_fits p \<and> length (link_frame t p) \<le> BUF_SIZE
     \<and> (\<exists>b. link_malloc e (length p) = Some b \<and> length b = length p)"

fun turn_ok :: "'d main_env \<Rightarrow> turn \<Rightarrow> bool" where
  "turn_ok e (Idle io) \<longleftrightarrow> idle_turn io"
| "turn_ok e (Event p) \<longleftrightarrow> whole_frame e (p_io p) (p_type p) (p_payload p)
     \<and> uint (p_type p) = REQUEST_PACKET (link_consts (wamr (m_base e)))
     \<and> REQUEST_PACKET (link_consts (wamr (m_base e))) \<noteq> RESPONSE_PACKET (link_consts (wamr (m_base e)))
     \<and> unpack_request (wamr (m_base e)) (Some (p_payload p)) = Some (p_event p)
     \<and> publication (br (he e)) (p_event p) (p_text p)"

text \<open>The response to the query that is the \<open>n\<close>-th to draw an identifier.\<close>

definition exchange_ok :: "'d main_env \<Rightarrow> nat \<Rightarrow> exchange \<Rightarrow> bool" where
  "exchange_ok e n x \<longleftrightarrow>
     hm_method (x_request x) = ''GET'' \<and> hm_uri (x_request x) = ''/cwasm/v1/modules''
     \<and> list_all (turn_ok e) (x_turns x) \<and> whole_frame e (x_io x) (x_type x) (x_payload x)
     \<and> uint (x_type x) = RESPONSE_PACKET (link_consts (wamr (m_base e)))
     \<and> unpack_response (wamr (m_base e)) (Some (x_payload x)) = Some (x_response x)
     \<and> r_mid (x_response x) = rnd (m_base e) n \<and> prints_as e (x_response x) (x_text x) \<and> cstring (x_text x)"

fun session_ok :: "'d main_env \<Rightarrow> nat \<Rightarrow> session_item list \<Rightarrow> bool" where
  "session_ok e n [] \<longleftrightarrow> True"
| "session_ok e n (Turn t # xs) \<longleftrightarrow> turn_ok e t \<and> session_ok e n xs"
| "session_ok e n (Query x # xs) \<longleftrightarrow> exchange_ok e n x \<and> session_ok e (Suc n) xs"

definition reply_to :: "'d main_env \<Rightarrow> exchange \<Rightarrow> http_action" where
  "reply_to e x = Http_Reply (coap_to_http_status (he e) (r_status (x_response x))) CT_HEADER_JSON (take 255 (x_text x))"

fun item_replies :: "'d main_env \<Rightarrow> session_item \<Rightarrow> http_action list" where
  "item_replies e (Turn t) = []"
| "item_replies e (Query x) = [reply_to e x]"

definition replies :: "'d main_env \<Rightarrow> session_item list \<Rightarrow> http_action list" where
  "replies e xs = concat (map (item_replies e) xs)"

text \<open>What each turn asks of MQTT, a ping first when one is due.\<close>

fun turn_publishes :: "turn \<Rightarrow> mq_action list" where
  "turn_publishes (Idle io) = []"
| "turn_publishes (Event p) = [Mq_Publish (url (p_event p)) (p_text p)]"

fun item_turns :: "session_item \<Rightarrow> turn list" where
  "item_turns (Turn t) = [t]"
| "item_turns (Query x) = x_turns x @ [Idle (x_io x)]"

definition turn_mqtt :: "'d main_env \<Rightarrow> 32 word \<Rightarrow> turn \<Rightarrow> mq_action list" where
  "turn_mqtt e w t = (if ping_due e w (turn_io t) then [Mq_Ping] else []) @ turn_publishes t"

fun turns_mqtt :: "'d main_env \<Rightarrow> 32 word \<Rightarrow> turn list \<Rightarrow> mq_action list" where
  "turns_mqtt e w [] = []"
| "turns_mqtt e w (t # ts) = turn_mqtt e w t @ turns_mqtt e (elapsed_after e w (turn_io t)) ts"

definition session_mqtt :: "'d main_env \<Rightarrow> 32 word \<Rightarrow> session_item list \<Rightarrow> mq_action list" where
  "session_mqtt e w xs = turns_mqtt e w (concat (map item_turns xs))"

text \<open>The counter after a number of turns.\<close>

definition elapsed_turns :: "'d main_env \<Rightarrow> 32 word \<Rightarrow> turn list \<Rightarrow> 32 word" where
  "elapsed_turns e w ts = foldl (\<lambda>w t. elapsed_after e w (turn_io t)) w ts"

lemma turns_mqtt_append: "turns_mqtt e w (ts @ us) = turns_mqtt e w ts @ turns_mqtt e (elapsed_turns e w ts) us"
  by (induction ts arbitrary: w) (simp_all add: elapsed_turns_def)

section \<open>Turns\<close>

text \<open>
  \<open>ready\<close>: the bridge stands, the receiver waits for a frame and no module is registered.
  \<open>advances\<close>: what a number of turns does to the parts of the state that the next step relies on.
\<close>

definition ready :: "'d main_env \<Rightarrow> bridge \<Rightarrow> bool" where
  "ready e s \<longleftrightarrow> standing e s \<and> phase (recv_ctx s) = Phase_Non_Start \<and> represents (m_reg (mq (hs s))) []"

definition advances :: "'d main_env \<Rightarrow> turn list \<Rightarrow> bridge \<Rightarrow> bridge \<Rightarrow> bool" where
  "advances e ts s s' \<longleftrightarrow> ready e s' \<and> total_elapsed_ms s' = elapsed_turns e (total_elapsed_ms s) ts
     \<and> mq_out (mq (hs s')) = mq_out (mq (hs s)) @ turns_mqtt e (total_elapsed_ms s) ts"

text \<open>The two halves of a query are not touched by a turn that reads no response.\<close>

definition same_client :: "bridge \<Rightarrow> bridge \<Rightarrow> bool" where
  "same_client s s' \<longleftrightarrow> rt_of s' = rt_of s \<and> http_waiting s' = http_waiting s \<and> http_sent (hs s') = http_sent (hs s)"

lemma advances_trans:
  "advances e ts s s1 \<Longrightarrow> advances e us s1 s2 \<Longrightarrow> advances e (ts @ us) s s2"
  by (simp add: advances_def turns_mqtt_append elapsed_turns_def)

lemma ticked_conn [simp]:
  "m_reg (mq (hs (ticked e io s))) = m_reg (mq (hs s))" "runtime_conn_fd (ticked e io s) = runtime_conn_fd s"
  "rconn (ticked e io s) = rconn s" "mqtt_mg_conn (ticked e io s) = mqtt_mg_conn s"
  by (simp_all add: ticked_def Let_def)

lemma whole_frame_read:
  assumes "standing e s" and "quiet (br (he e))" and "whole_frame e io t p" and "phase (recv_ctx s) = Phase_Non_Start"
  shows "main_iter e io s = main_read e (Some (link_frame t p)) (ticked e io s) \<and> frame_arrives e (ticked e io s) t p"
  using assms standing_turn [of e s io] by (auto simp: whole_frame_def main_select_def frame_arrives_def)

lemma publication_unregistered:
  assumes "publication e event m" and "quiet e" and "represents (m_reg s) []"
  shows "mqtt_process_runtime_event e event s = Inr ((mq_act (Mq_Publish (url event) m) s)\<lparr>polls := Suc (polls s)\<rparr>)"
  using check_and_add_represents [OF assms(3), of "mem_ok (base e)" "url event" "sender event"] assms(1,2)
  by (auto simp: publication_process reg_find_def quiet_pool)

lemma turn_runs:
  assumes "ready e s" and "quiet (br (he e))" and "turn_ok e t"
  shows "\<exists>s'. bridge_step e (S_main (turn_io t)) s s' \<and> advances e [t] s s' \<and> same_client s s'"
proof (cases t)
  case (Idle io)
  let ?s = "ticked e io s"
  have "main_iter e io s = Inr (Loop ?s)"
    using assms Idle standing_turn [of e s io] by (auto simp: ready_def idle_turn_def main_select_def split: select_result.splits)
  then have "bridge_step e (S_main (turn_io t)) s ?s" using Idle by (simp add: bridge_step.turn)
  moreover have "advances e [t] s ?s \<and> same_client s ?s"
    using assms(1) Idle by (simp add: advances_def ready_def same_client_def elapsed_turns_def turn_mqtt_def)
  ultimately show ?thesis by blast
next
  case (Event p)
  define s1 where "s1 = (ticked e (p_io p) s)\<lparr>recv_ctx := received (p_type p) (p_payload p)\<rparr>"
  define m where "m = (mq_act (Mq_Publish (url (p_event p)) (p_text p)) (mq (hs s1)))\<lparr>polls := Suc (polls (mq (hs s1)))\<rparr>"
  let ?s = "s1\<lparr>hs := (hs s1)\<lparr>mq := m\<rparr>\<rparr>"
  have ok: "whole_frame e (p_io p) (p_type p) (p_payload p)" "uint (p_type p) = REQUEST_PACKET (link_consts (wamr (m_base e)))"
    "REQUEST_PACKET (link_consts (wamr (m_base e))) \<noteq> RESPONSE_PACKET (link_consts (wamr (m_base e)))"
    "unpack_request (wamr (m_base e)) (Some (p_payload p)) = Some (p_event p)" "publication (br (he e)) (p_event p) (p_text p)"
    using assms(3) Event by simp_all
  have st: "standing e s" "phase (recv_ctx s) = Phase_Non_Start" using assms(1) by (simp_all add: ready_def)
  have "represents (m_reg (mq (hs s1))) []" using assms(1) by (simp add: s1_def ready_def)
  note published = publication_unregistered [OF ok(5) assms(2) this]
  from whole_frame_read [OF st(1) assms(2) ok(1) st(2)] event_frame [OF _ ok(2,3)]
  have "main_iter e (p_io p) s = handle_event e s1" by (simp add: s1_def)
  also have "\<dots> = Inr (Loop ?s)"
    using ok(4) published by (simp add: handle_event_def parse_event_from_imrtlink_def with_mq_def m_def)
      (simp add: s1_def received_def)
  finally have "bridge_step e (S_main (turn_io t)) s ?s" using Event by (simp add: bridge_step.turn)
  moreover have "advances e [t] s ?s \<and> same_client s ?s"
    using assms(1) Event by (simp add: advances_def ready_def same_client_def elapsed_turns_def turn_mqtt_def m_def mq_act_def)
      (simp add: s1_def standing_def received_def)
  ultimately show ?thesis by blast
qed

lemma run_append: "bridge_run e xs s t \<Longrightarrow> bridge_run e ys t u \<Longrightarrow> bridge_run e (xs @ ys) s u"
  by (induction rule: bridge_run.induct) (auto intro: bridge_run.intros)

lemma turns_run:
  assumes "ready e s" and "quiet (br (he e))" and "list_all (turn_ok e) ts"
  shows "\<exists>s'. bridge_run e (turn_steps ts) s s' \<and> advances e ts s s' \<and> same_client s s'"
  using assms(1,3)
proof (induction ts arbitrary: s)
  case Nil
  then show ?case by (auto simp: advances_def elapsed_turns_def same_client_def)
next
  case (Cons t ts)
  from turn_runs [OF Cons.prems(1) assms(2), of t] Cons.prems(2) obtain s1 where
    s1: "bridge_step e (S_main (turn_io t)) s s1" "advances e [t] s s1" "same_client s s1" by auto
  with Cons.IH [of s1] Cons.prems(2) obtain s2 where
    s2: "bridge_run e (turn_steps ts) s1 s2" "advances e ts s1 s2" "same_client s1 s2" by (auto simp: advances_def)
  from advances_trans [OF s1(2) s2(2)] bridge_run.more [OF s1(1) s2(1)] s1(3) s2(3) show ?case
    by (auto simp: same_client_def)
qed

section \<open>Exchanges\<close>

definition bridge_idle :: "'d main_env \<Rightarrow> bridge \<Rightarrow> bool" where
  "bridge_idle e s \<longleftrightarrow> ready e s \<and> \<not> http_waiting s"

lemma response_turn:
  assumes "ready e s" and "quiet (br (he e))" and "exchange_ok e n x" and "get_pending_request_info (rt_of s) = (r_mid (x_response x), QUERY)"
  shows "main_iter e (x_io x) s
    = Inr (Loop (delivered e (x_response x) (x_text x) ((ticked e (x_io x) s)\<lparr>recv_ctx := received (x_type x) (x_payload x)\<rparr>)))"
proof -
  let ?s = "(ticked e (x_io x) s)\<lparr>recv_ctx := received (x_type x) (x_payload x)\<rparr>"
  have x: "whole_frame e (x_io x) (x_type x) (x_payload x)" "uint (x_type x) = RESPONSE_PACKET (link_consts (wamr (m_base e)))"
    "unpack_response (wamr (m_base e)) (Some (x_payload x)) = Some (x_response x)" "prints_as e (x_response x) (x_text x)"
    using assms(3) by (simp_all add: exchange_ok_def)
  have st: "standing e s" "phase (recv_ctx s) = Phase_Non_Start" using assms(1) by (simp_all add: ready_def)
  from whole_frame_read [OF st(1) assms(2) x(1) st(2)] response_frame [OF _ x(2)]
  have "main_iter e (x_io x) s = handle_response e ?s" by simp
  also have "\<dots> = Inr (Loop (delivered e (x_response x) (x_text x) ?s))"
    using x(3,4) assms(4) by (intro handle_response_plain [where op = QUERY]) (simp_all add: received_def)
  finally show ?thesis .
qed

text \<open>The query, the turns while the client waits, the response and the answer.\<close>

lemma query_item:
  assumes "bridge_idle e s" and "quiet (br (he e))" and "exchange_ok e (rand_calls (rt_of s)) x"
  shows "\<exists>s'. bridge_run e (item_steps (Query x)) s s' \<and> bridge_idle e s' \<and> advances e (item_turns (Query x)) s s'
    \<and> rand_calls (rt_of s') = Suc (rand_calls (rt_of s)) \<and> http_sent (hs s') = http_sent (hs s) @ [reply_to e x]"
proof -
  have x: "hm_method (x_request x) = ''GET''" "hm_uri (x_request x) = ''/cwasm/v1/modules''" "list_all (turn_ok e) (x_turns x)"
    "r_mid (x_response x) = rnd (m_base e) (rand_calls (rt_of s))" "cstring (x_text x)"
    using assms(3) by (simp_all add: exchange_ok_def)
  have "\<not> http_waiting s" using assms(1) by (simp add: bridge_idle_def)
  from query_step [OF this x(1,2), of e] x(4) obtain rt where
    rt: "bridge_step e (S_request (x_request x)) s (s\<lparr>hs := (hs s)\<lparr>mq := (mq (hs s))\<lparr>m_rt := rt\<rparr>\<rparr>, http_waiting := True\<rparr>)"
      "get_pending_request_info rt = (r_mid (x_response x), QUERY)" "rand_calls rt = Suc (rand_calls (rt_of s))"
    by auto
  define s1 where "s1 = s\<lparr>hs := (hs s)\<lparr>mq := (mq (hs s))\<lparr>m_rt := rt\<rparr>\<rparr>, http_waiting := True\<rparr>"
  have "ready e s1" using assms(1) by (simp add: bridge_idle_def ready_def standing_def s1_def)
  from turns_run [OF this assms(2) x(3)] obtain s2 where
    s2: "bridge_run e (turn_steps (x_turns x)) s1 s2" "advances e (x_turns x) s1 s2" "same_client s1 s2" by blast
  define s3 where "s3 = delivered e (x_response x) (x_text x) ((ticked e (x_io x) s2)\<lparr>recv_ctx := received (x_type x) (x_payload x)\<rparr>)"
  have "bridge_step e (S_main (x_io x)) s2 s3"
    unfolding s3_def using s2(2,3) rt(2)
    by (intro bridge_step.turn response_turn [OF _ assms(2,3)]) (simp_all add: advances_def same_client_def s1_def)
  moreover define s4 where "s4 = s3\<lparr>hs := (http_send (Http_Reply (last_response_status (hs s3)) CT_HEADER_JSON (take 255 (x_text x))) (hs s3))
      \<lparr>last_response_str := None\<rparr>, http_waiting := False\<rparr>"
  have "bridge_step e S_answer s3 s4"
    unfolding s4_def using x(5) s2(3)
    by (intro answer_delivered) (simp_all add: s3_def delivered_def same_client_def s1_def rt_conn_wait_over_def rt_conn_response_received_def)
  ultimately have "bridge_run e [S_main (x_io x), S_answer] s2 s4" by (auto simp: run_Cons)
  from bridge_run.more [OF rt(1) [folded s1_def] run_append [OF s2(1) this]]
  have "bridge_run e (item_steps (Query x)) s s4" by simp
  moreover have last: "advances e [Idle (x_io x)] s2 s4 \<and> \<not> http_waiting s4"
    using s2(2) by (simp add: advances_def ready_def standing_def s4_def s3_def delivered_def rt_conn_response_received_def
        elapsed_turns_def turn_mqtt_def received_def)
  moreover have "rand_calls (rt_of s4) = Suc (rand_calls (rt_of s)) \<and> http_sent (hs s4) = http_sent (hs s) @ [reply_to e x]"
    using s2(3) rt(3) by (simp add: same_client_def s4_def s3_def delivered_def rt_conn_response_received_def reply_to_def) (simp add: s1_def)
  moreover have "advances e (x_turns x) s s2" using s2(2) by (simp add: advances_def s1_def)
  with last have "advances e (x_turns x @ [Idle (x_io x)]) s s4" by (blast intro: advances_trans)
  ultimately show ?thesis by (auto simp: bridge_idle_def advances_def)
qed

lemma turn_item:
  assumes "bridge_idle e s" and "quiet (br (he e))" and "turn_ok e t"
  shows "\<exists>s'. bridge_run e (item_steps (Turn t)) s s' \<and> bridge_idle e s' \<and> advances e (item_turns (Turn t)) s s'
    \<and> rand_calls (rt_of s') = rand_calls (rt_of s) \<and> http_sent (hs s') = http_sent (hs s)"
  using turn_runs [of e s t] assms by (fastforce simp: bridge_idle_def advances_def same_client_def run_Cons)

lemma session_run:
  assumes "bridge_idle e s" and "quiet (br (he e))" and "session_ok e (rand_calls (rt_of s)) xs"
  shows "\<exists>s'. bridge_run e (session_steps xs) s s' \<and> bridge_idle e s' \<and> http_sent (hs s') = http_sent (hs s) @ replies e xs
    \<and> mq_out (mq (hs s')) = mq_out (mq (hs s)) @ session_mqtt e (total_elapsed_ms s) xs"
  using assms(1,3)
proof (induction xs arbitrary: s)
  case Nil
  then show ?case by (auto simp: session_steps_def replies_def session_mqtt_def)
next
  case (Cons x xs)
  obtain s1 where s1: "bridge_run e (item_steps x) s s1" "bridge_idle e s1" "advances e (item_turns x) s s1"
      "http_sent (hs s1) = http_sent (hs s) @ item_replies e x" "session_ok e (rand_calls (rt_of s1)) xs"
    using turn_item [OF Cons.prems(1) assms(2)] query_item [OF Cons.prems(1) assms(2)] Cons.prems(2) by (cases x) fastforce+
  from Cons.IH [OF s1(2,5)] obtain s2 where
    s2: "bridge_run e (session_steps xs) s1 s2" "bridge_idle e s2" "http_sent (hs s2) = http_sent (hs s1) @ replies e xs"
      "mq_out (mq (hs s2)) = mq_out (mq (hs s1)) @ session_mqtt e (total_elapsed_ms s1) xs" by blast
  have "bridge_run e (session_steps (x # xs)) s s2" using run_append [OF s1(1) s2(1)] by (simp add: session_steps_def)
  with s2 s1(3,4) show ?case
    by (intro exI [of _ s2]) (simp add: advances_def session_mqtt_def replies_def turns_mqtt_append)
qed

section \<open>The property\<close>

text \<open>
  C2. A session of the bridge: from a state in which the connections stand, nobody waits and no
  module is registered, any number of GET requests, one after the other, can be carried out to
  the end, with any number of turns of the main loop between them and while a client waits, in
  which nothing happens or a module's publication is read. Each client gets the response with its
  own identifier, its status translated and its text cut at 255 bytes, and the replies come in the
  order of the requests. MQTT gets every publication once and in order, and before it one ping for
  every turn in which the elapsed time has reached the keep-alive period since the last one. The
  bridge is then ready for the next session.
\<close>

theorem session_answered:
  assumes "bridge_idle e s" and "quiet (br (he e))" and "session_ok e (rand_calls (rt_of s)) xs"
  shows "\<exists>s'. bridge_run e (session_steps xs) s s' \<and> bridge_idle e s' \<and> http_sent (hs s') = http_sent (hs s) @ replies e xs
    \<and> mq_out (mq (hs s')) = mq_out (mq (hs s)) @ session_mqtt e (total_elapsed_ms s) xs"
  using session_run [OF assms] .

definition demo_reply :: "32 word \<Rightarrow> response_t" where
  "demo_reply i = demo_created\<lparr>r_mid := i\<rparr>"

text \<open>A publication whose payload is the container that also the responses carry.\<close>

definition demo_note :: request_t where
  "demo_note = demo_pub\<lparr>rq_payload := Some [7, 0], payload_len := 2\<rparr>"

definition demo_pair :: "int main_env" where
  "demo_pair = demo_main\<lparr>he := (he demo_main)\<lparr>br := (br (he demo_main))
     \<lparr>conf := (conf (br (he demo_main)))\<lparr>rt_reconnect_attempts := 3\<rparr>,
      base := (m_base demo_main)\<lparr>wamr := (wamr (m_base demo_main))
        \<lparr>unpack_response := (\<lambda>p. if p = Some [7, 0] then Some (demo_reply 41)
                                else if p = Some [8, 0] then Some (demo_reply 42) else None),
         unpack_request := (\<lambda>p. if p = Some [9] then Some demo_note else None)\<rparr>\<rparr>\<rparr>\<rparr>\<rparr>"

definition demo_event :: turn where
  "demo_event = Event \<lparr>p_io = demo_io (link_frame 50 [9]), p_type = 50, p_payload = [9], p_event = demo_note, p_text = ''{}''\<rparr>"

definition demo_exchange :: "byte list \<Rightarrow> 32 word \<Rightarrow> turn list \<Rightarrow> exchange" where
  "demo_exchange p i ts = \<lparr>x_request = demo_get, x_turns = ts, x_io = demo_io (link_frame 49 p), x_type = 49, x_payload = p,
     x_response = demo_reply i, x_text = ''{}''\<rparr>"

text \<open>Six seconds in which nothing happens, in one turn.\<close>

definition demo_pause :: loop_io where
  "demo_pause = (demo_io [])\<lparr>io_elapsed := 6000, io_select := Select_Timeout\<rparr>"

definition demo_session :: "session_item list" where
  "demo_session = [Query (demo_exchange [7, 0] 41 [demo_event]), Turn (Idle demo_pause), Query (demo_exchange [8, 0] 42 [])]"

lemma demo_pair_prints: "prints_as demo_pair (demo_reply i) ''{}''"
  by (simp add: prints_as_def http_attr_container_to_str_def demo_pair_def demo_main_def demo_http_def demo_bridge_def demo_env_def
      demo_wamr_def demo_reply_def demo_created_def demo_answer_def attr2json_def demo_attr_def demo_json_def)

lemma demo_note_publication: "publication (br (he demo_pair)) demo_note ''{}''"
  by (simp add: publication_def event_message_def attr2json_def demo_pair_def demo_main_def demo_http_def demo_bridge_def demo_env_def
      demo_wamr_def demo_note_def demo_pub_def demo_attr_def demo_json_def json_string_def)

lemma demo_frames:
  assumes "length p \<in> {1, 2}"
  shows "whole_frame demo_pair (demo_io (link_frame t p)) t p"
  using assms by (auto simp: whole_frame_def demo_io_def payload_fits_def BUF_SIZE_def link_frame_def leading_def mem16_def mem32_def
      zeroed_def demo_pair_def demo_main_def)

lemma demo_event_ok: "turn_ok demo_pair demo_event"
  using demo_frames [of "[9]" 50] demo_note_publication
  by (simp add: demo_event_def) (simp add: demo_pair_def demo_main_def demo_http_def demo_env_def demo_wamr_def demo_consts_def)

lemma demo_exchange_ok:
  assumes "length p = 2" and "unpack_response (wamr (m_base demo_pair)) (Some p) = Some (demo_reply i)"
    and "i = rnd (m_base demo_pair) n" and "list_all (turn_ok demo_pair) ts"
  shows "exchange_ok demo_pair n (demo_exchange p i ts)"
  using assms demo_pair_prints [of i] demo_frames [of p 49]
  by (auto simp: exchange_ok_def demo_exchange_def demo_get_def demo_reply_def)
    (simp add: demo_pair_def demo_main_def demo_http_def demo_env_def demo_wamr_def demo_consts_def)

lemma demo_session_facts:
  "bridge_idle demo_pair demo_idle" "quiet (br (he demo_pair))" "session_ok demo_pair (rand_calls (rt_of demo_idle)) demo_session"
  "replies demo_pair demo_session = [Http_Reply 201 CT_HEADER_JSON ''{}'', Http_Reply 201 CT_HEADER_JSON ''{}'']"
  "session_mqtt demo_pair (total_elapsed_ms demo_idle) demo_session = [Mq_Publish ''temp'' ''{}'', Mq_Ping]"
  "http_sent (hs demo_idle) = []" "mq_out (mq (hs demo_idle)) = []"
proof -
  show "bridge_idle demo_pair demo_idle"
    by (simp add: bridge_idle_def ready_def standing_def demo_idle_def recv_ctx_init_def represents_empty)
  show "quiet (br (he demo_pair))" by (simp add: quiet_def demo_pair_def demo_main_def demo_http_def demo_bridge_def)
  have "rand_calls (rt_of demo_idle) = 0" "idle_turn demo_pause"
    by (simp_all add: demo_idle_def demo_http_state_def demo_mqtt_def demo_rt_def demo_pause_def idle_turn_def demo_io_def)
  moreover have "exchange_ok demo_pair 0 (demo_exchange [7, 0] 41 [demo_event])"
    and "exchange_ok demo_pair (Suc 0) (demo_exchange [8, 0] 42 [])"
    by (rule demo_exchange_ok; use demo_event_ok in \<open>simp add: demo_pair_def demo_main_def demo_http_def demo_env_def\<close>)+
  ultimately show "session_ok demo_pair (rand_calls (rt_of demo_idle)) demo_session" by (simp add: demo_session_def)
  show "replies demo_pair demo_session = [Http_Reply 201 CT_HEADER_JSON ''{}'', Http_Reply 201 CT_HEADER_JSON ''{}'']"
    by (simp add: demo_session_def replies_def reply_to_def demo_exchange_def demo_reply_def demo_pair_def coap_to_http_status_def
        demo_main_def demo_http_def demo_created_def demo_answer_def HTTP_CREATED_201_def)
  show "session_mqtt demo_pair (total_elapsed_ms demo_idle) demo_session = [Mq_Publish ''temp'' ''{}'', Mq_Ping]"
    by (simp add: demo_session_def session_mqtt_def turn_mqtt_def ping_due_def elapsed_after_def demo_exchange_def demo_event_def
        demo_pause_def demo_io_def demo_pair_def demo_main_def demo_idle_def demo_note_def demo_pub_def)
  show "http_sent (hs demo_idle) = []" "mq_out (mq (hs demo_idle)) = []"
    by (simp_all add: demo_idle_def demo_http_state_def demo_mqtt_def)
qed

theorem session_answered_witness:
  "\<exists>s'. bridge_run demo_pair (session_steps demo_session) demo_idle s'
    \<and> http_sent (hs s') = [Http_Reply 201 CT_HEADER_JSON ''{}'', Http_Reply 201 CT_HEADER_JSON ''{}'']
    \<and> mq_out (mq (hs s')) = [Mq_Publish ''temp'' ''{}'', Mq_Ping]"
  using session_answered [OF demo_session_facts(1-3)] demo_session_facts(4-7) by auto

end
