(* ===== verification/Reconnect.thy ===== *)
theory Reconnect
  imports Sessions
begin

text \<open>
  Lost connections: what the main loop makes of a runtime or an MQTT server that goes away and
  comes back. A runtime that is reached again within the configured attempts leaves a bridge that
  serves sessions as before, when the connection was lost between two frames. When it was lost
  inside a frame, the receiver takes the next frame for the rest of the old one. An MQTT
  connection is not retried: a failure to open it leaves a NULL pointer that the next turn reads.
\<close>

section \<open>The runtime\<close>

definition reachable :: "net_os \<Rightarrow> bool" where
  "reachable os \<longleftrightarrow> sys_socket os \<noteq> - 1 \<and> (\<forall>a. sys_connect os (sys_socket os) a = 0)"

definition tcp_address :: "'d main_env \<Rightarrow> bool" where
  "tcp_address e \<longleftrightarrow> rt_connection_mode (conf (br (he e))) = CONNECTION_MODE_TCP
     \<and> (\<exists>a. text_of (rt_address (conf (br (he e)))) a)"

text \<open>The connection to the runtime is lost, and attempts are left.\<close>

definition lost :: "'d main_env \<Rightarrow> bridge \<Rightarrow> bool" where
  "lost e s \<longleftrightarrow> runtime_conn_fd s = Some (- 1) \<and> mqtt_mg_conn s
     \<and> word_of_nat (rconn s) \<le> rt_reconnect_attempts (conf (br (he e)))"

definition reconnected :: "net_os \<Rightarrow> bridge \<Rightarrow> bridge" where
  "reconnected os s = s\<lparr>hs := (hs s)\<lparr>mq := (mq (hs s))\<lparr>m_rt := (rt_of s)\<lparr>lnk := (lnk (rt_of s))\<lparr>g_runtime_conn_fd := sys_socket os\<rparr>\<rparr>\<rparr>\<rparr>,
     runtime_conn_fd := Some (sys_socket os), rconn := 0\<rparr>"

lemma reconnected_simps [simp]:
  "runtime_conn_fd (reconnected os s) = Some (sys_socket os)" "rconn (reconnected os s) = 0"
  "mqtt_mg_conn (reconnected os s) = mqtt_mg_conn s" "recv_ctx (reconnected os s) = recv_ctx s"
  "http_waiting (reconnected os s) = http_waiting s" "total_elapsed_ms (reconnected os s) = total_elapsed_ms s"
  "http_sent (hs (reconnected os s)) = http_sent (hs s)" "m_reg (mq (hs (reconnected os s))) = m_reg (mq (hs s))" "mq_out (mq (hs (reconnected os s))) = mq_out (mq (hs s))"
  "rand_calls (rt_of (reconnected os s)) = rand_calls (rt_of s)"
  "get_pending_request_info (rt_of (reconnected os s)) = get_pending_request_info (rt_of s)"
  by (simp_all add: reconnected_def get_pending_request_info_def)

lemma keepalive_ticks:
  "mqtt_mg_conn s \<Longrightarrow> quiet (br (he e)) \<Longrightarrow> main_keepalive e io s = Inr (ticked e io s)"
  by (auto simp: main_keepalive_def with_mq_def quiet_pool ticked_def elapsed_after_def ping_due_def Let_def mq_act_def not_le)

lemma open_runtime_fails:
  assumes "tcp_address e" and "unreachable os"
  shows "open_runtime e os s = Inr (- 1, s)"
  using assms by (auto simp: tcp_address_def unreachable_def open_runtime_def runtime_conn_init_def text_of_def tcp_init_def
      conn_opened_def Let_def)

lemma open_runtime_succeeds:
  assumes "tcp_address e" and "reachable os"
  shows "open_runtime e os (s\<lparr>rconn := n\<rparr>) = Inr (0, (reconnected os s)\<lparr>rconn := n\<rparr>)"
  using assms by (auto simp: tcp_address_def reachable_def open_runtime_def runtime_conn_init_def text_of_def tcp_init_def
      conn_opened_def reconnected_def Let_def)

lemma reconnected_again: "(reconnected os s)\<lparr>rconn := 0\<rparr> = reconnected os s"
  by (simp add: reconnected_def)

lemma lost_turn:
  assumes "lost e s" and "quiet (br (he e))" and "tcp_address e" and "unreachable (io_net io)"
  shows "main_iter e io s = Inr (Loop ((ticked e io s)\<lparr>rconn := Suc (rconn s)\<rparr>))"
  using assms by (simp add: main_iter_def lost_def keepalive_ticks main_reconnect_def open_runtime_fails leD)

lemma reconnect_turn:
  assumes "lost e s" and "quiet (br (he e))" and "tcp_address e" and "reachable (io_net io)" and "\<not> io_mqtt_closed io"
  shows "main_iter e io s = main_select e io (reconnected (io_net io) (ticked e io s))"
  using assms by (simp add: main_iter_def lost_def keepalive_ticks main_reconnect_def main_mqtt_def open_runtime_succeeds reconnected_again leD)

section \<open>Sessions after a loss\<close>

text \<open>The turns of an outage: failed attempts, and the one that reaches the runtime again.\<close>

definition outage :: "loop_io list \<Rightarrow> loop_io \<Rightarrow> session_item list" where
  "outage ios io = map (\<lambda>io. Turn (Idle io)) (ios @ [io])"

lemma outage_nil: "outage [] io = [Turn (Idle io)]" and outage_cons: "outage (i # ios) io = Turn (Idle i) # outage ios io"
  by (simp_all add: outage_def)

lemma attempts_left: "n \<le> unat (a :: 32 word) \<Longrightarrow> word_of_nat n \<le> a"
  by (auto simp: word_le_nat_alt unat_of_nat intro: le_trans [OF mod_less_eq_dividend])

lemma session_mqtt_idle:
  "session_mqtt e w (Turn (Idle io) # xs) = (if ping_due e w io then [Mq_Ping] else []) @ session_mqtt e (elapsed_after e w io) xs"
  by (simp add: session_mqtt_def turn_mqtt_def)

lemma session_after_loss:
  assumes "quiet (br (he e))" and "tcp_address e" and "reachable (io_net io)" and "idle_turn io"
    and "runtime_conn_fd s = Some (- 1)" and "mqtt_mg_conn s" and "\<not> http_waiting s" and "phase (recv_ctx s) = Phase_Non_Start"
    and "represents (m_reg (mq (hs s))) []" and "\<forall>io \<in> set ios. unreachable (io_net io)"
    and "rconn s + length ios \<le> unat (rt_reconnect_attempts (conf (br (he e))))" and "session_ok e (rand_calls (rt_of s)) xs"
  shows "\<exists>s'. bridge_run e (session_steps (outage ios io @ xs)) s s' \<and> bridge_idle e s'
    \<and> http_sent (hs s') = http_sent (hs s) @ replies e xs
    \<and> mq_out (mq (hs s')) = mq_out (mq (hs s)) @ session_mqtt e (total_elapsed_ms s) (outage ios io @ xs)"
  using assms(5-12)
proof (induction ios arbitrary: s)
  case Nil
  let ?s = "reconnected (io_net io) (ticked e io s)"
  have lost: "lost e s" using Nil.prems by (simp add: lost_def attempts_left)
  have "main_iter e io s = Inr (Loop ?s)"
    using reconnect_turn [OF lost assms(1-3)] assms(4) by (auto simp: idle_turn_def main_select_def split: select_result.splits)
  then have step: "bridge_step e (S_main io) s ?s" by (rule bridge_step.turn)
  have "bridge_idle e ?s"
    using Nil.prems assms(3) by (simp add: bridge_idle_def ready_def standing_def reachable_def)
  from session_run [OF this assms(1)] Nil.prems(8) obtain s2 where
    s2: "bridge_run e (session_steps xs) ?s s2" "bridge_idle e s2" "http_sent (hs s2) = http_sent (hs ?s) @ replies e xs"
      "mq_out (mq (hs s2)) = mq_out (mq (hs ?s)) @ session_mqtt e (total_elapsed_ms ?s) xs" by auto
  with bridge_run.more [OF step s2(1)] show ?case
    by (intro exI [of _ s2]) (simp add: session_steps_def outage_nil session_mqtt_idle)
next
  case (Cons i ios)
  let ?s = "(ticked e i s)\<lparr>rconn := Suc (rconn s)\<rparr>"
  have "lost e s" using Cons.prems by (simp add: lost_def attempts_left)
  from lost_turn [OF this assms(1,2)] Cons.prems(6) have step: "bridge_step e (S_main i) s ?s"
    by (intro bridge_step.turn) simp
  from Cons.IH [of ?s] Cons.prems obtain s2 where
    s2: "bridge_run e (session_steps (outage ios io @ xs)) ?s s2" "bridge_idle e s2" "http_sent (hs s2) = http_sent (hs ?s) @ replies e xs"
      "mq_out (mq (hs s2)) = mq_out (mq (hs ?s)) @ session_mqtt e (total_elapsed_ms ?s) (outage ios io @ xs)" by auto
  with bridge_run.more [OF step s2(1)] show ?case
    by (intro exI [of _ s2]) (simp add: session_steps_def outage_cons session_mqtt_idle)
qed

text \<open>
  C29. A lost runtime does not end the session: with the connection lost between two frames, the
  address reachable again after some turns and no more failed attempts than the configuration
  allows, the bridge reconnects and serves any further session completely. MQTT is pinged in
  the turns of the outage as in all others.
\<close>

theorem session_survives_loss:
  assumes "quiet (br (he e))" and "tcp_address e" and "reachable (io_net io)" and "idle_turn io"
    and "runtime_conn_fd s = Some (- 1)" and "mqtt_mg_conn s" and "\<not> http_waiting s" and "phase (recv_ctx s) = Phase_Non_Start"
    and "represents (m_reg (mq (hs s))) []" and "\<forall>io \<in> set ios. unreachable (io_net io)"
    and "rconn s + length ios \<le> unat (rt_reconnect_attempts (conf (br (he e))))" and "session_ok e (rand_calls (rt_of s)) xs"
  shows "\<exists>s'. bridge_run e (session_steps (outage ios io @ xs)) s s' \<and> bridge_idle e s'
    \<and> http_sent (hs s') = http_sent (hs s) @ replies e xs
    \<and> mq_out (mq (hs s')) = mq_out (mq (hs s)) @ session_mqtt e (total_elapsed_ms s) (outage ios io @ xs)"
  using session_after_loss [OF assms] .

definition demo_back :: loop_io where
  "demo_back = demo_pause\<lparr>io_net := demo_os\<rparr>"

lemma demo_back_turn: "reachable (io_net demo_back)" "idle_turn demo_back" "unreachable (io_net demo_pause)"
  by (simp_all add: reachable_def unreachable_def demo_back_def idle_turn_def demo_pause_def demo_io_def demo_os_def)

lemma demo_address: "tcp_address demo_pair"
  using text_of_zero [of STR_MAXLEN]
  by (auto simp: tcp_address_def demo_pair_def demo_main_def demo_http_def demo_bridge_def g_bt_config_def STR_MAXLEN_def
      CONNECTION_MODE_TCP_def)

lemma demo_lost_facts:
  "runtime_conn_fd demo_lost = Some (- 1)" "mqtt_mg_conn demo_lost" "\<not> http_waiting demo_lost" "phase (recv_ctx demo_lost) = Phase_Non_Start"
  "rconn demo_lost + length [demo_pause, demo_pause] \<le> unat (rt_reconnect_attempts (conf (br (he demo_pair))))"
  "rt_of demo_lost = rt_of demo_idle" "http_sent (hs demo_lost) = []" "represents (m_reg (mq (hs demo_lost))) []"
  by (simp_all add: demo_lost_def demo_idle_def recv_ctx_init_def demo_pair_def demo_http_state_def represents_empty)

theorem session_survives_loss_witness:
  "\<exists>s'. bridge_run demo_pair (session_steps (outage [demo_pause, demo_pause] demo_back @ demo_session)) demo_lost s'
    \<and> http_sent (hs s') = [Http_Reply 201 CT_HEADER_JSON ''{}'', Http_Reply 201 CT_HEADER_JSON ''{}'']"
  using session_survives_loss [OF demo_session_facts(2) demo_address demo_back_turn(1,2) demo_lost_facts(1-4,8) _ demo_lost_facts(5), of demo_session]
    demo_session_facts(3,4) demo_lost_facts(6,7) demo_back_turn(3) by auto

section \<open>A frame across two connections\<close>

lemma read_loss:
  assumes "standing e s" and "quiet (br (he e))" and "\<not> io_mqtt_closed io" and "io_select io = Select_Ready False True" and "io_read io = None"
  shows "main_iter e io s = Inr (Loop ((ticked e io s)\<lparr>runtime_conn_fd := Some (- 1)\<rparr>))"
  using assms by (simp add: standing_turn main_select_def main_read_def)

lemma payload_chunk:
  assumes "recv_ctx s = in_payload t n b i" and "length b = unat n" and "i + length buf < unat n" and "length buf \<le> BUF_SIZE"
  shows "main_read e (Some buf) s = Inr (Loop (s\<lparr>recv_ctx := in_payload t n (take i b @ buf @ drop (i + length buf) b) (i + length buf)\<rparr>))"
  using assms process_payload_partial [OF assms(2,3), where malloc = "link_malloc e" and k = "link_consts (wamr (m_base e))" and t = t and buf = "[]"]
  by (simp add: main_read_def REPLY_TYPE_RESPONSE_def REPLY_TYPE_EVENT_def)

text \<open>
  C31. The receiver survives its connection: when the runtime goes away inside the payload of a
  frame, the bridge reconnects but keeps the state of the old stream, so that the first frame of
  the new connection, a response for example, is stored as payload of the old frame and not
  acted upon: the request stays pending and a client that waits goes on waiting.
\<close>

theorem frame_after_reconnect_swallowed:
  assumes "standing e s" and "quiet (br (he e))" and "tcp_address e"
    and "recv_ctx s = in_payload t n b i" and "length b = unat n" and "i + length (link_frame t' p) < unat n"
    and "\<not> io_mqtt_closed io" and "io_select io = Select_Ready False True" and "io_read io = None"
    and "reachable (io_net io')" and "\<not> io_mqtt_closed io'" and "io_select io' = Select_Ready False True"
    and "io_read io' = Some (link_frame t' p)" and "length (link_frame t' p) \<le> BUF_SIZE"
  shows "\<exists>s'. bridge_run e [S_main io, S_main io'] s s' \<and> runtime_conn_fd s' = Some (sys_socket (io_net io'))
    \<and> recv_ctx s' = in_payload t n (take i b @ link_frame t' p @ drop (i + length (link_frame t' p)) b) (i + length (link_frame t' p))
    \<and> get_pending_request_info (rt_of s') = get_pending_request_info (rt_of s)
    \<and> http_waiting s' = http_waiting s \<and> http_sent (hs s') = http_sent (hs s)"
proof -
  define s1 where "s1 = (ticked e io s)\<lparr>runtime_conn_fd := Some (- 1)\<rparr>"
  define s2 where "s2 = reconnected (io_net io') (ticked e io' s1)"
  have first: "bridge_step e (S_main io) s s1"
    unfolding s1_def using read_loss [OF assms(1,2,7-9)] by (rule bridge_step.turn)
  have "lost e s1" using assms(1) by (simp add: lost_def standing_def s1_def)
  from reconnect_turn [OF this assms(2,3,10,11)] have "main_iter e io' s1 = main_read e (Some (link_frame t' p)) s2"
    using assms(12,13) by (simp add: main_select_def s2_def)
  also have "\<dots> = Inr (Loop (s2\<lparr>recv_ctx := in_payload t n (take i b @ link_frame t' p @ drop (i + length (link_frame t' p)) b)
      (i + length (link_frame t' p))\<rparr>))" (is "_ = Inr (Loop ?s3)")
    using assms(4-6,14) by (intro payload_chunk) (simp_all add: s2_def s1_def)
  finally have "bridge_step e (S_main io') s1 ?s3" by (rule bridge_step.turn)
  with first have "bridge_run e [S_main io, S_main io'] s ?s3" by (auto simp: run_Cons)
  then show ?thesis by (intro exI [of _ ?s3]) (simp add: s2_def s1_def)
qed

definition demo_cut :: bridge where
  "demo_cut = demo_idle\<lparr>recv_ctx := in_payload 49 100 (replicate 100 0) 3, http_waiting := True\<rparr>"

theorem frame_after_reconnect_swallowed_witness:
  "\<exists>s'. bridge_run demo_pair [S_main ((demo_io [])\<lparr>io_read := None\<rparr>), S_main ((demo_io (link_frame 49 [7, 0]))\<lparr>io_net := demo_os\<rparr>)] demo_cut s'
    \<and> phase (recv_ctx s') = Phase_Payload \<and> http_waiting s'"
proof -
  have "standing demo_pair demo_cut" using demo_session_facts(1) by (simp add: bridge_idle_def ready_def standing_def demo_cut_def)
  moreover have "recv_ctx demo_cut = in_payload 49 100 (replicate 100 0) 3" by (simp add: demo_cut_def)
  moreover have "length (replicate 100 (0 :: byte)) = unat (100 :: 32 word)"
    and "3 + length (link_frame 49 [7, 0]) < unat (100 :: 32 word)" and "length (link_frame 49 [7, 0]) \<le> BUF_SIZE"
    by (simp_all add: link_frame_def leading_def mem16_def mem32_def BUF_SIZE_def)
  moreover have "reachable demo_os" by (simp add: reachable_def demo_os_def)
  ultimately show ?thesis
    using frame_after_reconnect_swallowed [OF _ demo_session_facts(2) demo_address, of demo_cut 49 100 "replicate 100 0" 3 49 "[7, 0]"
        "(demo_io [])\<lparr>io_read := None\<rparr>" "(demo_io (link_frame 49 [7, 0]))\<lparr>io_net := demo_os\<rparr>"]
    by (auto simp: demo_io_def demo_cut_def in_payload_def)
qed

section \<open>The MQTT server\<close>

text \<open>A pointer that is NULL stays so, and the loop has no further turn.\<close>

definition mqtt_null :: "'d main_env \<Rightarrow> bridge \<Rightarrow> bool" where
  "mqtt_null e s \<longleftrightarrow> \<not> mqtt_mg_conn s \<and> runtime_conn_fd s \<notin> {None, Some (- 1)}
     \<and> word_of_nat (rconn s) \<le> rt_reconnect_attempts (conf (br (he e)))"

lemma mqtt_null_iter: "mqtt_null e s \<Longrightarrow> main_iter e io s = Inl Null_Deref"
  by (auto simp: mqtt_null_def main_iter_def main_keepalive_def main_reconnect_def main_mqtt_def Let_def leD split: option.split)

lemma mqtt_null_run:
  assumes "bridge_run e ls s s'" and "mqtt_null e s"
  shows "S_main io \<notin> set ls"
  using assms
proof (induction rule: bridge_run.induct)
  case (more l s s1 ls s2)
  from more.hyps(1) more.prems have "l \<noteq> S_main io \<and> mqtt_null e s1"
    by cases (simp_all add: mqtt_null_iter, simp_all add: mqtt_null_def)
  with more.IH show ?case by auto
qed simp

text \<open>
  C30. A failure to reconnect to MQTT is not retried: the turn that finds the connection closed
  and cannot open it again sleeps and goes on, but has stored the NULL that \<open>mg_connect\<close>
  returned, which every possible next turn dereferences; whatever the HTTP thread does meanwhile,
  the main loop completes no turn after that one.
\<close>

theorem mqtt_reconnect_failure_fatal:
  assumes "standing e s" and "\<not> ping_due e (total_elapsed_ms s) io" and "io_mqtt_closed io" and "\<not> io_mqtt_connected io"
  shows "\<exists>s'. bridge_step e (S_main io) s s' \<and> (\<forall>io'. main_iter e io' s' = Inl Null_Deref)
    \<and> (\<forall>ls s2 io'. bridge_run e ls s' s2 \<longrightarrow> S_main io' \<notin> set ls)"
proof -
  define s' where "s' = s\<lparr>total_elapsed_ms := total_elapsed_ms s + io_elapsed io, mqtt_mg_conn := False\<rparr>"
  have "main_iter e io s = Inr (Loop s')"
    using assms by (auto simp: s'_def main_iter_def main_keepalive_def main_reconnect_def main_mqtt_def open_mqtt_def mqtt_init_def
        standing_def ping_due_def Let_def leD split: option.split)
  then have "bridge_step e (S_main io) s s'" by (rule bridge_step.turn)
  moreover have "mqtt_null e s'" using assms(1) by (auto simp: mqtt_null_def standing_def s'_def)
  ultimately show ?thesis using mqtt_null_iter mqtt_null_run by blast
qed

definition demo_down :: loop_io where
  "demo_down = (demo_io [])\<lparr>io_mqtt_closed := True, io_mqtt_connected := False\<rparr>"

theorem mqtt_reconnect_failure_fatal_witness:
  "\<exists>s'. bridge_step demo_pair (S_main demo_down) demo_idle s' \<and> main_iter demo_pair demo_back s' = Inl Null_Deref"
proof -
  have "standing demo_pair demo_idle" using demo_session_facts(1) by (simp add: bridge_idle_def ready_def)
  moreover have "\<not> ping_due demo_pair (total_elapsed_ms demo_idle) demo_down"
    by (simp add: ping_due_def demo_idle_def demo_down_def demo_io_def demo_pair_def demo_main_def)
  ultimately show ?thesis
    using mqtt_reconnect_failure_fatal [of demo_pair demo_idle demo_down] by (auto simp: demo_down_def)
qed

end
