(* ===== verification/Queue_Cells.thy ===== *)
theory Queue_Cells
  imports Bridge_Prelude
begin

text \<open>
  The memory under the queues of external/queue/queue.h: cells of one pointer each at addresses of
  the 32-bit target. An element is the address of its object, a link field lies at a fixed offset
  in it, and what the macros keep in \<open>struct type **\<close> variables are the addresses of cells. Here are
  the accesses, the traversal loops, the predicate \<open>path\<close> that relates a chain of cells to the list
  of its elements, and the lemmas on inserting, removing and replacing an element that the lists
  and queues share (Queue_Lists, Queue_Simple). \<open>_Q_INVALIDATE\<close> is empty, as it is in this build.
\<close>

section \<open>Cells\<close>

type_synonym ptr = "32 word"
type_synonym mem = "ptr \<Rightarrow> ptr option"

definition load :: "mem \<Rightarrow> ptr \<Rightarrow> ptr res" where
  "load m a = (if a = 0 then Inl Null_Deref else case m a of None \<Rightarrow> Inl Out_Of_Bounds | Some v \<Rightarrow> Inr v)"

definition store :: "ptr \<Rightarrow> ptr \<Rightarrow> mem \<Rightarrow> mem res" where
  "store a v m = (if a = 0 then Inl Null_Deref else if m a = None then Inl Out_Of_Bounds else Inr (m(a \<mapsto> v)))"

text \<open>
  The fields of an element whose entry has the offset \<open>off\<close>, \<open>next\<close> before \<open>prev\<close>, and of a head:
  \<open>first\<close> at its address, \<open>last\<close> behind it.
\<close>

definition next_cell :: "ptr \<Rightarrow> ptr \<Rightarrow> ptr" where
  "next_cell off e = e + off"

definition prev_cell :: "ptr \<Rightarrow> ptr \<Rightarrow> ptr" where
  "prev_cell off e = e + off + 4"

definition last_cell :: "ptr \<Rightarrow> ptr" where
  "last_cell h = h + 4"

definition field :: "ptr \<Rightarrow> ptr \<Rightarrow> ptr res" where
  "field e a = (if e = 0 then Inl Null_Deref else Inr a)"

definition get_next :: "ptr \<Rightarrow> mem \<Rightarrow> ptr \<Rightarrow> ptr res" where
  "get_next off m e = bind_res (field e (next_cell off e)) (load m)"

definition set_next :: "ptr \<Rightarrow> ptr \<Rightarrow> ptr \<Rightarrow> mem \<Rightarrow> mem res" where
  "set_next off e v m = bind_res (field e (next_cell off e)) (\<lambda>a. store a v m)"

definition get_prev :: "ptr \<Rightarrow> mem \<Rightarrow> ptr \<Rightarrow> ptr res" where
  "get_prev off m e = bind_res (field e (prev_cell off e)) (load m)"

definition set_prev :: "ptr \<Rightarrow> ptr \<Rightarrow> ptr \<Rightarrow> mem \<Rightarrow> mem res" where
  "set_prev off e v m = bind_res (field e (prev_cell off e)) (\<lambda>a. store a v m)"

section \<open>Loops\<close>

text \<open>
  \<open>for (var = first; var != NULL; var = next) body\<close>, and the variant that reads \<open>next\<close> before the
  body; they give the values of \<open>var\<close> with the memory after the loop.
\<close>

fun foreach ::
    "(mem \<Rightarrow> ptr \<Rightarrow> ptr res) \<Rightarrow> (ptr \<Rightarrow> mem \<Rightarrow> mem res) \<Rightarrow> nat \<Rightarrow> ptr \<Rightarrow> mem \<Rightarrow> (ptr list \<times> mem) res" where
  "foreach nxt body 0 var m = Inl Diverges"
| "foreach nxt body (Suc fuel) var m =
     (if var = 0 then Inr ([], m)
      else bind_res (body var m) (\<lambda>m.
           bind_res (nxt m var) (\<lambda>v.
           bind_res (foreach nxt body fuel v m) (\<lambda>(vs, m). Inr (var # vs, m)))))"

fun foreach_safe ::
    "(mem \<Rightarrow> ptr \<Rightarrow> ptr res) \<Rightarrow> (ptr \<Rightarrow> mem \<Rightarrow> mem res) \<Rightarrow> nat \<Rightarrow> ptr \<Rightarrow> mem \<Rightarrow> (ptr list \<times> mem) res" where
  "foreach_safe nxt body 0 var m = Inl Diverges"
| "foreach_safe nxt body (Suc fuel) var m =
     (if var = 0 then Inr ([], m)
      else bind_res (nxt m var) (\<lambda>tvar.
           bind_res (body var m) (\<lambda>m.
           bind_res (foreach_safe nxt body fuel tvar m) (\<lambda>(vs, m). Inr (var # vs, m)))))"

section \<open>Chains of cells\<close>

text \<open>
  \<open>path b m off p as x\<close>: the cell \<open>p\<close> points to the first of the elements \<open>as\<close>, each of them to the
  next one, and the last to \<open>x\<close>; with \<open>b\<close> each element also has the address of the cell that points
  to it. \<open>end_of\<close> is the cell that holds \<open>x\<close>, \<open>cells\<close> are those inside the elements.
\<close>

primrec path :: "bool \<Rightarrow> mem \<Rightarrow> ptr \<Rightarrow> ptr \<Rightarrow> ptr list \<Rightarrow> ptr \<Rightarrow> bool" where
  "path b m off p [] x \<longleftrightarrow> p \<noteq> 0 \<and> m p = Some x"
| "path b m off p (a # as) x \<longleftrightarrow> p \<noteq> 0 \<and> m p = Some a \<and> a \<noteq> 0
     \<and> (b \<longrightarrow> prev_cell off a \<noteq> 0 \<and> m (prev_cell off a) = Some p) \<and> path b m off (next_cell off a) as x"

primrec end_of :: "ptr \<Rightarrow> ptr \<Rightarrow> ptr list \<Rightarrow> ptr" where
  "end_of off p [] = p"
| "end_of off p (a # as) = end_of off (next_cell off a) as"

primrec cells :: "bool \<Rightarrow> ptr \<Rightarrow> ptr list \<Rightarrow> ptr list" where
  "cells b off [] = []"
| "cells b off (a # as) = next_cell off a # (if b then [prev_cell off a] else []) @ cells b off as"

lemma cells_append [simp]: "cells b off (xs @ ys) = cells b off xs @ cells b off ys"
  by (induction xs) simp_all

lemma end_of_append [simp]: "end_of off p (xs @ ys) = end_of off (end_of off p xs) ys"
  by (induction xs arbitrary: p) simp_all

lemma end_of_last: "as \<noteq> [] \<Longrightarrow> end_of off p as = next_cell off (last as)"
  by (induction as arbitrary: p) auto

lemma end_of_in: "end_of off p as \<in> insert p (set (cells b off as))"
  by (induction as arbitrary: p) (auto split: if_splits)

lemma path_first: "path b m off p as x \<Longrightarrow> p \<noteq> 0 \<and> m p = Some (hd (as @ [x]))"
  by (cases as) simp_all

lemma path_append:
  "path b m off p (xs @ ys) x \<longleftrightarrow> path b m off p xs (hd (ys @ [x])) \<and> path b m off (end_of off p xs) ys x"
  by (induction xs arbitrary: p) (auto dest: path_first)

lemma path_end: "path b m off p as x \<Longrightarrow> end_of off p as \<noteq> 0 \<and> m (end_of off p as) = Some x"
  by (induction as arbitrary: p) simp_all

lemma path_nonnull: "path b m off p as x \<Longrightarrow> 0 \<notin> set as"
  by (induction as arbitrary: p) auto

lemma path_alloc: "path b m off p as x \<Longrightarrow> c \<in> insert p (set (cells b off as)) \<Longrightarrow> c \<noteq> 0 \<and> m c \<noteq> None"
  by (induction as arbitrary: p) (auto dest: path_first split: if_splits)

lemma path_cong:
  "(\<And>c. c \<in> insert p (set (cells b off as)) \<Longrightarrow> m' c = m c) \<Longrightarrow> path b m' off p as x = path b m off p as x"
proof (induction as arbitrary: p)
  case (Cons a as)
  have "path b m' off (next_cell off a) as x = path b m off (next_cell off a) as x"
    using Cons.prems by (intro Cons.IH) auto
  then show ?case using Cons.prems by auto
qed simp

text \<open>The last cell is written anew.\<close>

lemma path_retarget:
  assumes "path b m off p as x" and "distinct (p # cells b off as)" and "m' (end_of off p as) = Some y"
    and "\<And>c. c \<in> insert p (set (cells b off as)) \<Longrightarrow> c \<noteq> end_of off p as \<Longrightarrow> m' c = m c"
  shows "path b m' off p as y"
  using assms
proof (induction as arbitrary: p)
  case (Cons a as)
  let ?n = "next_cell off a"
  have e: "end_of off ?n as \<in> insert ?n (set (cells b off as))" by (rule end_of_in)
  then have "p \<noteq> end_of off ?n as" using Cons.prems(2) by auto
  moreover have "b \<Longrightarrow> prev_cell off a \<noteq> end_of off ?n as" using Cons.prems(2) e by auto
  moreover have "path b m' off ?n as y"
    using Cons.prems by (intro Cons.IH) (auto split: if_splits)
  ultimately show ?case using Cons.prems(1,4) by auto
qed auto

lemma path_unique: "path b m off p as 0 \<Longrightarrow> path b m off p bs 0 \<Longrightarrow> as = bs"
proof (induction as arbitrary: p bs)
  case Nil
  then show ?case by (cases bs) auto
next
  case (Cons a as)
  then show ?case by (cases bs) auto
qed

text \<open>
  An element comes between \<open>xs\<close> and \<open>ys\<close>. What the new memory has to hold is said cell by cell, so
  that it does not matter in which order a macro writes them.
\<close>

definition back_cell :: "bool \<Rightarrow> ptr \<Rightarrow> ptr list \<Rightarrow> ptr set" where
  "back_cell b off ys = (if b \<and> ys \<noteq> [] then {prev_cell off (hd ys)} else {})"

lemma path_insert:
  assumes "path b m off p (xs @ ys) x" and "distinct (p # cells b off (xs @ e # ys))" and "e \<noteq> 0" "next_cell off e \<noteq> 0"
    and "b \<longrightarrow> prev_cell off e \<noteq> 0"
    and "m' (end_of off p xs) = Some e" and "m' (next_cell off e) = Some (hd (ys @ [x]))"
    and "b \<longrightarrow> m' (prev_cell off e) = Some (end_of off p xs)"
    and "b \<and> ys \<noteq> [] \<longrightarrow> m' (prev_cell off (hd ys)) = Some (next_cell off e)"
    and "\<And>c. c \<in> insert p (set (cells b off (xs @ ys))) \<Longrightarrow> c \<noteq> end_of off p xs \<Longrightarrow> c \<notin> back_cell b off ys \<Longrightarrow> m' c = m c"
  shows "path b m' off p (xs @ e # ys) x"
proof -
  let ?q = "end_of off p xs"
  have old: "path b m off p xs (hd (ys @ [x]))" "path b m off ?q ys x" using assms(1) by (simp_all add: path_append)
  have q: "?q \<in> insert p (set (cells b off xs))" by (rule end_of_in)
  have bk: "c \<notin> back_cell b off ys" if "c \<in> insert p (set (cells b off xs))" for c
    using that assms(2) by (cases ys) (auto simp: back_cell_def)
  have "path b m' off p xs e"
  proof (rule path_retarget [where m' = m', OF old(1) _ assms(6)])
    show "distinct (p # cells b off xs)" using assms(2) by simp
    show "m' c = m c" if "c \<in> insert p (set (cells b off xs))" "c \<noteq> ?q" for c
      using that bk [OF that(1)] by (intro assms(10)) auto
  qed
  moreover have "path b m' off (next_cell off e) ys x"
  proof (cases ys)
    case Nil
    then show ?thesis using assms(4,7) by simp
  next
    case (Cons a as)
    have "path b m' off (next_cell off a) as x = path b m off (next_cell off a) as x"
    proof (rule path_cong)
      fix c assume c: "c \<in> insert (next_cell off a) (set (cells b off as))"
      then have new: "c \<in> set (cells b off ys)" using Cons by auto
      then have "c \<notin> insert p (set (cells b off xs))" using assms(2) by auto
      with q have "c \<noteq> ?q" by blast
      moreover have "c \<notin> back_cell b off ys" using c assms(2) Cons by (auto simp: back_cell_def)
      ultimately show "m' c = m c" using new by (intro assms(10)) auto
    qed
    then show ?thesis using Cons old(2) assms(4,7,9) by auto
  qed
  ultimately show ?thesis using assms(3,5,6,8) path_end [OF old(1)] by (simp add: path_append)
qed

lemma path_remove:
  assumes "path b m off p (xs @ e # ys) x" and "distinct (p # cells b off (xs @ e # ys))"
    and "m' (end_of off p xs) = Some (hd (ys @ [x]))"
    and "b \<and> ys \<noteq> [] \<longrightarrow> m' (prev_cell off (hd ys)) = Some (end_of off p xs)"
    and "\<And>c. c \<in> insert p (set (cells b off (xs @ ys))) \<Longrightarrow> c \<noteq> end_of off p xs \<Longrightarrow> c \<notin> back_cell b off ys \<Longrightarrow> m' c = m c"
  shows "path b m' off p (xs @ ys) x"
proof -
  let ?q = "end_of off p xs"
  have old: "path b m off p xs e" "path b m off (next_cell off e) ys x" using assms(1) by (simp_all add: path_append)
  have q: "?q \<in> insert p (set (cells b off xs))" by (rule end_of_in)
  have bk: "c \<notin> back_cell b off ys" if "c \<in> insert p (set (cells b off xs))" for c
    using that assms(2) by (cases ys) (auto simp: back_cell_def)
  have "path b m' off p xs (hd (ys @ [x]))"
  proof (rule path_retarget [where m' = m', OF old(1) _ assms(3)])
    show "distinct (p # cells b off xs)" using assms(2) by simp
    show "m' c = m c" if "c \<in> insert p (set (cells b off xs))" "c \<noteq> ?q" for c
      using that bk [OF that(1)] by (intro assms(5)) auto
  qed
  moreover have "path b m' off ?q ys x"
  proof (cases ys)
    case Nil
    then show ?thesis using assms(3) path_end [OF old(1)] by simp
  next
    case (Cons a as)
    have "path b m' off (next_cell off a) as x = path b m off (next_cell off a) as x"
    proof (rule path_cong)
      fix c assume c: "c \<in> insert (next_cell off a) (set (cells b off as))"
      then have new: "c \<in> set (cells b off ys)" using Cons by auto
      then have "c \<notin> insert p (set (cells b off xs))" using assms(2) by auto
      with q have "c \<noteq> ?q" by blast
      moreover have "c \<notin> back_cell b off ys" using c assms(2) Cons by (auto simp: back_cell_def)
      ultimately show "m' c = m c" using new by (intro assms(5)) auto
    qed
    then show ?thesis using Cons old assms(3,4) path_end [OF old(1)] by auto
  qed
  ultimately show ?thesis by (simp add: path_append)
qed


lemma path_replace:
  assumes "path b m off p (xs @ e # ys) x" and "distinct (p # cells b off (xs @ e # ys))"
    and "distinct (p # cells b off (xs @ e2 # ys))" and "e2 \<noteq> 0" "next_cell off e2 \<noteq> 0"
    and "b \<longrightarrow> prev_cell off e2 \<noteq> 0"
    and "m' (end_of off p xs) = Some e2" and "m' (next_cell off e2) = Some (hd (ys @ [x]))"
    and "b \<longrightarrow> m' (prev_cell off e2) = Some (end_of off p xs)"
    and "b \<and> ys \<noteq> [] \<longrightarrow> m' (prev_cell off (hd ys)) = Some (next_cell off e2)"
    and "\<And>c. c \<in> insert p (set (cells b off (xs @ ys))) \<Longrightarrow> c \<noteq> end_of off p xs \<Longrightarrow> c \<notin> back_cell b off ys \<Longrightarrow> m' c = m c"
  shows "path b m' off p (xs @ e2 # ys) x"
proof -
  define m0 where "m0 = (\<lambda>c. if c = end_of off p xs then Some (hd (ys @ [x]))
    else if c \<in> back_cell b off ys then Some (end_of off p xs) else m c)"
  have "prev_cell off (hd ys) \<noteq> end_of off p xs" if "b" "ys \<noteq> []"
  proof -
    have "prev_cell off (hd ys) \<in> set (cells b off ys)" using that by (cases ys) auto
    with assms(2) end_of_in [of off p xs b] show ?thesis by auto
  qed
  then have "path b m0 off p (xs @ ys) x"
    by (intro path_remove [OF assms(1,2)]) (auto simp: m0_def back_cell_def)
  then show ?thesis
    by (rule path_insert [OF _ assms(3-6)]) (use assms(7-11) in \<open>simp_all add: m0_def\<close>)
qed

section \<open>Accesses that succeed\<close>

lemma load_ok [simp]: "a \<noteq> 0 \<Longrightarrow> m a = Some v \<Longrightarrow> load m a = Inr v"
  by (simp add: load_def)

lemma store_ok [simp]: "a \<noteq> 0 \<Longrightarrow> m a \<noteq> None \<Longrightarrow> store a v m = Inr (m(a \<mapsto> v))"
  by (simp add: store_def)

lemma field_ok [simp]: "e \<noteq> 0 \<Longrightarrow> field e a = Inr a"
  by (simp add: field_def)

lemmas link_access = get_next_def set_next_def get_prev_def set_prev_def

text \<open>The cells that an element brings with it.\<close>

definition fresh :: "bool \<Rightarrow> mem \<Rightarrow> ptr \<Rightarrow> ptr \<Rightarrow> bool" where
  "fresh b m off e \<longleftrightarrow> e \<noteq> 0 \<and> (\<forall>c \<in> set (cells b off [e]). c \<noteq> 0 \<and> m c \<noteq> None)"

lemma path_fresh: "path b m off p (xs @ e # ys) x \<Longrightarrow> fresh b m off e"
  using path_alloc [of b m off p "xs @ e # ys" x] path_nonnull [of b m off p "xs @ e # ys" x]
  by (auto simp: fresh_def)

section \<open>Traversals\<close>

definition leave :: "ptr \<Rightarrow> mem \<Rightarrow> mem res" where
  "leave var m = Inr m"

text \<open>What a traversal sees of a chain: nothing before the element it is at.\<close>

primrec chain :: "mem \<Rightarrow> ptr \<Rightarrow> ptr \<Rightarrow> ptr list \<Rightarrow> bool" where
  "chain m off v [] \<longleftrightarrow> v = 0"
| "chain m off v (a # as) \<longleftrightarrow> v = a \<and> a \<noteq> 0 \<and> next_cell off a \<noteq> 0
     \<and> (\<exists>n. m (next_cell off a) = Some n \<and> chain m off n as)"

lemma path_chain: "path b m off p as 0 \<Longrightarrow> chain m off (hd (as @ [0])) as"
proof (induction as arbitrary: p)
  case (Cons a as)
  then show ?case using path_first [of b m off "next_cell off a" as 0] by auto
qed simp

lemma chain_cong:
  "(\<And>a. a \<in> set as \<Longrightarrow> m' (next_cell off a) = m (next_cell off a)) \<Longrightarrow> chain m' off v as = chain m off v as"
  by (induction as arbitrary: v) auto

lemma next_cell_in: "a \<in> set as \<Longrightarrow> next_cell off a \<in> set (cells b off as)"
  by (induction as) auto

text \<open>\<open>nxt\<close> may be a way to read the links that is not \<open>get_next\<close> on the memory at hand.\<close>

lemma foreach_leave_by:
  "chain m' off v as \<Longrightarrow> (\<And>a. a \<in> set as \<Longrightarrow> nxt m a = get_next off m' a) \<Longrightarrow> length as < fuel \<Longrightarrow>
   foreach nxt leave fuel v m = Inr (as, m)"
proof (induction as arbitrary: v fuel)
  case Nil
  then show ?case by (cases fuel) auto
next
  case (Cons a as)
  then obtain f where "fuel = Suc f" by (cases fuel) auto
  with Cons show ?case by (auto simp: leave_def link_access)
qed

lemma foreach_leave: "chain m off v as \<Longrightarrow> length as < fuel \<Longrightarrow> foreach (get_next off) leave fuel v m = Inr (as, m)"
  by (rule foreach_leave_by) simp_all

text \<open>\<open>free\<close> as the body: the element's cells are gone. Only the safe loop survives it.\<close>

definition free_element :: "bool \<Rightarrow> ptr \<Rightarrow> ptr \<Rightarrow> mem \<Rightarrow> mem res" where
  "free_element b off var m = Inr (\<lambda>c. if c \<in> set (cells b off [var]) then None else m c)"

lemma foreach_safe_free:
  "chain m off v as \<Longrightarrow> distinct (cells b off as) \<Longrightarrow> length as < fuel \<Longrightarrow>
   foreach_safe (get_next off) (free_element b off) fuel v m
    = Inr (as, \<lambda>c. if c \<in> set (cells b off as) then None else m c)"
proof (induction as arbitrary: v m fuel)
  case Nil
  then show ?case by (cases fuel) auto
next
  case (Cons a as)
  then obtain f n where f: "fuel = Suc f" "v = a" "a \<noteq> 0" "next_cell off a \<noteq> 0" "m (next_cell off a) = Some n" "chain m off n as"
    by (cases fuel) auto
  define m1 where "m1 = (\<lambda>c. if c \<in> set (cells b off [a]) then None else m c)"
  have "chain m1 off n as = chain m off n as"
  proof (rule chain_cong)
    fix x assume "x \<in> set as"
    with next_cell_in [of x as off b] Cons.prems(2) show "m1 (next_cell off x) = m (next_cell off x)"
      by (auto simp: m1_def)
  qed
  with Cons.IH [of m1 n f] Cons.prems f
  have "foreach_safe (get_next off) (free_element b off) f n m1 = Inr (as, \<lambda>c. if c \<in> set (cells b off as) then None else m1 c)"
    by simp
  moreover have "(\<lambda>c. if c \<in> set (cells b off as) then None else m1 c)
      = (\<lambda>c. if c \<in> set (cells b off (a # as)) then None else m c)"
    by (auto simp: m1_def)
  moreover have "get_next off m a = Inr n" using f by (simp add: link_access)
  moreover have "free_element b off a m = Inr m1" by (simp add: free_element_def m1_def)
  ultimately show ?case using f by simp
qed

lemma foreach_free:
  assumes "chain m off v (a # as)" and "1 < fuel"
  shows "foreach (get_next off) (free_element b off) fuel v m = Inl Out_Of_Bounds"
proof -
  obtain f where "fuel = Suc f" using assms(2) by (cases fuel) auto
  with assms show ?thesis by (auto simp: free_element_def link_access load_def)
qed


section \<open>Objects\<close>

text \<open>
  \<open>objs b m off heads us\<close>: the cells of the heads and those of the objects \<open>us\<close>, all in memory, do
  not overlap. The lists and queues are over such a set of objects, linked or not.
\<close>

definition objs :: "bool \<Rightarrow> mem \<Rightarrow> ptr \<Rightarrow> ptr list \<Rightarrow> ptr set \<Rightarrow> bool" where
  "objs b m off heads us \<longleftrightarrow> distinct heads \<and> (\<forall>c \<in> set heads. c \<noteq> 0 \<and> m c \<noteq> None)
     \<and> (\<forall>x \<in> us. x \<noteq> 0 \<and> next_cell off x \<noteq> 0 \<and> m (next_cell off x) \<noteq> None \<and> next_cell off x \<notin> set heads)
     \<and> (b \<longrightarrow> (\<forall>x \<in> us. prev_cell off x \<noteq> 0 \<and> m (prev_cell off x) \<noteq> None \<and> prev_cell off x \<notin> set heads
          \<and> (\<forall>y \<in> us. prev_cell off x \<noteq> next_cell off y)))"

lemma cell_inj [simp]: "next_cell off x = next_cell off y \<longleftrightarrow> x = y" "prev_cell off x = prev_cell off y \<longleftrightarrow> x = y"
  by (simp_all add: next_cell_def prev_cell_def)

lemma last_cell_next [simp]: "last_cell (next_cell off a) = prev_cell off a"
  by (simp add: last_cell_def next_cell_def prev_cell_def)

lemma cells_set: "set (cells b off as) = next_cell off ` set as \<union> (if b then prev_cell off ` set as else {})"
  by (induction as) auto

lemma objs_next:
  assumes "objs b m off heads us" and "x \<in> us"
  shows "x \<noteq> 0" and "next_cell off x \<noteq> 0" and "m (next_cell off x) \<noteq> None" and "next_cell off x \<notin> set heads"
  using assms unfolding objs_def by blast+

lemma objs_prev:
  assumes "objs True m off heads us" and "x \<in> us"
  shows "prev_cell off x \<noteq> 0" and "m (prev_cell off x) \<noteq> None" and "prev_cell off x \<notin> set heads"
    and "y \<in> us \<Longrightarrow> prev_cell off x \<noteq> next_cell off y" and "y \<in> us \<Longrightarrow> next_cell off y \<noteq> prev_cell off x"
  using assms unfolding objs_def by metis+

lemma objs_heads: "objs b m off heads us \<Longrightarrow> c \<in> set heads \<Longrightarrow> c \<noteq> 0 \<and> m c \<noteq> None"
  by (simp add: objs_def)

lemma objs_distinct:
  assumes "objs b m off heads us" and "distinct as" and "set as \<subseteq> us" and "p \<in> set heads"
  shows "distinct (p # cells b off as)"
  using assms(2,3)
proof (induction as)
  case (Cons a as)
  have us: "a \<in> us" "set as \<subseteq> us" "a \<notin> set as" using Cons.prems by auto
  note nx = objs_next [OF assms(1) us(1)]
  have "next_cell off a \<noteq> p" using nx(4) assms(4) by auto
  moreover have "next_cell off a \<notin> set (cells b off as)"
  proof (cases b)
    case True
    with assms(1) have "objs True m off heads us" by simp
    have "next_cell off a \<noteq> prev_cell off x" if "x \<in> set as" for x
      using objs_prev(5) [OF \<open>objs True m off heads us\<close>, of x a] that us by blast
    then show ?thesis using us(3) by (auto simp: cells_set)
  qed (use us in \<open>auto simp: cells_set\<close>)
  moreover have "prev_cell off a \<noteq> p \<and> prev_cell off a \<notin> set (cells b off as) \<and> next_cell off a \<noteq> prev_cell off a" if b
  proof -
    from that assms(1) have o: "objs True m off heads us" by simp
    note pv = objs_prev [OF o us(1)]
    have "prev_cell off a \<notin> next_cell off ` set as" using pv(4) us(2) by auto
    then show ?thesis using pv(3) pv(5) [OF us(1)] assms(4) us(3) by (auto simp: cells_set)
  qed
  ultimately show ?case using Cons us by auto
qed simp

text \<open>Nothing is freed: a memory with the same domain has the same objects.\<close>

lemma objs_dom: "objs b m off heads us \<Longrightarrow> dom m' = dom m \<Longrightarrow> objs b m' off heads us"
  by (auto simp: objs_def dom_def set_eq_iff)

lemma load_dom: "load m a = Inr v \<Longrightarrow> a \<in> dom m"
  by (auto simp: load_def split: if_splits option.splits)

lemma store_dom: "store a v m = Inr m' \<Longrightarrow> dom m' = dom m"
  by (auto simp: store_def split: if_splits)

lemma set_dom: "set_next off e v m = Inr m' \<Longrightarrow> dom m' = dom m" "set_prev off e v m = Inr m' \<Longrightarrow> dom m' = dom m"
  by (simp_all add: link_access bind_res_Inr_iff) (elim exE conjE, erule store_dom)+

text \<open>
  \<open>held b off h heads us m as\<close>: the head cell \<open>h\<close>, one of \<open>heads\<close>, begins a chain of the objects \<open>as\<close> of
  \<open>us\<close>. An operation may change other heads and the cells of the object that it moves.
\<close>

definition held :: "bool \<Rightarrow> ptr \<Rightarrow> ptr \<Rightarrow> ptr list \<Rightarrow> ptr set \<Rightarrow> mem \<Rightarrow> ptr list \<Rightarrow> bool" where
  "held b off h heads us m as \<longleftrightarrow> objs b m off heads us \<and> h \<in> set heads \<and> distinct as \<and> set as \<subseteq> us
     \<and> path b m off h as 0"

lemma held_cells:
  assumes "objs b m off heads us" and "x \<in> us" and "h \<in> set heads"
  shows "x \<noteq> 0" "next_cell off x \<noteq> 0" "m (next_cell off x) \<noteq> None" "next_cell off x \<noteq> h" "h \<noteq> next_cell off x"
  using objs_next [OF assms(1,2)] assms(3) by auto

lemma held_back_cells:
  assumes "objs True m off heads us" and "x \<in> us" and "h \<in> set heads"
  shows "prev_cell off x \<noteq> 0" "m (prev_cell off x) \<noteq> None" "prev_cell off x \<noteq> h" "h \<noteq> prev_cell off x"
    "y \<in> us \<Longrightarrow> prev_cell off x \<noteq> next_cell off y" "y \<in> us \<Longrightarrow> next_cell off y \<noteq> prev_cell off x"
  using objs_prev [OF assms(1,2)] assms(3) by auto

lemma end_of_cases:
  assumes "set as \<subseteq> us"
  obtains "end_of off h as = h" "as = []" | a where "end_of off h as = next_cell off a" "a \<in> us" "as \<noteq> []" "a = last as"
proof (cases "as = []")
  case False
  then have "last as \<in> us" using assms by auto
  with False show ?thesis by (intro that(2) [of "last as"]) (simp_all add: end_of_last)
qed (use that(1) in simp)

lemma held_links:
  assumes "held True off h heads us m (xs @ l # ys)"
  shows "h \<in> set heads" "objs True m off heads us" "l \<in> us" "l \<noteq> 0" "end_of off h xs \<noteq> 0" "m (end_of off h xs) = Some l"
    and "m (prev_cell off l) = Some (end_of off h xs)" "m (next_cell off l) = Some (hd (ys @ [0]))"
    and "ys \<noteq> [] \<longrightarrow> hd ys \<in> us \<and> hd ys \<noteq> 0 \<and> hd ys \<noteq> l"
    and "set xs \<subseteq> us" "set ys \<subseteq> us" "l \<notin> set xs" "l \<notin> set ys" "set xs \<inter> set ys = {}"
  using assms path_first [of True m off "next_cell off l" ys 0] path_end [of True m off h xs l]
  by (auto simp: held_def path_append objs_def neq_Nil_conv)

lemma end_cells:
  assumes "objs True m off heads us" and "h \<in> set heads" and "set xs \<subseteq> us" and "x \<in> us"
  shows "prev_cell off x \<noteq> end_of off h xs" "end_of off h xs \<noteq> prev_cell off x"
    and "x \<notin> set xs \<Longrightarrow> next_cell off x \<noteq> end_of off h xs" "x \<notin> set xs \<Longrightarrow> end_of off h xs \<noteq> next_cell off x"
  using held_cells [OF assms(1,4,2)] held_back_cells [OF assms(1,4,2)]
  by (cases rule: end_of_cases [OF assms(3), of off h]; auto; fail)+

lemma two_heads:
  assumes "objs b m off [h, last_cell h] us"
  shows "h \<noteq> 0" "last_cell h \<noteq> 0" "m h \<noteq> None" "m (last_cell h) \<noteq> None" "h \<noteq> last_cell h" "last_cell h \<noteq> h"
  using assms by (auto simp: objs_def)

lemma end_not_last:
  assumes "objs b m off [h, last_cell h] us" and "set as \<subseteq> us"
  shows "end_of off h as \<noteq> last_cell h" "last_cell h \<noteq> end_of off h as"
  using two_heads [OF assms(1)] held_cells [OF assms(1), of _ "last_cell h"]
  by (cases rule: end_of_cases [OF assms(2), of off h]; auto; fail)+

lemma held_other_head:
  assumes "objs b m off heads us" and "h \<in> set heads" and "set as \<subseteq> us" and "c \<in> insert h (set (cells b off as))"
  shows "c \<notin> set heads - {h}"
  using assms(1,3,4) unfolding objs_def by (cases b) (auto simp: cells_set)

lemma held_distinct: "held b off h heads us m as \<Longrightarrow> distinct (h # cells b off as)"
  unfolding held_def by (intro objs_distinct [of b m off heads us as h]) simp_all

lemma held_insert:
  assumes "held b off h heads us m (xs @ ys)" and "e \<in> us" and "e \<notin> set (xs @ ys)" and "dom m' = dom m"
    and "m' (end_of off h xs) = Some e" and "m' (next_cell off e) = Some (hd (ys @ [0]))"
    and "b \<longrightarrow> m' (prev_cell off e) = Some (end_of off h xs)"
    and "b \<and> ys \<noteq> [] \<longrightarrow> m' (prev_cell off (hd ys)) = Some (next_cell off e)"
    and "\<And>c. c \<notin> set heads - {h} \<Longrightarrow> c \<noteq> end_of off h xs \<Longrightarrow> c \<notin> set (cells b off [e]) \<Longrightarrow> c \<notin> back_cell b off ys \<Longrightarrow> m' c = m c"
  shows "held b off h heads us m' (xs @ e # ys)"
proof -
  have o: "objs b m off heads us" and h: "h \<in> set heads" and p: "path b m off h (xs @ ys) 0"
    using assms(1) by (simp_all add: held_def)
  have d: "distinct (xs @ e # ys)" "set (xs @ e # ys) \<subseteq> us" using assms(1-3) by (auto simp: held_def)
  have cells: "distinct (h # cells b off (xs @ e # ys))" using objs_distinct [OF o d h] .
  have "path b m' off h (xs @ e # ys) 0"
  proof (rule path_insert [OF p cells])
    fix c assume c: "c \<in> insert h (set (cells b off (xs @ ys)))" "c \<noteq> end_of off h xs" "c \<notin> back_cell b off ys"
    have "c \<notin> set (cells b off [e])" using c(1) cells by (auto split: if_splits)
    moreover have "c \<notin> set heads - {h}" using held_other_head [OF o h, of "xs @ ys" c] c(1) d(2) by simp
    ultimately show "m' c = m c" using c(2,3) by (intro assms(9))
  next
    show "e \<noteq> 0" "next_cell off e \<noteq> 0" using held_cells [OF o assms(2) h] by auto
    show "b \<longrightarrow> prev_cell off e \<noteq> 0" using o assms(2) by (auto simp: objs_def)
  qed (use assms(5-8) in simp_all)
  with objs_dom [OF o assms(4)] d h show ?thesis by (simp add: held_def)
qed

lemma held_remove:
  assumes "held b off h heads us m (xs @ e # ys)" and "dom m' = dom m"
    and "m' (end_of off h xs) = Some (hd (ys @ [0]))"
    and "b \<and> ys \<noteq> [] \<longrightarrow> m' (prev_cell off (hd ys)) = Some (end_of off h xs)"
    and "\<And>c. c \<notin> set heads - {h} \<Longrightarrow> c \<noteq> end_of off h xs \<Longrightarrow> c \<notin> back_cell b off ys \<Longrightarrow> m' c = m c"
  shows "held b off h heads us m' (xs @ ys)"
proof -
  have o: "objs b m off heads us" and h: "h \<in> set heads" and p: "path b m off h (xs @ e # ys) 0"
    and d: "distinct (xs @ ys)" "set (xs @ ys) \<subseteq> us"
    using assms(1) by (auto simp: held_def)
  have "path b m' off h (xs @ ys) 0"
  proof (rule path_remove [OF p held_distinct [OF assms(1)]])
    fix c assume c: "c \<in> insert h (set (cells b off (xs @ ys)))" "c \<noteq> end_of off h xs" "c \<notin> back_cell b off ys"
    have "c \<notin> set heads - {h}" using held_other_head [OF o h, of "xs @ ys" c] c(1) d(2) by simp
    then show "m' c = m c" using c(2,3) by (intro assms(5))
  qed (use assms(3,4) in simp_all)
  with objs_dom [OF o assms(2)] d h show ?thesis by (simp add: held_def)
qed

lemma held_replace:
  assumes "held b off h heads us m (xs @ e # ys)" and "e2 \<in> us" and "e2 \<notin> set (xs @ e # ys)" and "dom m' = dom m"
    and "m' (end_of off h xs) = Some e2" and "m' (next_cell off e2) = Some (hd (ys @ [0]))"
    and "b \<longrightarrow> m' (prev_cell off e2) = Some (end_of off h xs)"
    and "b \<and> ys \<noteq> [] \<longrightarrow> m' (prev_cell off (hd ys)) = Some (next_cell off e2)"
    and "\<And>c. c \<notin> set heads - {h} \<Longrightarrow> c \<noteq> end_of off h xs \<Longrightarrow> c \<notin> set (cells b off [e2]) \<Longrightarrow> c \<notin> back_cell b off ys \<Longrightarrow> m' c = m c"
  shows "held b off h heads us m' (xs @ e2 # ys)"
proof -
  have o: "objs b m off heads us" and h: "h \<in> set heads" and p: "path b m off h (xs @ e # ys) 0"
    and d: "distinct (xs @ e2 # ys)" "set (xs @ e2 # ys) \<subseteq> us"
    using assms(1-3) by (auto simp: held_def)
  have cells: "distinct (h # cells b off (xs @ e2 # ys))" using objs_distinct [OF o d h] .
  have "path b m' off h (xs @ e2 # ys) 0"
  proof (rule path_replace [OF p held_distinct [OF assms(1)] cells])
    fix c assume c: "c \<in> insert h (set (cells b off (xs @ ys)))" "c \<noteq> end_of off h xs" "c \<notin> back_cell b off ys"
    have "c \<notin> set (cells b off [e2])" using c(1) cells by (auto split: if_splits)
    moreover have "c \<notin> set heads - {h}" using held_other_head [OF o h, of "xs @ ys" c] c(1) d(2) by simp
    ultimately show "m' c = m c" using c(2,3) by (intro assms(9))
  next
    show "e2 \<noteq> 0" "next_cell off e2 \<noteq> 0" using held_cells [OF o assms(2) h] by auto
    show "b \<longrightarrow> prev_cell off e2 \<noteq> 0" using o assms(2) by (auto simp: objs_def)
  qed (use assms(5-8) in simp_all)
  with objs_dom [OF o assms(4)] d h show ?thesis by (simp add: held_def)
qed

section \<open>Operations on the list of elements\<close>

datatype list_op =
    Ins_Head ptr
  | Ins_Tail ptr
  | Ins_After ptr ptr
  | Ins_Before ptr ptr
  | Rem ptr
  | Rem_Head
  | Rem_After ptr
  | Repl ptr ptr

text \<open>What an operation does to the list, and when it may be used.\<close>

fun op_apply :: "list_op \<Rightarrow> ptr list \<Rightarrow> ptr list" where
  "op_apply (Ins_Head e) as = e # as"
| "op_apply (Ins_Tail e) as = as @ [e]"
| "op_apply (Ins_After l e) as = concat (map (\<lambda>a. if a = l then [a, e] else [a]) as)"
| "op_apply (Ins_Before l e) as = concat (map (\<lambda>a. if a = l then [e, a] else [a]) as)"
| "op_apply (Rem e) as = remove1 e as"
| "op_apply Rem_Head as = tl as"
| "op_apply (Rem_After l) as = takeWhile (\<lambda>a. a \<noteq> l) as @ l # tl (tl (dropWhile (\<lambda>a. a \<noteq> l) as))"
| "op_apply (Repl e e2) as = map (\<lambda>a. if a = e then e2 else a) as"

fun op_ok :: "ptr set \<Rightarrow> list_op \<Rightarrow> ptr list \<Rightarrow> bool" where
  "op_ok us (Ins_Head e) as \<longleftrightarrow> e \<in> us - set as"
| "op_ok us (Ins_Tail e) as \<longleftrightarrow> e \<in> us - set as"
| "op_ok us (Ins_After l e) as \<longleftrightarrow> l \<in> set as \<and> e \<in> us - set as"
| "op_ok us (Ins_Before l e) as \<longleftrightarrow> l \<in> set as \<and> e \<in> us - set as"
| "op_ok us (Rem e) as \<longleftrightarrow> e \<in> set as"
| "op_ok us Rem_Head as \<longleftrightarrow> as \<noteq> []"
| "op_ok us (Rem_After l) as \<longleftrightarrow> l \<in> set as \<and> l \<noteq> last as"
| "op_ok us (Repl e e2) as \<longleftrightarrow> e \<in> set as \<and> e2 \<in> us - set as"

fun ops_ok :: "ptr set \<Rightarrow> list_op list \<Rightarrow> ptr list \<Rightarrow> bool" where
  "ops_ok us [] as \<longleftrightarrow> True"
| "ops_ok us (x # xs) as \<longleftrightarrow> op_ok us x as \<and> ops_ok us xs (op_apply x as)"

text \<open>Both on a list that is cut at the element.\<close>

lemma concat_map_other: "l \<notin> set as \<Longrightarrow> concat (map (\<lambda>a. if a = l then f a else [a]) as) = as"
  by (induction as) auto

lemma map_other: "l \<notin> set as \<Longrightarrow> map (\<lambda>a. if a = l then e else a) as = as"
  by (induction as) auto

lemma dropWhile_cut: "l \<notin> set xs \<Longrightarrow> dropWhile (\<lambda>a. a \<noteq> l) (xs @ l # ys) = l # ys"
  by (induction xs) auto

lemma takeWhile_cut: "l \<notin> set xs \<Longrightarrow> takeWhile (\<lambda>a. a \<noteq> l) (xs @ l # ys) = xs"
  by (induction xs) auto

lemma op_apply_split:
  assumes "distinct (xs @ l # ys)"
  shows "op_apply (Ins_After l e) (xs @ l # ys) = xs @ l # e # ys"
    and "op_apply (Ins_Before l e) (xs @ l # ys) = xs @ e # l # ys"
    and "op_apply (Rem l) (xs @ l # ys) = xs @ ys"
    and "op_apply (Rem_After l) (xs @ l # ys) = xs @ l # tl ys"
    and "op_apply (Repl l e) (xs @ l # ys) = xs @ e # ys"
  using assms by (simp_all add: concat_map_other map_other remove1_append takeWhile_cut dropWhile_cut)

lemma split_at:
  assumes "distinct as" and "l \<in> set as"
  obtains xs ys where "as = xs @ l # ys"
  using assms by (auto simp: in_set_conv_decomp)

text \<open>
  The contract of an implementation over the objects \<open>us\<close>: it represents a list, the operations it
  has do on it what \<open>op_apply\<close> says, and a traversal gives the list.
\<close>

locale linked =
  fixes holds :: "ptr set \<Rightarrow> mem \<Rightarrow> ptr list \<Rightarrow> bool"
    and exec :: "list_op \<Rightarrow> mem \<Rightarrow> mem res"
    and supports :: "list_op \<Rightarrow> bool"
    and traverse :: "nat \<Rightarrow> mem \<Rightarrow> ptr list res"
  assumes exec_holds: "holds us m as \<Longrightarrow> supports x \<Longrightarrow> op_ok us x as
      \<Longrightarrow> \<exists>m'. exec x m = Inr m' \<and> holds us m' (op_apply x as)"
    and traverse_holds: "holds us m as \<Longrightarrow> length as < fuel \<Longrightarrow> traverse fuel m = Inr as"
begin

lemma runs_hold:
  "holds us m as \<Longrightarrow> list_all supports ops \<Longrightarrow> ops_ok us ops as \<Longrightarrow>
   \<exists>m'. fold (\<lambda>x s. bind_res s (exec x)) ops (Inr m) = Inr m' \<and> holds us m' (fold op_apply ops as)"
proof (induction ops arbitrary: m as)
  case (Cons x ops)
  then obtain m' where "exec x m = Inr m'" "holds us m' (op_apply x as)" using exec_holds [of us m as x] by auto
  with Cons show ?case by simp
qed simp

lemma run_traverse:
  assumes "holds us m as" and "list_all supports ops" and "ops_ok us ops as" and "length (fold op_apply ops as) < fuel"
  shows "bind_res (fold (\<lambda>x s. bind_res s (exec x)) ops (Inr m)) (traverse fuel) = Inr (fold op_apply ops as)"
  using runs_hold [OF assms(1-3)] traverse_holds assms(4) by auto

end

end
