(* ===== verification/Queue_Lists.thy ===== *)
theory Queue_Lists
  imports Queue_Cells
begin

text \<open>
  The LIST macros of external/queue/queue.h: the head has the first element, an element the next
  one and the address of the cell that points to it. A macro is a function of the memory, its
  statements in the order of the macro, each access where the macro has it. They implement \<open>linked\<close>.
\<close>

section \<open>LIST\<close>

definition LIST_FIRST :: "mem \<Rightarrow> ptr \<Rightarrow> ptr res" where
  "LIST_FIRST m h = load m h"

definition LIST_EMPTY :: "mem \<Rightarrow> ptr \<Rightarrow> bool res" where
  "LIST_EMPTY m h = bind_res (LIST_FIRST m h) (\<lambda>f. Inr (f = 0))"

definition LIST_NEXT :: "ptr \<Rightarrow> mem \<Rightarrow> ptr \<Rightarrow> ptr res" where
  "LIST_NEXT off m e = get_next off m e"

definition LIST_FOREACH :: "ptr \<Rightarrow> ptr \<Rightarrow> (ptr \<Rightarrow> mem \<Rightarrow> mem res) \<Rightarrow> nat \<Rightarrow> mem \<Rightarrow> (ptr list \<times> mem) res" where
  "LIST_FOREACH off h body fuel m = bind_res (LIST_FIRST m h) (\<lambda>f. foreach (LIST_NEXT off) body fuel f m)"

definition LIST_FOREACH_SAFE :: "ptr \<Rightarrow> ptr \<Rightarrow> (ptr \<Rightarrow> mem \<Rightarrow> mem res) \<Rightarrow> nat \<Rightarrow> mem \<Rightarrow> (ptr list \<times> mem) res" where
  "LIST_FOREACH_SAFE off h body fuel m = bind_res (LIST_FIRST m h) (\<lambda>f. foreach_safe (LIST_NEXT off) body fuel f m)"

definition LIST_HEAD_INITIALIZER :: ptr where
  "LIST_HEAD_INITIALIZER = 0"

definition LIST_INIT :: "ptr \<Rightarrow> mem \<Rightarrow> mem res" where
  "LIST_INIT h m = store h 0 m"

definition LIST_INSERT_AFTER :: "ptr \<Rightarrow> ptr \<Rightarrow> ptr \<Rightarrow> mem \<Rightarrow> mem res" where
  "LIST_INSERT_AFTER off listelm elm m =
     bind_res (get_next off m listelm) (\<lambda>n.
     bind_res (set_next off elm n m) (\<lambda>m.
     bind_res (if n \<noteq> 0
               then bind_res (get_next off m listelm) (\<lambda>n. set_prev off n (next_cell off elm) m)
               else Inr m) (\<lambda>m.
     bind_res (set_next off listelm elm m) (\<lambda>m.
       set_prev off elm (next_cell off listelm) m))))"

definition LIST_INSERT_BEFORE :: "ptr \<Rightarrow> ptr \<Rightarrow> ptr \<Rightarrow> mem \<Rightarrow> mem res" where
  "LIST_INSERT_BEFORE off listelm elm m =
     bind_res (get_prev off m listelm) (\<lambda>p.
     bind_res (set_prev off elm p m) (\<lambda>m.
     bind_res (set_next off elm listelm m) (\<lambda>m.
     bind_res (get_prev off m listelm) (\<lambda>p.
     bind_res (store p elm m) (\<lambda>m.
       set_prev off listelm (next_cell off elm) m)))))"

definition LIST_INSERT_HEAD :: "ptr \<Rightarrow> ptr \<Rightarrow> ptr \<Rightarrow> mem \<Rightarrow> mem res" where
  "LIST_INSERT_HEAD off h elm m =
     bind_res (load m h) (\<lambda>f.
     bind_res (set_next off elm f m) (\<lambda>m.
     bind_res (if f \<noteq> 0
               then bind_res (load m h) (\<lambda>f. set_prev off f (next_cell off elm) m)
               else Inr m) (\<lambda>m.
     bind_res (store h elm m) (\<lambda>m.
       set_prev off elm h m))))"

definition LIST_REMOVE :: "ptr \<Rightarrow> ptr \<Rightarrow> mem \<Rightarrow> mem res" where
  "LIST_REMOVE off elm m =
     bind_res (get_next off m elm) (\<lambda>n.
     bind_res (if n \<noteq> 0
               then bind_res (get_prev off m elm) (\<lambda>p. set_prev off n p m)
               else Inr m) (\<lambda>m.
     bind_res (get_prev off m elm) (\<lambda>p.
     bind_res (get_next off m elm) (\<lambda>n.
       store p n m))))"

definition LIST_REPLACE :: "ptr \<Rightarrow> ptr \<Rightarrow> ptr \<Rightarrow> mem \<Rightarrow> mem res" where
  "LIST_REPLACE off elm elm2 m =
     bind_res (get_next off m elm) (\<lambda>n.
     bind_res (set_next off elm2 n m) (\<lambda>m.
     bind_res (if n \<noteq> 0
               then bind_res (get_next off m elm2) (\<lambda>n. set_prev off n (next_cell off elm2) m)
               else Inr m) (\<lambda>m.
     bind_res (get_prev off m elm) (\<lambda>p.
     bind_res (set_prev off elm2 p m) (\<lambda>m.
     bind_res (get_prev off m elm2) (\<lambda>p.
       store p elm2 m))))))"

text \<open>The memory holds the list \<open>as\<close> of objects of \<open>us\<close> behind the head \<open>h\<close>.\<close>

definition list_at :: "ptr \<Rightarrow> ptr \<Rightarrow> ptr set \<Rightarrow> mem \<Rightarrow> ptr list \<Rightarrow> bool" where
  "list_at off h us m as \<longleftrightarrow> held True off h [h] us m as"

definition list_exec :: "ptr \<Rightarrow> ptr \<Rightarrow> list_op \<Rightarrow> mem \<Rightarrow> mem res" where
  "list_exec off h x m =
     (case x of
        Ins_Head e \<Rightarrow> LIST_INSERT_HEAD off h e m
      | Ins_After l e \<Rightarrow> LIST_INSERT_AFTER off l e m
      | Ins_Before l e \<Rightarrow> LIST_INSERT_BEFORE off l e m
      | Rem e \<Rightarrow> LIST_REMOVE off e m
      | Repl e e2 \<Rightarrow> LIST_REPLACE off e e2 m
      | _ \<Rightarrow> Inr m)"

definition list_supports :: "list_op \<Rightarrow> bool" where
  "list_supports x = (case x of Ins_Tail e \<Rightarrow> False | Rem_Head \<Rightarrow> False | Rem_After l \<Rightarrow> False | _ \<Rightarrow> True)"

definition list_traverse :: "ptr \<Rightarrow> ptr \<Rightarrow> nat \<Rightarrow> mem \<Rightarrow> ptr list res" where
  "list_traverse off h fuel m = bind_res (LIST_FOREACH off h leave fuel m) (\<lambda>(vs, _). Inr vs)"


section \<open>LIST implements the operations on lists\<close>

lemma list_insert_head:
  assumes "list_at off h us m as" and "e \<in> us" and "e \<notin> set as"
  shows "\<exists>m'. LIST_INSERT_HEAD off h e m = Inr m' \<and> list_at off h us m' (e # as)"
proof -
  have hl: "held True off h [h] us m as" and o: "objs True m off [h] us" and h: "h \<noteq> 0" "m h = Some (hd (as @ [0]))"
    and us: "set as \<subseteq> us"
    using assms(1) path_first [of True m off h as 0] by (auto simp: list_at_def held_def)
  note e = held_cells [OF o assms(2), of h] held_back_cells [OF o assms(2), of h]
  show ?thesis
  proof (cases as)
    case Nil
    let ?m = "m(next_cell off e \<mapsto> 0, h \<mapsto> e, prev_cell off e \<mapsto> h)"
    have "LIST_INSERT_HEAD off h e m = Inr ?m" using e h Nil by (simp add: LIST_INSERT_HEAD_def link_access)
    moreover have "held True off h [h] us ?m ([] @ e # as)"
      by (rule held_insert [where m = m]) (use hl assms(2,3) e h Nil in \<open>auto simp: back_cell_def\<close>)
    ultimately show ?thesis by (simp add: list_at_def)
  next
    case (Cons a bs)
    then have a: "a \<in> us" "a \<noteq> e" using us assms(3) by auto
    note ac = held_cells [OF o a(1), of h] held_back_cells [OF o a(1), of h]
    let ?m = "m(next_cell off e \<mapsto> a, prev_cell off a \<mapsto> next_cell off e, h \<mapsto> e, prev_cell off e \<mapsto> h)"
    have "LIST_INSERT_HEAD off h e m = Inr ?m" using e ac a h Cons by (simp add: LIST_INSERT_HEAD_def link_access)
    moreover have "held True off h [h] us ?m ([] @ e # as)"
      by (rule held_insert [where m = m]) (use hl assms(2,3) e ac a h Cons in \<open>auto simp: back_cell_def\<close>)
    ultimately show ?thesis by (simp add: list_at_def)
  qed
qed


lemma list_insert_after:
  assumes "list_at off h us m (xs @ l # ys)" and "e \<in> us" and "e \<notin> set (xs @ l # ys)"
  shows "\<exists>m'. LIST_INSERT_AFTER off l e m = Inr m' \<and> list_at off h us m' (xs @ l # e # ys)"
proof -
  have hl: "held True off h [h] us m ((xs @ [l]) @ ys)" using assms(1) by (simp add: list_at_def)
  note k = held_links [OF assms(1) [unfolded list_at_def]]
  note e = held_cells [OF k(2) assms(2), of h] held_back_cells [OF k(2) assms(2), of h]
  note lc = held_cells [OF k(2,3), of h] held_back_cells [OF k(2,3), of h]
  have ne: "e \<noteq> l" "l \<noteq> e" using assms(3) by auto
  show ?thesis
  proof (cases ys)
    case Nil
    let ?m = "m(next_cell off e \<mapsto> 0, next_cell off l \<mapsto> e, prev_cell off e \<mapsto> next_cell off l)"
    have "LIST_INSERT_AFTER off l e m = Inr ?m" using assms(2) e lc k(8) ne Nil by (simp add: LIST_INSERT_AFTER_def link_access)
    moreover have "held True off h [h] us ?m ((xs @ [l]) @ e # ys)"
      by (rule held_insert [OF hl]) (use assms(2,3) e lc k(3,8) ne Nil in \<open>auto simp: back_cell_def\<close>)
    ultimately show ?thesis by (simp add: list_at_def)
  next
    case (Cons a bs)
    then have a: "a \<in> us" "a \<noteq> e" "a \<noteq> l" using k(11,13) assms(3) by auto
    note ac = held_cells [OF k(2) a(1), of h] held_back_cells [OF k(2) a(1), of h]
    let ?m = "m(next_cell off e \<mapsto> a, prev_cell off a \<mapsto> next_cell off e, next_cell off l \<mapsto> e, prev_cell off e \<mapsto> next_cell off l)"
    have "LIST_INSERT_AFTER off l e m = Inr ?m" using assms(2) e lc ac a k(8) ne Cons by (simp add: LIST_INSERT_AFTER_def link_access)
    moreover have "held True off h [h] us ?m ((xs @ [l]) @ e # ys)"
      by (rule held_insert [OF hl]) (use assms(2,3) e lc ac a k(3,8) ne Cons in \<open>auto simp: back_cell_def\<close>)
    ultimately show ?thesis by (simp add: list_at_def)
  qed
qed

lemma list_insert_before:
  assumes "list_at off h us m (xs @ l # ys)" and "e \<in> us" and "e \<notin> set (xs @ l # ys)"
  shows "\<exists>m'. LIST_INSERT_BEFORE off l e m = Inr m' \<and> list_at off h us m' (xs @ e # l # ys)"
proof -
  note k = held_links [OF assms(1) [unfolded list_at_def]]
  note e = held_cells [OF k(2) assms(2), of h] held_back_cells [OF k(2) assms(2), of h]
  note lc = held_cells [OF k(2,3), of h] held_back_cells [OF k(2,3), of h]
  have ne: "e \<noteq> l" "l \<noteq> e" "e \<notin> set xs" using assms(3) by auto
  note q = end_cells [OF k(2,1,10) assms(2)] end_cells [OF k(2,1,10) k(3)]
  let ?q = "end_of off h xs"
  let ?m = "m(prev_cell off e \<mapsto> ?q, next_cell off e \<mapsto> l, ?q \<mapsto> e, prev_cell off l \<mapsto> next_cell off e)"
  have "LIST_INSERT_BEFORE off l e m = Inr ?m" using assms(2) e lc k q ne by (simp add: LIST_INSERT_BEFORE_def link_access)
  moreover have "held True off h [h] us ?m (xs @ e # l # ys)"
    by (rule held_insert [OF assms(1) [unfolded list_at_def]]) (use assms(2,3) e lc k q ne in \<open>auto simp: back_cell_def\<close>)
  ultimately show ?thesis by (simp add: list_at_def)
qed

lemma list_remove:
  assumes "list_at off h us m (xs @ l # ys)"
  shows "\<exists>m'. LIST_REMOVE off l m = Inr m' \<and> list_at off h us m' (xs @ ys)"
proof -
  note hl = assms(1) [unfolded list_at_def]
  note k = held_links [OF hl]
  note lc = held_cells [OF k(2,3), of h] held_back_cells [OF k(2,3), of h]
  note q = end_cells [OF k(2,1,10) k(3)]
  let ?q = "end_of off h xs"
  show ?thesis
  proof (cases ys)
    case Nil
    let ?m = "m(?q \<mapsto> 0)"
    have "LIST_REMOVE off l m = Inr ?m" using lc k q Nil by (simp add: LIST_REMOVE_def link_access)
    moreover have "held True off h [h] us ?m (xs @ ys)"
      by (rule held_remove [OF hl]) (use lc k q Nil in \<open>auto simp: back_cell_def\<close>)
    ultimately show ?thesis by (simp add: list_at_def)
  next
    case (Cons a bs)
    then have a: "a \<in> us" "a \<noteq> l" "l \<noteq> a" using k(11,13) by auto
    note ac = held_cells [OF k(2) a(1), of h] held_back_cells [OF k(2) a(1), of h] end_cells [OF k(2,1,10) a(1)]
    let ?m = "m(prev_cell off a \<mapsto> ?q, ?q \<mapsto> a)"
    have "LIST_REMOVE off l m = Inr ?m" using lc k q ac a Cons by (simp add: LIST_REMOVE_def link_access)
    moreover have "held True off h [h] us ?m (xs @ ys)"
      by (rule held_remove [OF hl]) (use lc k q ac a Cons in \<open>auto simp: back_cell_def\<close>)
    ultimately show ?thesis by (simp add: list_at_def)
  qed
qed

lemma list_replace:
  assumes "list_at off h us m (xs @ l # ys)" and "e \<in> us" and "e \<notin> set (xs @ l # ys)"
  shows "\<exists>m'. LIST_REPLACE off l e m = Inr m' \<and> list_at off h us m' (xs @ e # ys)"
proof -
  note hl = assms(1) [unfolded list_at_def]
  note k = held_links [OF hl]
  note e = held_cells [OF k(2) assms(2), of h] held_back_cells [OF k(2) assms(2), of h]
  note lc = held_cells [OF k(2,3), of h] held_back_cells [OF k(2,3), of h]
  have ne: "e \<noteq> l" "l \<noteq> e" "e \<notin> set xs" using assms(3) by auto
  note q = end_cells [OF k(2,1,10) assms(2)] end_cells [OF k(2,1,10) k(3)]
  let ?q = "end_of off h xs"
  show ?thesis
  proof (cases ys)
    case Nil
    let ?m = "m(next_cell off e \<mapsto> 0, prev_cell off e \<mapsto> ?q, ?q \<mapsto> e)"
    have "LIST_REPLACE off l e m = Inr ?m" using assms(2) e lc k q ne Nil by (simp add: LIST_REPLACE_def link_access)
    moreover have "held True off h [h] us ?m (xs @ e # ys)"
      by (rule held_replace [OF hl]) (use assms(2,3) e lc k q ne Nil in \<open>auto simp: back_cell_def\<close>)
    ultimately show ?thesis by (simp add: list_at_def)
  next
    case (Cons a bs)
    then have a: "a \<in> us" "a \<noteq> l" "l \<noteq> a" "a \<noteq> e" "e \<noteq> a" using k(11,13) assms(3) by auto
    note ac = held_cells [OF k(2) a(1), of h] held_back_cells [OF k(2) a(1), of h] end_cells [OF k(2,1,10) a(1)]
    let ?m = "m(next_cell off e \<mapsto> a, prev_cell off a \<mapsto> next_cell off e, prev_cell off e \<mapsto> ?q, ?q \<mapsto> e)"
    have "LIST_REPLACE off l e m = Inr ?m" using assms(2) e lc k q ac a ne Cons by (simp add: LIST_REPLACE_def link_access)
    moreover have "held True off h [h] us ?m (xs @ e # ys)"
      by (rule held_replace [OF hl]) (use assms(2,3) e lc k q ac a ne Cons in \<open>auto simp: back_cell_def\<close>)
    ultimately show ?thesis by (simp add: list_at_def)
  qed
qed


lemma list_supports_cases:
  assumes "list_supports x"
  obtains e where "x = Ins_Head e" | l e where "x = Ins_After l e" | l e where "x = Ins_Before l e"
    | e where "x = Rem e" | e e2 where "x = Repl e e2"
  using assms by (cases x) (auto simp: list_supports_def)

interpretation bsd_list: linked "list_at off h" "list_exec off h" list_supports "list_traverse off h" for off h
proof
  fix us m as x
  assume at: "list_at off h us m as" and s: "list_supports x" and ok: "op_ok us x as"
  have d: "distinct as" using at by (simp add: list_at_def held_def)
  from s show "\<exists>m'. list_exec off h x m = Inr m' \<and> list_at off h us m' (op_apply x as)"
  proof (cases rule: list_supports_cases)
    case (1 e)
    with at ok list_insert_head show ?thesis by (simp add: list_exec_def)
  next
    case (2 l e)
    with ok have "l \<in> set as" by simp
    from split_at [OF d this] obtain xs ys where as: "as = xs @ l # ys" .
    with list_insert_after [OF at [unfolded as], of e] ok 2 d op_apply_split(1) [of xs l ys e] show ?thesis
      by (simp add: list_exec_def del: op_apply.simps)
  next
    case (3 l e)
    with ok have "l \<in> set as" by simp
    from split_at [OF d this] obtain xs ys where as: "as = xs @ l # ys" .
    with list_insert_before [OF at [unfolded as], of e] ok 3 d op_apply_split(2) [of xs l ys e] show ?thesis
      by (simp add: list_exec_def del: op_apply.simps)
  next
    case (4 l)
    with ok have "l \<in> set as" by simp
    from split_at [OF d this] obtain xs ys where as: "as = xs @ l # ys" .
    with list_remove [OF at [unfolded as]] 4 d op_apply_split(3) [of xs l ys] show ?thesis
      by (simp add: list_exec_def del: op_apply.simps)
  next
    case (5 l e)
    with ok have "l \<in> set as" by simp
    from split_at [OF d this] obtain xs ys where as: "as = xs @ l # ys" .
    with list_replace [OF at [unfolded as], of e] ok 5 d op_apply_split(5) [of xs l ys e] show ?thesis
      by (simp add: list_exec_def del: op_apply.simps)
  qed
next
  fix us m as and fuel :: nat
  assume at: "list_at off h us m as" and f: "length as < fuel"
  have p: "path True m off h as 0" using at by (simp add: list_at_def held_def)
  have "LIST_NEXT off = get_next off" by (intro ext) (simp add: LIST_NEXT_def)
  with foreach_leave [OF path_chain [OF p] f] path_first [OF p] show "list_traverse off h fuel m = Inr as"
    by (simp add: list_traverse_def LIST_FOREACH_def LIST_FIRST_def)
qed


section \<open>Heads, and freeing in a loop\<close>

lemma list_init: "objs True m off [h] us \<Longrightarrow> \<exists>m'. LIST_INIT h m = Inr m' \<and> list_at off h us m' []"
  using objs_dom [of True m off "[h]" us "m(h \<mapsto> 0)"] objs_heads [of True m off "[h]" us h]
  by (auto simp: LIST_INIT_def list_at_def held_def)

lemma list_initializer:
  "objs True m off [h] us \<Longrightarrow> m h = Some LIST_HEAD_INITIALIZER \<Longrightarrow> list_at off h us m []"
  using objs_heads [of True m off "[h]" us h] by (simp add: LIST_HEAD_INITIALIZER_def list_at_def held_def)

text \<open>
  With \<open>free\<close> as its body, the safe loop visits every element and frees it; the other loop reads the
  link of the first one after it has been freed.
\<close>

lemma list_free_all:
  assumes "list_at off h us m as" and "length as < fuel"
  shows "LIST_FOREACH_SAFE off h (free_element True off) fuel m
      = Inr (as, \<lambda>c. if c \<in> set (cells True off as) then None else m c)"
    and "as \<noteq> [] \<Longrightarrow> 1 < fuel \<Longrightarrow> LIST_FOREACH off h (free_element True off) fuel m = Inl Out_Of_Bounds"
proof -
  have p: "path True m off h as 0" and d: "distinct (h # cells True off as)"
    using assms(1) held_distinct [of True off h "[h]" us m as] by (simp_all add: list_at_def held_def)
  have n: "LIST_NEXT off = get_next off" by (intro ext) (simp add: LIST_NEXT_def)
  from path_first [OF p] have f: "LIST_FIRST m h = Inr (hd (as @ [0]))" by (simp add: LIST_FIRST_def)
  show "LIST_FOREACH_SAFE off h (free_element True off) fuel m
      = Inr (as, \<lambda>c. if c \<in> set (cells True off as) then None else m c)"
    using foreach_safe_free [OF path_chain [OF p], of True fuel] d assms(2) f n by (simp add: LIST_FOREACH_SAFE_def)
  assume "as \<noteq> []" and fuel: "1 < fuel"
  then obtain a bs where "as = a # bs" by (cases as) auto
  with foreach_free [of m off "hd (as @ [0])" a bs fuel True] path_chain [OF p] fuel f n
  show "LIST_FOREACH off h (free_element True off) fuel m = Inl Out_Of_Bounds" by (simp add: LIST_FOREACH_def)
qed

section \<open>Properties\<close>

text \<open>
  A small memory for witnesses: a head at 16 and three elements at 32, 48 and 64 with the entry at
  offset 8.
\<close>

definition demo_mem :: mem where
  "demo_mem = map_of (map (\<lambda>a. (a, 0)) [16, 20, 24, 40, 44, 56, 60, 72, 76])"

definition demo_us :: "ptr set" where
  "demo_us = {32, 48, 64}"

lemma demo_objs:
  "objs True demo_mem 8 [16] demo_us" "objs True demo_mem 8 [16, last_cell 16] demo_us"
  "objs False demo_mem 8 [16, last_cell 16] demo_us"
  by (simp_all add: objs_def demo_mem_def demo_us_def next_cell_def prev_cell_def last_cell_def)

text \<open>
  LIST: any sequence of the macros that insert, remove and replace elements does to the list in
  memory what the operations do to a list, without leaving the objects, and a traversal afterwards
  visits exactly its elements in order.
\<close>

theorem list_macros_refine:
  assumes "list_at off h us m as" and "list_all list_supports ops" and "ops_ok us ops as"
    and "length (fold op_apply ops as) < fuel"
  shows "\<exists>m'. fold (\<lambda>x s. bind_res s (list_exec off h x)) ops (Inr m) = Inr m'
    \<and> list_at off h us m' (fold op_apply ops as) \<and> list_traverse off h fuel m' = Inr (fold op_apply ops as)"
  using bsd_list.runs_hold [OF assms(1-3)] bsd_list.traverse_holds assms(4) by blast

theorem list_macros_refine_witness:
  "\<exists>m0 m'. LIST_INIT 16 demo_mem = Inr m0
    \<and> fold (\<lambda>x s. bind_res s (list_exec 8 16 x)) [Ins_Head 32, Ins_After 32 48, Ins_Before 32 64, Rem 32] (Inr m0) = Inr m'
    \<and> list_traverse 8 16 4 m' = Inr [64, 48]"
proof -
  obtain m0 where m0: "LIST_INIT 16 demo_mem = Inr m0" "list_at 8 16 demo_us m0 []" using list_init [OF demo_objs(1)] by blast
  have ops: "list_all list_supports [Ins_Head 32, Ins_After 32 48, Ins_Before 32 64, Rem 32]"
    "ops_ok demo_us [Ins_Head 32, Ins_After 32 48, Ins_Before 32 64, Rem 32] []"
    "fold op_apply [Ins_Head 32, Ins_After 32 48, Ins_Before 32 64, Rem 32] [] = [64, 48]"
    by (simp_all add: list_supports_def demo_us_def)
  from list_macros_refine [OF m0(2) ops(1,2), of 4] ops(3) m0(1) show ?thesis by auto
qed

end
