(* ===== verification/Queue_Tails.thy ===== *)
theory Queue_Tails
  imports Queue_Lists
begin

text \<open>
  The TAILQ macros of external/queue/queue.h: a doubly-linked list whose head also has the address
  of the last \<open>next\<close> cell, so that it can be extended at the end and be traversed backwards. The
  latter works by a cast: an entry begins like a head, and behind the \<open>next\<close> cell whose address is
  known lies the field that the cast calls \<open>tqh_last\<close>.
\<close>

section \<open>The macros\<close>

definition TAILQ_FIRST :: "mem \<Rightarrow> ptr \<Rightarrow> ptr res" where
  "TAILQ_FIRST m h = load m h"

definition TAILQ_NEXT :: "ptr \<Rightarrow> mem \<Rightarrow> ptr \<Rightarrow> ptr res" where
  "TAILQ_NEXT off m e = get_next off m e"

text \<open>\<open>*(((struct headname *)((head)->tqh_last))->tqh_last)\<close>\<close>

definition TAILQ_LAST :: "mem \<Rightarrow> ptr \<Rightarrow> ptr res" where
  "TAILQ_LAST m h =
     bind_res (load m (last_cell h)) (\<lambda>l.
     bind_res (bind_res (field l (last_cell l)) (load m)) (\<lambda>q.
       load m q))"

definition TAILQ_PREV :: "ptr \<Rightarrow> mem \<Rightarrow> ptr \<Rightarrow> ptr res" where
  "TAILQ_PREV off m e =
     bind_res (get_prev off m e) (\<lambda>l.
     bind_res (bind_res (field l (last_cell l)) (load m)) (\<lambda>q.
       load m q))"

definition TAILQ_EMPTY :: "mem \<Rightarrow> ptr \<Rightarrow> bool res" where
  "TAILQ_EMPTY m h = bind_res (TAILQ_FIRST m h) (\<lambda>f. Inr (f = 0))"

definition TAILQ_FOREACH :: "ptr \<Rightarrow> ptr \<Rightarrow> (ptr \<Rightarrow> mem \<Rightarrow> mem res) \<Rightarrow> nat \<Rightarrow> mem \<Rightarrow> (ptr list \<times> mem) res" where
  "TAILQ_FOREACH off h body fuel m = bind_res (TAILQ_FIRST m h) (\<lambda>f. foreach (TAILQ_NEXT off) body fuel f m)"

definition TAILQ_FOREACH_SAFE :: "ptr \<Rightarrow> ptr \<Rightarrow> (ptr \<Rightarrow> mem \<Rightarrow> mem res) \<Rightarrow> nat \<Rightarrow> mem \<Rightarrow> (ptr list \<times> mem) res" where
  "TAILQ_FOREACH_SAFE off h body fuel m = bind_res (TAILQ_FIRST m h) (\<lambda>f. foreach_safe (TAILQ_NEXT off) body fuel f m)"

definition TAILQ_FOREACH_REVERSE :: "ptr \<Rightarrow> ptr \<Rightarrow> (ptr \<Rightarrow> mem \<Rightarrow> mem res) \<Rightarrow> nat \<Rightarrow> mem \<Rightarrow> (ptr list \<times> mem) res" where
  "TAILQ_FOREACH_REVERSE off h body fuel m = bind_res (TAILQ_LAST m h) (\<lambda>f. foreach (TAILQ_PREV off) body fuel f m)"

definition TAILQ_FOREACH_REVERSE_SAFE :: "ptr \<Rightarrow> ptr \<Rightarrow> (ptr \<Rightarrow> mem \<Rightarrow> mem res) \<Rightarrow> nat \<Rightarrow> mem \<Rightarrow> (ptr list \<times> mem) res" where
  "TAILQ_FOREACH_REVERSE_SAFE off h body fuel m = bind_res (TAILQ_LAST m h) (\<lambda>f. foreach_safe (TAILQ_PREV off) body fuel f m)"

definition TAILQ_HEAD_INITIALIZER :: "ptr \<Rightarrow> ptr \<times> ptr" where
  "TAILQ_HEAD_INITIALIZER h = (0, h)"

definition TAILQ_INIT :: "ptr \<Rightarrow> mem \<Rightarrow> mem res" where
  "TAILQ_INIT h m = bind_res (store h 0 m) (\<lambda>m. store (last_cell h) h m)"

definition TAILQ_INSERT_HEAD :: "ptr \<Rightarrow> ptr \<Rightarrow> ptr \<Rightarrow> mem \<Rightarrow> mem res" where
  "TAILQ_INSERT_HEAD off h elm m =
     bind_res (load m h) (\<lambda>f.
     bind_res (set_next off elm f m) (\<lambda>m.
     bind_res (if f \<noteq> 0
               then bind_res (load m h) (\<lambda>f. set_prev off f (next_cell off elm) m)
               else store (last_cell h) (next_cell off elm) m) (\<lambda>m.
     bind_res (store h elm m) (\<lambda>m.
       set_prev off elm h m))))"

definition TAILQ_INSERT_TAIL :: "ptr \<Rightarrow> ptr \<Rightarrow> ptr \<Rightarrow> mem \<Rightarrow> mem res" where
  "TAILQ_INSERT_TAIL off h elm m =
     bind_res (set_next off elm 0 m) (\<lambda>m.
     bind_res (load m (last_cell h)) (\<lambda>l.
     bind_res (set_prev off elm l m) (\<lambda>m.
     bind_res (load m (last_cell h)) (\<lambda>l.
     bind_res (store l elm m) (\<lambda>m.
       store (last_cell h) (next_cell off elm) m)))))"

definition TAILQ_INSERT_AFTER :: "ptr \<Rightarrow> ptr \<Rightarrow> ptr \<Rightarrow> ptr \<Rightarrow> mem \<Rightarrow> mem res" where
  "TAILQ_INSERT_AFTER off h listelm elm m =
     bind_res (get_next off m listelm) (\<lambda>n.
     bind_res (set_next off elm n m) (\<lambda>m.
     bind_res (if n \<noteq> 0
               then bind_res (get_next off m elm) (\<lambda>n. set_prev off n (next_cell off elm) m)
               else store (last_cell h) (next_cell off elm) m) (\<lambda>m.
     bind_res (set_next off listelm elm m) (\<lambda>m.
       set_prev off elm (next_cell off listelm) m))))"

definition TAILQ_INSERT_BEFORE :: "ptr \<Rightarrow> ptr \<Rightarrow> ptr \<Rightarrow> mem \<Rightarrow> mem res" where
  "TAILQ_INSERT_BEFORE off listelm elm m =
     bind_res (get_prev off m listelm) (\<lambda>p.
     bind_res (set_prev off elm p m) (\<lambda>m.
     bind_res (set_next off elm listelm m) (\<lambda>m.
     bind_res (get_prev off m listelm) (\<lambda>p.
     bind_res (store p elm m) (\<lambda>m.
       set_prev off listelm (next_cell off elm) m)))))"

definition TAILQ_REMOVE :: "ptr \<Rightarrow> ptr \<Rightarrow> ptr \<Rightarrow> mem \<Rightarrow> mem res" where
  "TAILQ_REMOVE off h elm m =
     bind_res (get_next off m elm) (\<lambda>n.
     bind_res (bind_res (get_prev off m elm) (\<lambda>p.
               if n \<noteq> 0 then set_prev off n p m else store (last_cell h) p m)) (\<lambda>m.
     bind_res (get_prev off m elm) (\<lambda>p.
     bind_res (get_next off m elm) (\<lambda>n.
       store p n m))))"

definition TAILQ_REPLACE :: "ptr \<Rightarrow> ptr \<Rightarrow> ptr \<Rightarrow> ptr \<Rightarrow> mem \<Rightarrow> mem res" where
  "TAILQ_REPLACE off h elm elm2 m =
     bind_res (get_next off m elm) (\<lambda>n.
     bind_res (set_next off elm2 n m) (\<lambda>m.
     bind_res (if n \<noteq> 0
               then bind_res (get_next off m elm2) (\<lambda>n. set_prev off n (next_cell off elm2) m)
               else store (last_cell h) (next_cell off elm2) m) (\<lambda>m.
     bind_res (get_prev off m elm) (\<lambda>p.
     bind_res (set_prev off elm2 p m) (\<lambda>m.
     bind_res (get_prev off m elm2) (\<lambda>p.
       store p elm2 m))))))"

definition TAILQ_CONCAT :: "ptr \<Rightarrow> ptr \<Rightarrow> ptr \<Rightarrow> mem \<Rightarrow> mem res" where
  "TAILQ_CONCAT off h1 h2 m =
     bind_res (TAILQ_EMPTY m h2) (\<lambda>empty.
       if empty then Inr m
       else bind_res (load m (last_cell h1)) (\<lambda>l.
            bind_res (load m h2) (\<lambda>f.
            bind_res (store l f m) (\<lambda>m.
            bind_res (load m h2) (\<lambda>f.
            bind_res (load m (last_cell h1)) (\<lambda>l.
            bind_res (set_prev off f l m) (\<lambda>m.
            bind_res (load m (last_cell h2)) (\<lambda>l.
            bind_res (store (last_cell h1) l m) (\<lambda>m.
              TAILQ_INIT h2 m)))))))))"

section \<open>The queue in memory\<close>

definition tailq_at :: "ptr \<Rightarrow> ptr \<Rightarrow> ptr set \<Rightarrow> mem \<Rightarrow> ptr list \<Rightarrow> bool" where
  "tailq_at off h us m as \<longleftrightarrow> held True off h [h, last_cell h] us m as \<and> m (last_cell h) = Some (end_of off h as)"

definition tailq_exec :: "ptr \<Rightarrow> ptr \<Rightarrow> list_op \<Rightarrow> mem \<Rightarrow> mem res" where
  "tailq_exec off h x m =
     (case x of
        Ins_Head e \<Rightarrow> TAILQ_INSERT_HEAD off h e m
      | Ins_Tail e \<Rightarrow> TAILQ_INSERT_TAIL off h e m
      | Ins_After l e \<Rightarrow> TAILQ_INSERT_AFTER off h l e m
      | Ins_Before l e \<Rightarrow> TAILQ_INSERT_BEFORE off l e m
      | Rem e \<Rightarrow> TAILQ_REMOVE off h e m
      | Repl e e2 \<Rightarrow> TAILQ_REPLACE off h e e2 m
      | _ \<Rightarrow> Inr m)"

definition tailq_supports :: "list_op \<Rightarrow> bool" where
  "tailq_supports x = (case x of Rem_Head \<Rightarrow> False | Rem_After l \<Rightarrow> False | _ \<Rightarrow> True)"

definition tailq_traverse :: "ptr \<Rightarrow> ptr \<Rightarrow> nat \<Rightarrow> mem \<Rightarrow> ptr list res" where
  "tailq_traverse off h fuel m = bind_res (TAILQ_FOREACH off h leave fuel m) (\<lambda>(vs, _). Inr vs)"

lemma tailq_insert_head:
  assumes "tailq_at off h us m as" and "e \<in> us" and "e \<notin> set as"
  shows "\<exists>m'. TAILQ_INSERT_HEAD off h e m = Inr m' \<and> tailq_at off h us m' (e # as)"
proof -
  have hl: "held True off h [h, last_cell h] us m ([] @ as)" and o: "objs True m off [h, last_cell h] us"
    and h: "h \<noteq> 0" "m h = Some (hd (as @ [0]))" and us: "set as \<subseteq> us" and l: "m (last_cell h) = Some (end_of off h as)"
    using assms(1) path_first [of True m off h as 0] by (auto simp: tailq_at_def held_def)
  have hs: "h \<in> set [h, last_cell h]" "last_cell h \<in> set [h, last_cell h]" by simp_all
  note e = held_cells [OF o assms(2) hs(1)] held_back_cells [OF o assms(2) hs(1)]
    held_cells [OF o assms(2) hs(2)] held_back_cells [OF o assms(2) hs(2)] two_heads [OF o]
  show ?thesis
  proof (cases as)
    case Nil
    let ?m = "m(next_cell off e \<mapsto> 0, last_cell h \<mapsto> next_cell off e, h \<mapsto> e, prev_cell off e \<mapsto> h)"
    have "TAILQ_INSERT_HEAD off h e m = Inr ?m" using e h Nil by (simp add: TAILQ_INSERT_HEAD_def link_access)
    moreover have "held True off h [h, last_cell h] us ?m ([] @ e # as)"
      by (rule held_insert [OF hl]) (use assms(2,3) e h Nil in \<open>auto simp: back_cell_def\<close>)
    ultimately show ?thesis using Nil e by (simp add: tailq_at_def)
  next
    case (Cons a bs)
    then have a: "a \<in> us" "a \<noteq> e" using us assms(3) by auto
    note ac = held_cells [OF o a(1) hs(1)] held_back_cells [OF o a(1) hs(1)]
      held_cells [OF o a(1) hs(2)] held_back_cells [OF o a(1) hs(2)]
    let ?m = "m(next_cell off e \<mapsto> a, prev_cell off a \<mapsto> next_cell off e, h \<mapsto> e, prev_cell off e \<mapsto> h)"
    have "TAILQ_INSERT_HEAD off h e m = Inr ?m" using e ac a h Cons by (simp add: TAILQ_INSERT_HEAD_def link_access)
    moreover have "held True off h [h, last_cell h] us ?m ([] @ e # as)"
      by (rule held_insert [OF hl]) (use assms(2,3) e ac a h Cons in \<open>auto simp: back_cell_def\<close>)
    ultimately show ?thesis using Cons e ac l by (simp add: tailq_at_def)
  qed
qed


text \<open>What the other macros start from: an element \<open>l\<close> in the queue and an object \<open>e\<close> of \<open>us\<close>.\<close>

lemma tailq_cells:
  assumes "tailq_at off h us m (xs @ l # ys)" and "x \<in> us"
  shows "x \<noteq> 0" "next_cell off x \<noteq> 0" "prev_cell off x \<noteq> 0" "\<exists>v. m (next_cell off x) = Some v" "\<exists>v. m (prev_cell off x) = Some v"
    and "next_cell off x \<noteq> h" "h \<noteq> next_cell off x" "prev_cell off x \<noteq> h" "h \<noteq> prev_cell off x"
    and "next_cell off x \<noteq> last_cell h" "last_cell h \<noteq> next_cell off x" "prev_cell off x \<noteq> last_cell h" "last_cell h \<noteq> prev_cell off x"
    and "y \<in> us \<Longrightarrow> prev_cell off x \<noteq> next_cell off y" "y \<in> us \<Longrightarrow> next_cell off y \<noteq> prev_cell off x"
    and "prev_cell off x \<noteq> end_of off h xs" "end_of off h xs \<noteq> prev_cell off x"
    and "x \<notin> set xs \<Longrightarrow> next_cell off x \<noteq> end_of off h xs" "x \<notin> set xs \<Longrightarrow> end_of off h xs \<noteq> next_cell off x"
proof -
  have hl: "held True off h [h, last_cell h] us m (xs @ l # ys)" using assms(1) by (simp add: tailq_at_def)
  then have o: "objs True m off [h, last_cell h] us" and us: "set xs \<subseteq> us" by (simp_all add: held_def)
  have hs: "h \<in> set [h, last_cell h]" "last_cell h \<in> set [h, last_cell h]" by simp_all
  note facts = held_cells [OF o assms(2) hs(1)] held_back_cells [OF o assms(2) hs(1)]
    held_cells [OF o assms(2) hs(2)] held_back_cells [OF o assms(2) hs(2)] end_cells [OF o hs(1) us assms(2)]
  show "x \<noteq> 0" "next_cell off x \<noteq> 0" "prev_cell off x \<noteq> 0" "\<exists>v. m (next_cell off x) = Some v" "\<exists>v. m (prev_cell off x) = Some v"
    "next_cell off x \<noteq> h" "h \<noteq> next_cell off x" "prev_cell off x \<noteq> h" "h \<noteq> prev_cell off x"
    "next_cell off x \<noteq> last_cell h" "last_cell h \<noteq> next_cell off x" "prev_cell off x \<noteq> last_cell h" "last_cell h \<noteq> prev_cell off x"
    "y \<in> us \<Longrightarrow> prev_cell off x \<noteq> next_cell off y" "y \<in> us \<Longrightarrow> next_cell off y \<noteq> prev_cell off x"
    "prev_cell off x \<noteq> end_of off h xs" "end_of off h xs \<noteq> prev_cell off x"
    "x \<notin> set xs \<Longrightarrow> next_cell off x \<noteq> end_of off h xs" "x \<notin> set xs \<Longrightarrow> end_of off h xs \<noteq> next_cell off x"
    using facts by (simp_all add: not_None_eq)
qed

lemma tailq_links:
  assumes "tailq_at off h us m (xs @ l # ys)"
  shows "end_of off h xs \<noteq> 0" "m (end_of off h xs) = Some l" "m (prev_cell off l) = Some (end_of off h xs)"
    and "m (next_cell off l) = Some (hd (ys @ [0]))" "l \<in> us" "set ys \<subseteq> us" "l \<notin> set xs" "l \<notin> set ys" "set xs \<inter> set ys = {}"
    and "end_of off h xs \<noteq> last_cell h" "last_cell h \<noteq> end_of off h xs" "last_cell h \<noteq> 0" "\<exists>v. m (last_cell h) = Some v"
    and "h \<noteq> 0" "h \<noteq> last_cell h" "last_cell h \<noteq> h" "m (last_cell h) = Some (end_of off (next_cell off l) ys)"
proof -
  have hl: "held True off h [h, last_cell h] us m (xs @ l # ys)" using assms(1) by (simp add: tailq_at_def)
  then have o: "objs True m off [h, last_cell h] us" and us: "set xs \<subseteq> us" by (simp_all add: held_def)
  show "end_of off h xs \<noteq> 0" "m (end_of off h xs) = Some l" "m (prev_cell off l) = Some (end_of off h xs)"
    "m (next_cell off l) = Some (hd (ys @ [0]))" "l \<in> us" "set ys \<subseteq> us" "l \<notin> set xs" "l \<notin> set ys" "set xs \<inter> set ys = {}"
    "end_of off h xs \<noteq> last_cell h" "last_cell h \<noteq> end_of off h xs" "last_cell h \<noteq> 0" "\<exists>v. m (last_cell h) = Some v"
    "h \<noteq> 0" "h \<noteq> last_cell h" "last_cell h \<noteq> h" "m (last_cell h) = Some (end_of off (next_cell off l) ys)"
    using held_links [OF hl] end_not_last [OF o us] two_heads [OF o] assms by (simp_all add: tailq_at_def)
qed

lemma tailq_insert_tail:
  assumes "tailq_at off h us m as" and "e \<in> us" and "e \<notin> set as"
  shows "\<exists>m'. TAILQ_INSERT_TAIL off h e m = Inr m' \<and> tailq_at off h us m' (as @ [e])"
proof -
  have hl: "held True off h [h, last_cell h] us m (as @ [])" and o: "objs True m off [h, last_cell h] us"
    and us: "set as \<subseteq> us" and l: "m (last_cell h) = Some (end_of off h as)" "end_of off h as \<noteq> 0" "m (end_of off h as) = Some 0"
    using assms(1) path_end [of True m off h as 0] by (auto simp: tailq_at_def held_def)
  have hs: "h \<in> set [h, last_cell h]" "last_cell h \<in> set [h, last_cell h]" by simp_all
  note e = held_cells [OF o assms(2) hs(1)] held_back_cells [OF o assms(2) hs(1)]
    held_cells [OF o assms(2) hs(2)] held_back_cells [OF o assms(2) hs(2)] two_heads [OF o] end_not_last [OF o us]
    end_cells [OF o hs(1) us assms(2)]
  let ?q = "end_of off h as"
  let ?m = "m(next_cell off e \<mapsto> 0, prev_cell off e \<mapsto> ?q, ?q \<mapsto> e, last_cell h \<mapsto> next_cell off e)"
  have "TAILQ_INSERT_TAIL off h e m = Inr ?m" using assms(2,3) e l by (simp add: TAILQ_INSERT_TAIL_def link_access)
  moreover have "held True off h [h, last_cell h] us ?m (as @ e # [])"
    by (rule held_insert [OF hl]) (use assms(2,3) e l in \<open>auto simp: back_cell_def\<close>)
  ultimately show ?thesis by (simp add: tailq_at_def)
qed

lemma tailq_insert_after:
  assumes "tailq_at off h us m (xs @ l # ys)" and "e \<in> us" and "e \<notin> set (xs @ l # ys)"
  shows "\<exists>m'. TAILQ_INSERT_AFTER off h l e m = Inr m' \<and> tailq_at off h us m' (xs @ l # e # ys)"
proof -
  have hl: "held True off h [h, last_cell h] us m ((xs @ [l]) @ ys)" using assms(1) by (simp add: tailq_at_def)
  note k = tailq_links [OF assms(1)]
  note c = tailq_cells [OF assms(1,2)] tailq_cells [OF assms(1) k(5)]
  have ne: "e \<noteq> l" "l \<noteq> e" using assms(3) by auto
  show ?thesis
  proof (cases ys)
    case Nil
    let ?m = "m(next_cell off e \<mapsto> 0, last_cell h \<mapsto> next_cell off e, next_cell off l \<mapsto> e, prev_cell off e \<mapsto> next_cell off l)"
    have "TAILQ_INSERT_AFTER off h l e m = Inr ?m" using assms(2) c k ne Nil by (simp add: TAILQ_INSERT_AFTER_def link_access)
    moreover have "held True off h [h, last_cell h] us ?m ((xs @ [l]) @ e # ys)"
      by (rule held_insert [OF hl]) (use assms(2,3) c k ne Nil in \<open>auto simp: back_cell_def\<close>)
    ultimately show ?thesis using Nil c by (simp add: tailq_at_def)
  next
    case (Cons a bs)
    then have a: "a \<in> us" "a \<noteq> e" "a \<noteq> l" using k(6,8) assms(3) by auto
    note ac = tailq_cells [OF assms(1) a(1)]
    let ?m = "m(next_cell off e \<mapsto> a, prev_cell off a \<mapsto> next_cell off e, next_cell off l \<mapsto> e, prev_cell off e \<mapsto> next_cell off l)"
    have "TAILQ_INSERT_AFTER off h l e m = Inr ?m" using assms(2) c ac a k ne Cons by (simp add: TAILQ_INSERT_AFTER_def link_access)
    moreover have "held True off h [h, last_cell h] us ?m ((xs @ [l]) @ e # ys)"
      by (rule held_insert [OF hl]) (use assms(2,3) c ac a k ne Cons in \<open>auto simp: back_cell_def\<close>)
    ultimately show ?thesis using Cons c ac k by (simp add: tailq_at_def)
  qed
qed


lemma tailq_insert_before:
  assumes "tailq_at off h us m (xs @ l # ys)" and "e \<in> us" and "e \<notin> set (xs @ l # ys)"
  shows "\<exists>m'. TAILQ_INSERT_BEFORE off l e m = Inr m' \<and> tailq_at off h us m' (xs @ e # l # ys)"
proof -
  have hl: "held True off h [h, last_cell h] us m (xs @ l # ys)" using assms(1) by (simp add: tailq_at_def)
  note k = tailq_links [OF assms(1)]
  note c = tailq_cells [OF assms(1,2)] tailq_cells [OF assms(1) k(5)]
  have ne: "e \<noteq> l" "l \<noteq> e" "e \<notin> set xs" using assms(3) by auto
  let ?q = "end_of off h xs"
  let ?m = "m(prev_cell off e \<mapsto> ?q, next_cell off e \<mapsto> l, ?q \<mapsto> e, prev_cell off l \<mapsto> next_cell off e)"
  have "TAILQ_INSERT_BEFORE off l e m = Inr ?m" using assms(2) c k ne by (simp add: TAILQ_INSERT_BEFORE_def link_access)
  moreover have "held True off h [h, last_cell h] us ?m (xs @ e # l # ys)"
    by (rule held_insert [OF hl]) (use assms(2,3) c k ne in \<open>auto simp: back_cell_def\<close>)
  ultimately show ?thesis using c k by (simp add: tailq_at_def)
qed

lemma tailq_remove:
  assumes "tailq_at off h us m (xs @ l # ys)"
  shows "\<exists>m'. TAILQ_REMOVE off h l m = Inr m' \<and> tailq_at off h us m' (xs @ ys)"
proof -
  have hl: "held True off h [h, last_cell h] us m (xs @ l # ys)" using assms(1) by (simp add: tailq_at_def)
  note k = tailq_links [OF assms(1)]
  note c = tailq_cells [OF assms(1) k(5)]
  let ?q = "end_of off h xs"
  show ?thesis
  proof (cases ys)
    case Nil
    let ?m = "m(last_cell h \<mapsto> ?q, ?q \<mapsto> 0)"
    have "TAILQ_REMOVE off h l m = Inr ?m" using c k Nil by (simp add: TAILQ_REMOVE_def link_access)
    moreover have "held True off h [h, last_cell h] us ?m (xs @ ys)"
      by (rule held_remove [OF hl]) (use c k Nil in \<open>auto simp: back_cell_def\<close>)
    ultimately show ?thesis using Nil k by (simp add: tailq_at_def)
  next
    case (Cons a bs)
    then have a: "a \<in> us" "a \<noteq> l" "l \<noteq> a" using k(6,8) by auto
    note ac = tailq_cells [OF assms(1) a(1)]
    let ?m = "m(prev_cell off a \<mapsto> ?q, ?q \<mapsto> a)"
    have "a \<noteq> 0" using ac by simp
    then have "TAILQ_REMOVE off h l m = Inr ?m" using c ac a k Cons by (simp add: TAILQ_REMOVE_def link_access)
    moreover have "held True off h [h, last_cell h] us ?m (xs @ ys)"
      by (rule held_remove [OF hl]) (use c ac a k Cons in \<open>auto simp: back_cell_def\<close>)
    ultimately show ?thesis using Cons k ac by (simp add: tailq_at_def)
  qed
qed

lemma tailq_replace:
  assumes "tailq_at off h us m (xs @ l # ys)" and "e \<in> us" and "e \<notin> set (xs @ l # ys)"
  shows "\<exists>m'. TAILQ_REPLACE off h l e m = Inr m' \<and> tailq_at off h us m' (xs @ e # ys)"
proof -
  have hl: "held True off h [h, last_cell h] us m (xs @ l # ys)" using assms(1) by (simp add: tailq_at_def)
  note k = tailq_links [OF assms(1)]
  note c = tailq_cells [OF assms(1,2)] tailq_cells [OF assms(1) k(5)]
  have ne: "e \<noteq> l" "l \<noteq> e" "e \<notin> set xs" using assms(3) by auto
  let ?q = "end_of off h xs"
  show ?thesis
  proof (cases ys)
    case Nil
    let ?m = "m(next_cell off e \<mapsto> 0, last_cell h \<mapsto> next_cell off e, prev_cell off e \<mapsto> ?q, ?q \<mapsto> e)"
    have "TAILQ_REPLACE off h l e m = Inr ?m" using assms(2) c k ne Nil by (simp add: TAILQ_REPLACE_def link_access)
    moreover have "held True off h [h, last_cell h] us ?m (xs @ e # ys)"
      by (rule held_replace [OF hl]) (use assms(2,3) c k ne Nil in \<open>auto simp: back_cell_def\<close>)
    ultimately show ?thesis using Nil c k by (simp add: tailq_at_def)
  next
    case (Cons a bs)
    then have a: "a \<in> us" "a \<noteq> l" "l \<noteq> a" "a \<noteq> e" "e \<noteq> a" using k(6,8) assms(3) by auto
    note ac = tailq_cells [OF assms(1) a(1)]
    let ?m = "m(next_cell off e \<mapsto> a, prev_cell off a \<mapsto> next_cell off e, prev_cell off e \<mapsto> ?q, ?q \<mapsto> e)"
    have "TAILQ_REPLACE off h l e m = Inr ?m" using assms(2) c ac a k ne Cons by (simp add: TAILQ_REPLACE_def link_access)
    moreover have "held True off h [h, last_cell h] us ?m (xs @ e # ys)"
      by (rule held_replace [OF hl]) (use assms(2,3) c ac a k ne Cons in \<open>auto simp: back_cell_def\<close>)
    ultimately show ?thesis using Cons c ac k by (simp add: tailq_at_def)
  qed
qed

section \<open>Traversal, also backwards\<close>

lemma tailq_foreach_leave:
  assumes "tailq_at off h us m as" and "length as < fuel"
  shows "TAILQ_FOREACH off h leave fuel m = Inr (as, m)"
proof -
  have p: "path True m off h as 0" using assms(1) by (simp add: tailq_at_def held_def)
  have "TAILQ_NEXT off = get_next off" by (intro ext) (simp add: TAILQ_NEXT_def)
  with foreach_leave [OF path_chain [OF p] assms(2)] path_first [OF p] show ?thesis
    by (simp add: TAILQ_FOREACH_def TAILQ_FIRST_def)
qed

text \<open>
  One step back: the field read through the cast belongs to the entry before, or to the head,
  where it leads to the last \<open>next\<close> cell, which is NULL.
\<close>

definition last_or_0 :: "ptr list \<Rightarrow> ptr" where
  "last_or_0 as = (if as = [] then 0 else last as)"

lemma step_back:
  assumes "tailq_at off h us m (xs @ ys)"
  shows "bind_res (bind_res (field (end_of off h xs) (last_cell (end_of off h xs))) (load m)) (load m) = Inr (last_or_0 xs)"
proof (cases xs rule: rev_cases)
  case Nil
  have p: "path True m off h ys 0" and o: "objs True m off [h, last_cell h] us" and l: "m (last_cell h) = Some (end_of off h ys)"
    using assms Nil by (simp_all add: tailq_at_def held_def)
  from path_end [OF p] two_heads [OF o] l Nil show ?thesis by (simp add: last_or_0_def)
next
  case (snoc zs z)
  with assms have at: "tailq_at off h us m (zs @ z # ys)" by simp
  note k = tailq_links [OF at]
  note c = tailq_cells [OF at k(5)]
  from k c snoc show ?thesis by (simp add: last_or_0_def)
qed

lemma TAILQ_LAST_at: "tailq_at off h us m as \<Longrightarrow> TAILQ_LAST m h = Inr (last_or_0 as)"
  using step_back [of off h us m as "[]"] two_heads [of True m off h us]
  by (auto simp: TAILQ_LAST_def tailq_at_def held_def)

lemma TAILQ_PREV_at: "tailq_at off h us m (xs @ l # ys) \<Longrightarrow> TAILQ_PREV off m l = Inr (last_or_0 xs)"
  using step_back [of off h us m xs "l # ys"] tailq_links [of off h us m xs l ys] tailq_cells [of off h us m xs l ys l]
  by (simp add: TAILQ_PREV_def link_access)

lemma tailq_foreach_reverse:
  assumes "tailq_at off h us m as" and "length as < fuel"
  shows "TAILQ_FOREACH_REVERSE off h leave fuel m = Inr (rev as, m)"
proof -
  have "foreach (TAILQ_PREV off) leave n (last_or_0 xs) m = Inr (rev xs, m)"
    if "tailq_at off h us m (xs @ ys)" "length xs < n" for n xs ys
    using that
  proof (induction xs arbitrary: ys n rule: rev_induct)
    case Nil
    then show ?case by (cases n) (auto simp: last_or_0_def)
  next
    case (snoc z zs)
    then obtain k where n: "n = Suc k" by (cases n) auto
    have at: "tailq_at off h us m (zs @ z # ys)" using snoc.prems(1) by simp
    have "z \<noteq> 0" using tailq_cells(1) [OF at tailq_links(5) [OF at]] .
    with snoc.IH [OF at, of k] snoc.prems(2) n TAILQ_PREV_at [OF at] show ?case
      by (simp add: last_or_0_def leave_def)
  qed
  from this [of as "[]" fuel] assms TAILQ_LAST_at [OF assms(1)] show ?thesis
    by (simp add: TAILQ_FOREACH_REVERSE_def)
qed

lemma tailq_supports_cases:
  assumes "tailq_supports x"
  obtains e where "x = Ins_Head e" | e where "x = Ins_Tail e" | l e where "x = Ins_After l e" | l e where "x = Ins_Before l e"
    | e where "x = Rem e" | e e2 where "x = Repl e e2"
  using assms by (cases x) (auto simp: tailq_supports_def)

interpretation bsd_tailq: linked "tailq_at off h" "tailq_exec off h" tailq_supports "tailq_traverse off h" for off h
proof
  fix us m as x
  assume at: "tailq_at off h us m as" and s: "tailq_supports x" and ok: "op_ok us x as"
  have d: "distinct as" using at by (simp add: tailq_at_def held_def)
  from s show "\<exists>m'. tailq_exec off h x m = Inr m' \<and> tailq_at off h us m' (op_apply x as)"
  proof (cases rule: tailq_supports_cases)
    case (1 e)
    with at ok tailq_insert_head show ?thesis by (simp add: tailq_exec_def)
  next
    case (2 e)
    with at ok tailq_insert_tail show ?thesis by (simp add: tailq_exec_def)
  next
    case (3 l e)
    with ok have "l \<in> set as" by simp
    from split_at [OF d this] obtain xs ys where as: "as = xs @ l # ys" .
    with tailq_insert_after [OF at [unfolded as], of e] ok 3 d op_apply_split(1) [of xs l ys e] show ?thesis
      by (simp add: tailq_exec_def del: op_apply.simps)
  next
    case (4 l e)
    with ok have "l \<in> set as" by simp
    from split_at [OF d this] obtain xs ys where as: "as = xs @ l # ys" .
    with tailq_insert_before [OF at [unfolded as], of e] ok 4 d op_apply_split(2) [of xs l ys e] show ?thesis
      by (simp add: tailq_exec_def del: op_apply.simps)
  next
    case (5 l)
    with ok have "l \<in> set as" by simp
    from split_at [OF d this] obtain xs ys where as: "as = xs @ l # ys" .
    with tailq_remove [OF at [unfolded as]] 5 d op_apply_split(3) [of xs l ys] show ?thesis
      by (simp add: tailq_exec_def del: op_apply.simps)
  next
    case (6 l e)
    with ok have "l \<in> set as" by simp
    from split_at [OF d this] obtain xs ys where as: "as = xs @ l # ys" .
    with tailq_replace [OF at [unfolded as], of e] ok 6 d op_apply_split(5) [of xs l ys e] show ?thesis
      by (simp add: tailq_exec_def del: op_apply.simps)
  qed
next
  fix us m as and fuel :: nat
  assume "tailq_at off h us m as" and "length as < fuel"
  with tailq_foreach_leave show "tailq_traverse off h fuel m = Inr as" by (simp add: tailq_traverse_def)
qed


section \<open>Concatenation\<close>

lemma TAILQ_CONCAT_empty: "tailq_at off h2 us m [] \<Longrightarrow> TAILQ_CONCAT off h1 h2 m = Inr m"
  by (auto simp: TAILQ_CONCAT_def TAILQ_EMPTY_def TAILQ_FIRST_def tailq_at_def held_def)

lemma tailq_concat:
  assumes "tailq_at off h1 us m as" and "tailq_at off h2 us m bs" and "set as \<inter> set bs = {}"
    and "objs True m off [h1, last_cell h1, h2, last_cell h2] us"
  shows "\<exists>m'. TAILQ_CONCAT off h1 h2 m = Inr m' \<and> tailq_at off h1 us m' (as @ bs) \<and> tailq_at off h2 us m' []"
proof (cases bs)
  case Nil
  with assms(1,2) TAILQ_CONCAT_empty show ?thesis by fastforce
next
  case (Cons b cs)
  let ?q = "end_of off h1 as" and ?l = "end_of off (next_cell off b) cs"
  have p1: "path True m off h1 as 0" and us1: "set as \<subseteq> us" "distinct as" and o1: "objs True m off [h1, last_cell h1] us"
    and l1: "m (last_cell h1) = Some ?q" using assms(1) by (simp_all add: tailq_at_def held_def)
  have p2: "path True m off h2 (b # cs) 0" and us2: "b \<in> us" "set cs \<subseteq> us" "b \<notin> set cs" "distinct cs"
    and o2: "objs True m off [h2, last_cell h2] us" and l2: "m (last_cell h2) = Some ?l"
    using assms(2) Cons by (simp_all add: tailq_at_def held_def)
  have dis: "b \<notin> set as" "set cs \<inter> set as = {}" using assms(3) Cons by auto
  have heads: "h1 \<noteq> 0" "last_cell h1 \<noteq> 0" "h2 \<noteq> 0" "last_cell h2 \<noteq> 0" "h1 \<noteq> last_cell h1" "h1 \<noteq> h2" "h1 \<noteq> last_cell h2"
    "last_cell h1 \<noteq> h2" "last_cell h1 \<noteq> last_cell h2" "h2 \<noteq> last_cell h2"
    and alloc: "\<exists>v. m h1 = Some v" "\<exists>v. m (last_cell h1) = Some v" "\<exists>v. m h2 = Some v" "\<exists>v. m (last_cell h2) = Some v"
    using assms(4) by (auto simp: objs_def)
  have apart: "next_cell off x \<notin> {h1, last_cell h1, h2, last_cell h2}" "prev_cell off x \<notin> {h1, last_cell h1, h2, last_cell h2}"
    "y \<in> us \<Longrightarrow> next_cell off x \<noteq> prev_cell off y" "y \<in> us \<Longrightarrow> prev_cell off y \<noteq> next_cell off x" if "x \<in> us" for x y
    using objs_next [OF assms(4) that] objs_prev(1-3) [OF assms(4) that] objs_prev(4,5) [OF assms(4), of y x] that by auto
  have q: "?q \<noteq> 0" "m ?q = Some 0" using path_end [OF p1] by simp_all
  have b_in: "b \<in> us" and cs_in: "x \<in> set cs \<Longrightarrow> x \<in> us" for x using us2 by auto
  have q_head: "?q \<notin> {last_cell h1, h2, last_cell h2}"
    using heads apart(1) by (cases rule: end_of_cases [OF us1(1), of off h1]) auto
  have q_next: "?q \<noteq> next_cell off x" if "x \<in> us" "x \<notin> set as" for x
    using apart(1) [OF that(1)] that(2) by (cases rule: end_of_cases [OF us1(1), of off h1]) auto
  have q_prev: "?q \<noteq> prev_cell off x" if "x \<in> us" for x
    using apart(2) [OF that] apart(3) [OF _ that] by (cases rule: end_of_cases [OF us1(1), of off h1]) auto
  note q_cells = q_next [OF b_in dis(1)] q_prev [OF b_in]
  have q_cs: "?q \<noteq> next_cell off x" "?q \<noteq> prev_cell off x" if "x \<in> set cs" for x
    using q_next [of x] q_prev [of x] that cs_in dis(2) by auto
  have b: "b \<noteq> 0" "next_cell off b \<noteq> 0" "prev_cell off b \<noteq> 0" "\<exists>v. m (prev_cell off b) = Some v" "m h2 = Some b"
    using p2 path_first [of True m off "next_cell off b" cs 0] by auto
  let ?m = "m(?q \<mapsto> b, prev_cell off b \<mapsto> ?q, last_cell h1 \<mapsto> ?l, h2 \<mapsto> 0, last_cell h2 \<mapsto> h2)"
  have flip: "last_cell h1 \<noteq> ?q" "last_cell h2 \<noteq> ?q" "h2 \<noteq> ?q" "last_cell h1 \<noteq> prev_cell off b"
    "last_cell h2 \<noteq> prev_cell off b" "h2 \<noteq> prev_cell off b"
    using q_head apart(2) [OF b_in] by auto
  have run: "TAILQ_CONCAT off h1 h2 m = Inr ?m"
    using heads alloc q q_head q_cells b l1 l2 apart [OF us2(1)] flip
    by (simp add: TAILQ_CONCAT_def TAILQ_EMPTY_def TAILQ_FIRST_def TAILQ_INIT_def link_access)
  have d: "dom ?m = dom m" using alloc q b by auto
  have keep: "?m c = m c" if "c \<in> insert (next_cell off b) (set (cells True off cs))" for c
  proof -
    have "c \<notin> {?q, prev_cell off b, last_cell h1, h2, last_cell h2}"
    proof (cases "c = next_cell off b")
      case True
      with q_cells apart(1,2) [OF b_in] apart(3,4) [OF b_in b_in] show ?thesis by auto
    next
      case False
      with that obtain x where x: "x \<in> set cs" "c = next_cell off x \<or> c = prev_cell off x" by (auto simp: cells_set)
      with apart(1,2) [OF cs_in [OF x(1)]] apart(3,4) [OF cs_in [OF x(1)] b_in] q_cs [OF x(1)] us2(3) show ?thesis by auto
    qed
    then show ?thesis by simp
  qed
  have "path True ?m off h1 as b"
  proof (rule path_retarget [where m' = ?m, OF p1])
    show "distinct (h1 # cells True off as)" using o1 us1 by (intro objs_distinct [OF o1]) simp_all
    show "?m ?q = Some b" using q_head q_cells by simp
    show "?m c = m c" if "c \<in> insert h1 (set (cells True off as))" "c \<noteq> ?q" for c
    proof -
      have "c \<notin> {prev_cell off b, last_cell h1, h2, last_cell h2}"
      proof (cases "c = h1")
        case True
        with heads apart(2) [OF b_in] show ?thesis by auto
      next
        case False
        with that(1) obtain x where x: "x \<in> set as" "c = next_cell off x \<or> c = prev_cell off x" by (auto simp: cells_set)
        then have "x \<in> us" using us1 by auto
        with apart(1,2) [OF this] apart(3,4) [OF this b_in] x dis show ?thesis by auto
      qed
      with that(2) show ?thesis by simp
    qed
  qed
  moreover have "path True ?m off (next_cell off b) cs 0"
    using p2 path_cong [of "next_cell off b" True off cs ?m m 0] keep by simp
  ultimately have "path True ?m off h1 (as @ bs) 0"
    using Cons b q q_head q_cells apart [OF us2(1)] by (simp add: path_append)
  then have "held True off h1 [h1, last_cell h1] us ?m (as @ bs)"
    using objs_dom [OF o1 d] us1 us2 dis Cons by (auto simp: held_def)
  moreover have "held True off h2 [h2, last_cell h2] us ?m []" using objs_dom [OF o2 d] heads by (simp add: held_def)
  ultimately show ?thesis using run heads Cons by (simp add: tailq_at_def)
qed


lemma tailq_init:
  assumes "objs True m off [h, last_cell h] us"
  shows "\<exists>m'. TAILQ_INIT h m = Inr m' \<and> tailq_at off h us m' []"
proof -
  note t = two_heads [OF assms]
  let ?m = "m(h \<mapsto> 0, last_cell h \<mapsto> h)"
  have d: "dom ?m = dom m" using t by auto
  have "TAILQ_INIT h m = Inr ?m" using t by (simp add: TAILQ_INIT_def)
  with t objs_dom [OF assms d] show ?thesis by (simp add: tailq_at_def held_def)
qed

lemma tailq_initializer:
  assumes "objs True m off [h, last_cell h] us" and "(m h, m (last_cell h)) = map_prod Some Some (TAILQ_HEAD_INITIALIZER h)"
  shows "tailq_at off h us m []"
  using assms two_heads [OF assms(1)] by (simp add: TAILQ_HEAD_INITIALIZER_def tailq_at_def held_def)

section \<open>Properties\<close>

text \<open>
  C19. TAILQ: any sequence of the macros that insert, remove and replace elements does to the queue
  in memory what the operations do to a list, without leaving the objects; a traversal afterwards
  visits exactly its elements in order, and the traversal backwards, which reads entries as if they
  were heads, visits them in the opposite order.
\<close>

theorem tailq_macros_refine:
  assumes "tailq_at off h us m as" and "list_all tailq_supports ops" and "ops_ok us ops as"
    and "length (fold op_apply ops as) < fuel"
  shows "\<exists>m'. fold (\<lambda>x s. bind_res s (tailq_exec off h x)) ops (Inr m) = Inr m'
    \<and> tailq_at off h us m' (fold op_apply ops as)
    \<and> TAILQ_FOREACH off h leave fuel m' = Inr (fold op_apply ops as, m')
    \<and> TAILQ_FOREACH_REVERSE off h leave fuel m' = Inr (rev (fold op_apply ops as), m')"
  using bsd_tailq.runs_hold [OF assms(1-3)] tailq_foreach_leave tailq_foreach_reverse assms(4) by blast

theorem tailq_macros_refine_witness:
  "\<exists>m0 m'. TAILQ_INIT 16 demo_mem = Inr m0
    \<and> fold (\<lambda>x s. bind_res s (tailq_exec 8 16 x)) [Ins_Tail 32, Ins_Tail 48, Rem 48, Ins_Tail 64] (Inr m0) = Inr m'
    \<and> TAILQ_FOREACH_REVERSE 8 16 leave 4 m' = Inr ([64, 32], m')"
proof -
  obtain m0 where m0: "TAILQ_INIT 16 demo_mem = Inr m0" "tailq_at 8 16 demo_us m0 []" using tailq_init [OF demo_objs(2)] by blast
  have ops: "list_all tailq_supports [Ins_Tail 32, Ins_Tail 48, Rem 48, Ins_Tail 64]"
    "ops_ok demo_us [Ins_Tail 32, Ins_Tail 48, Rem 48, Ins_Tail 64] []"
    "fold op_apply [Ins_Tail 32, Ins_Tail 48, Rem 48, Ins_Tail 64] [] = [32, 64]"
    by (simp_all add: tailq_supports_def demo_us_def)
  from tailq_macros_refine [OF m0(2) ops(1,2), of 4] ops(3) m0(1) show ?thesis by auto
qed

end
