(* ===== verification/Queue_Simple.thy ===== *)
theory Queue_Simple
  imports Queue_Cells
begin

text \<open>
  The singly-linked queues of external/queue/queue.h. SIMPLEQ has the first element and the address
  of the last \<open>next\<close> cell in its head. XSIMPLEQ has a random cookie there and keeps every pointer
  XORed with it: undoing the XOR in every cell but the cookie's (\<open>unmask\<close>) turns each of its macros
  into the SIMPLEQ macro, from which it inherits what holds of that. Both implement \<open>linked\<close>.
\<close>

section \<open>SIMPLEQ\<close>

definition SIMPLEQ_FIRST :: "mem \<Rightarrow> ptr \<Rightarrow> ptr res" where
  "SIMPLEQ_FIRST m h = load m h"

definition SIMPLEQ_EMPTY :: "mem \<Rightarrow> ptr \<Rightarrow> bool res" where
  "SIMPLEQ_EMPTY m h = bind_res (SIMPLEQ_FIRST m h) (\<lambda>f. Inr (f = 0))"

definition SIMPLEQ_NEXT :: "ptr \<Rightarrow> mem \<Rightarrow> ptr \<Rightarrow> ptr res" where
  "SIMPLEQ_NEXT off m e = get_next off m e"

definition SIMPLEQ_FOREACH :: "ptr \<Rightarrow> ptr \<Rightarrow> (ptr \<Rightarrow> mem \<Rightarrow> mem res) \<Rightarrow> nat \<Rightarrow> mem \<Rightarrow> (ptr list \<times> mem) res" where
  "SIMPLEQ_FOREACH off h body fuel m = bind_res (SIMPLEQ_FIRST m h) (\<lambda>f. foreach (SIMPLEQ_NEXT off) body fuel f m)"

definition SIMPLEQ_FOREACH_SAFE :: "ptr \<Rightarrow> ptr \<Rightarrow> (ptr \<Rightarrow> mem \<Rightarrow> mem res) \<Rightarrow> nat \<Rightarrow> mem \<Rightarrow> (ptr list \<times> mem) res" where
  "SIMPLEQ_FOREACH_SAFE off h body fuel m = bind_res (SIMPLEQ_FIRST m h) (\<lambda>f. foreach_safe (SIMPLEQ_NEXT off) body fuel f m)"

definition SIMPLEQ_HEAD_INITIALIZER :: "ptr \<Rightarrow> ptr \<times> ptr" where
  "SIMPLEQ_HEAD_INITIALIZER h = (0, h)"

definition SIMPLEQ_INIT :: "ptr \<Rightarrow> mem \<Rightarrow> mem res" where
  "SIMPLEQ_INIT h m = bind_res (store h 0 m) (\<lambda>m. store (last_cell h) h m)"

definition SIMPLEQ_INSERT_HEAD :: "ptr \<Rightarrow> ptr \<Rightarrow> ptr \<Rightarrow> mem \<Rightarrow> mem res" where
  "SIMPLEQ_INSERT_HEAD off h elm m =
     bind_res (load m h) (\<lambda>f.
     bind_res (set_next off elm f m) (\<lambda>m.
     bind_res (if f = 0 then store (last_cell h) (next_cell off elm) m else Inr m) (\<lambda>m.
       store h elm m)))"

definition SIMPLEQ_INSERT_TAIL :: "ptr \<Rightarrow> ptr \<Rightarrow> ptr \<Rightarrow> mem \<Rightarrow> mem res" where
  "SIMPLEQ_INSERT_TAIL off h elm m =
     bind_res (set_next off elm 0 m) (\<lambda>m.
     bind_res (load m (last_cell h)) (\<lambda>l.
     bind_res (store l elm m) (\<lambda>m.
       store (last_cell h) (next_cell off elm) m)))"

definition SIMPLEQ_INSERT_AFTER :: "ptr \<Rightarrow> ptr \<Rightarrow> ptr \<Rightarrow> ptr \<Rightarrow> mem \<Rightarrow> mem res" where
  "SIMPLEQ_INSERT_AFTER off h listelm elm m =
     bind_res (get_next off m listelm) (\<lambda>n.
     bind_res (set_next off elm n m) (\<lambda>m.
     bind_res (if n = 0 then store (last_cell h) (next_cell off elm) m else Inr m) (\<lambda>m.
       set_next off listelm elm m)))"

definition SIMPLEQ_REMOVE_HEAD :: "ptr \<Rightarrow> ptr \<Rightarrow> mem \<Rightarrow> mem res" where
  "SIMPLEQ_REMOVE_HEAD off h m =
     bind_res (load m h) (\<lambda>f.
     bind_res (get_next off m f) (\<lambda>n.
     bind_res (store h n m) (\<lambda>m.
       if n = 0 then store (last_cell h) h m else Inr m)))"

definition SIMPLEQ_REMOVE_AFTER :: "ptr \<Rightarrow> ptr \<Rightarrow> ptr \<Rightarrow> mem \<Rightarrow> mem res" where
  "SIMPLEQ_REMOVE_AFTER off h elm m =
     bind_res (get_next off m elm) (\<lambda>n.
     bind_res (get_next off m n) (\<lambda>n2.
     bind_res (set_next off elm n2 m) (\<lambda>m.
       if n2 = 0 then store (last_cell h) (next_cell off elm) m else Inr m)))"

definition SIMPLEQ_CONCAT :: "ptr \<Rightarrow> ptr \<Rightarrow> mem \<Rightarrow> mem res" where
  "SIMPLEQ_CONCAT h1 h2 m =
     bind_res (SIMPLEQ_EMPTY m h2) (\<lambda>empty.
       if empty then Inr m
       else bind_res (load m (last_cell h1)) (\<lambda>l.
            bind_res (load m h2) (\<lambda>f.
            bind_res (store l f m) (\<lambda>m.
            bind_res (load m (last_cell h2)) (\<lambda>l.
            bind_res (store (last_cell h1) l m) (\<lambda>m.
              SIMPLEQ_INIT h2 m))))))"

definition simpleq_at :: "ptr \<Rightarrow> ptr \<Rightarrow> ptr set \<Rightarrow> mem \<Rightarrow> ptr list \<Rightarrow> bool" where
  "simpleq_at off h us m as \<longleftrightarrow> held False off h [h, last_cell h] us m as \<and> m (last_cell h) = Some (end_of off h as)"

definition simpleq_exec :: "ptr \<Rightarrow> ptr \<Rightarrow> list_op \<Rightarrow> mem \<Rightarrow> mem res" where
  "simpleq_exec off h x m =
     (case x of
        Ins_Head e \<Rightarrow> SIMPLEQ_INSERT_HEAD off h e m
      | Ins_Tail e \<Rightarrow> SIMPLEQ_INSERT_TAIL off h e m
      | Ins_After l e \<Rightarrow> SIMPLEQ_INSERT_AFTER off h l e m
      | Rem_Head \<Rightarrow> SIMPLEQ_REMOVE_HEAD off h m
      | Rem_After l \<Rightarrow> SIMPLEQ_REMOVE_AFTER off h l m
      | _ \<Rightarrow> Inr m)"

definition simpleq_supports :: "list_op \<Rightarrow> bool" where
  "simpleq_supports x = (case x of Ins_Before l e \<Rightarrow> False | Rem e \<Rightarrow> False | Repl e e2 \<Rightarrow> False | _ \<Rightarrow> True)"

definition simpleq_traverse :: "ptr \<Rightarrow> ptr \<Rightarrow> nat \<Rightarrow> mem \<Rightarrow> ptr list res" where
  "simpleq_traverse off h fuel m = bind_res (SIMPLEQ_FOREACH off h leave fuel m) (\<lambda>(vs, _). Inr vs)"

section \<open>SIMPLEQ implements the operations on lists\<close>

lemma simpleq_links:
  assumes "simpleq_at off h us m as"
  shows "h \<noteq> 0" "last_cell h \<noteq> 0" "h \<noteq> last_cell h" "last_cell h \<noteq> h" "\<exists>v. m (last_cell h) = Some v"
    and "m h = Some (hd (as @ [0]))" "set as \<subseteq> us" "distinct as" "held False off h [h, last_cell h] us m as"
    and "m (last_cell h) = Some (end_of off h as)" "end_of off h as \<noteq> 0" "m (end_of off h as) = Some 0"
    and "end_of off h as \<noteq> last_cell h" "last_cell h \<noteq> end_of off h as"
    and "x \<in> us \<Longrightarrow> x \<noteq> 0" "x \<in> us \<Longrightarrow> next_cell off x \<noteq> 0" "x \<in> us \<Longrightarrow> \<exists>v. m (next_cell off x) = Some v"
    and "x \<in> us \<Longrightarrow> next_cell off x \<noteq> h" "x \<in> us \<Longrightarrow> h \<noteq> next_cell off x"
    and "x \<in> us \<Longrightarrow> next_cell off x \<noteq> last_cell h" "x \<in> us \<Longrightarrow> last_cell h \<noteq> next_cell off x"
    and "x \<in> us \<Longrightarrow> x \<notin> set as \<Longrightarrow> end_of off h as \<noteq> next_cell off x"
    and "x \<in> us \<Longrightarrow> x \<notin> set as \<Longrightarrow> next_cell off x \<noteq> end_of off h as"
proof -
  have hl: "held False off h [h, last_cell h] us m as" and l: "m (last_cell h) = Some (end_of off h as)"
    using assms by (simp_all add: simpleq_at_def)
  then have o: "objs False m off [h, last_cell h] us" and p: "path False m off h as 0" and us: "set as \<subseteq> us" "distinct as"
    by (simp_all add: held_def)
  have apart: "x \<noteq> 0 \<and> next_cell off x \<noteq> 0 \<and> (\<exists>v. m (next_cell off x) = Some v) \<and> next_cell off x \<noteq> h \<and> next_cell off x \<noteq> last_cell h"
    if "x \<in> us" for x using objs_next [OF o that] by auto
  have e: "end_of off h as \<noteq> last_cell h \<and> (x \<in> us \<longrightarrow> x \<notin> set as \<longrightarrow> end_of off h as \<noteq> next_cell off x)" for x
    using apart o by (cases rule: end_of_cases [OF us(1), of off h]) (auto simp: objs_def)
  show "h \<noteq> 0" "last_cell h \<noteq> 0" "h \<noteq> last_cell h" "last_cell h \<noteq> h" "\<exists>v. m (last_cell h) = Some v"
    "m h = Some (hd (as @ [0]))" "set as \<subseteq> us" "distinct as" "held False off h [h, last_cell h] us m as"
    "m (last_cell h) = Some (end_of off h as)" "end_of off h as \<noteq> 0" "m (end_of off h as) = Some 0"
    "end_of off h as \<noteq> last_cell h" "last_cell h \<noteq> end_of off h as"
    "x \<in> us \<Longrightarrow> x \<noteq> 0" "x \<in> us \<Longrightarrow> next_cell off x \<noteq> 0" "x \<in> us \<Longrightarrow> \<exists>v. m (next_cell off x) = Some v"
    "x \<in> us \<Longrightarrow> next_cell off x \<noteq> h" "x \<in> us \<Longrightarrow> h \<noteq> next_cell off x"
    "x \<in> us \<Longrightarrow> next_cell off x \<noteq> last_cell h" "x \<in> us \<Longrightarrow> last_cell h \<noteq> next_cell off x"
    "x \<in> us \<Longrightarrow> x \<notin> set as \<Longrightarrow> end_of off h as \<noteq> next_cell off x"
    "x \<in> us \<Longrightarrow> x \<notin> set as \<Longrightarrow> next_cell off x \<noteq> end_of off h as"
    using hl l o us path_first [OF p] path_end [OF p] two_heads [OF o] apart [of x] e [of x] by auto
qed


lemma simpleq_insert_head:
  assumes "simpleq_at off h us m as" and "e \<in> us" and "e \<notin> set as"
  shows "\<exists>m'. SIMPLEQ_INSERT_HEAD off h e m = Inr m' \<and> simpleq_at off h us m' (e # as)"
proof -
  note k = simpleq_links [OF assms(1)]
  have hl: "held False off h [h, last_cell h] us m ([] @ as)" using k(9) by simp
  show ?thesis
  proof (cases as)
    case Nil
    let ?m = "m(next_cell off e \<mapsto> 0, last_cell h \<mapsto> next_cell off e, h \<mapsto> e)"
    have "SIMPLEQ_INSERT_HEAD off h e m = Inr ?m" using assms(2) k Nil by (simp add: SIMPLEQ_INSERT_HEAD_def link_access)
    moreover have "held False off h [h, last_cell h] us ?m ([] @ e # as)"
      by (rule held_insert [OF hl]) (use assms(2,3) k Nil in \<open>auto simp: back_cell_def\<close>)
    ultimately show ?thesis using Nil k by (simp add: simpleq_at_def)
  next
    case (Cons a bs)
    then have a: "a \<noteq> 0" using k(7,15) by simp
    let ?m = "m(next_cell off e \<mapsto> a, h \<mapsto> e)"
    have "SIMPLEQ_INSERT_HEAD off h e m = Inr ?m" using assms(2) k a Cons by (simp add: SIMPLEQ_INSERT_HEAD_def link_access)
    moreover have "held False off h [h, last_cell h] us ?m ([] @ e # as)"
      by (rule held_insert [OF hl]) (use assms(2,3) k Cons in \<open>auto simp: back_cell_def\<close>)
    ultimately show ?thesis using Cons assms(2) k by (simp add: simpleq_at_def)
  qed
qed

lemma simpleq_insert_tail:
  assumes "simpleq_at off h us m as" and "e \<in> us" and "e \<notin> set as"
  shows "\<exists>m'. SIMPLEQ_INSERT_TAIL off h e m = Inr m' \<and> simpleq_at off h us m' (as @ [e])"
proof -
  note k = simpleq_links [OF assms(1)]
  have hl: "held False off h [h, last_cell h] us m (as @ [])" using k(9) by simp
  let ?q = "end_of off h as"
  let ?m = "m(next_cell off e \<mapsto> 0, ?q \<mapsto> e, last_cell h \<mapsto> next_cell off e)"
  have "SIMPLEQ_INSERT_TAIL off h e m = Inr ?m" using assms(2,3) k by (simp add: SIMPLEQ_INSERT_TAIL_def link_access)
  moreover have "held False off h [h, last_cell h] us ?m (as @ e # [])"
    by (rule held_insert [OF hl]) (use assms(2,3) k in \<open>auto simp: back_cell_def\<close>)
  ultimately show ?thesis by (simp add: simpleq_at_def)
qed

text \<open>The cells around an element in the middle.\<close>

lemma simpleq_middle:
  assumes "simpleq_at off h us m (xs @ l # ys)"
  shows "l \<in> us" "set ys \<subseteq> us" "l \<notin> set ys" "m (next_cell off l) = Some (hd (ys @ [0]))"
    and "end_of off h (xs @ l # ys) = end_of off (next_cell off l) ys"
proof -
  have p: "path False m off h (xs @ l # ys) 0" "set (xs @ l # ys) \<subseteq> us" "distinct (xs @ l # ys)"
    using assms by (simp_all add: simpleq_at_def held_def)
  show "l \<in> us" "set ys \<subseteq> us" "l \<notin> set ys" "m (next_cell off l) = Some (hd (ys @ [0]))"
    "end_of off h (xs @ l # ys) = end_of off (next_cell off l) ys"
    using p path_first [of False m off "next_cell off l" ys 0] by (auto simp: path_append)
qed

lemma simpleq_insert_after:
  assumes "simpleq_at off h us m (xs @ l # ys)" and "e \<in> us" and "e \<notin> set (xs @ l # ys)"
  shows "\<exists>m'. SIMPLEQ_INSERT_AFTER off h l e m = Inr m' \<and> simpleq_at off h us m' (xs @ l # e # ys)"
proof -
  note k = simpleq_links [OF assms(1)] simpleq_middle [OF assms(1)]
  have hl: "held False off h [h, last_cell h] us m ((xs @ [l]) @ ys)" using k(9) by simp
  have ne: "e \<noteq> l" "l \<noteq> e" using assms(3) by auto
  show ?thesis
  proof (cases ys)
    case Nil
    let ?m = "m(next_cell off e \<mapsto> 0, last_cell h \<mapsto> next_cell off e, next_cell off l \<mapsto> e)"
    have "SIMPLEQ_INSERT_AFTER off h l e m = Inr ?m" using assms(2) k ne Nil by (simp add: SIMPLEQ_INSERT_AFTER_def link_access)
    moreover have "held False off h [h, last_cell h] us ?m ((xs @ [l]) @ e # ys)"
      by (rule held_insert [OF hl]) (use assms(2,3) k ne Nil in \<open>auto simp: back_cell_def\<close>)
    ultimately show ?thesis using Nil k by (simp add: simpleq_at_def)
  next
    case (Cons a bs)
    then have a: "a \<noteq> 0" using k(7,15) by simp
    let ?m = "m(next_cell off e \<mapsto> a, next_cell off l \<mapsto> e)"
    have "SIMPLEQ_INSERT_AFTER off h l e m = Inr ?m" using assms(2) k a ne Cons by (simp add: SIMPLEQ_INSERT_AFTER_def link_access)
    moreover have "held False off h [h, last_cell h] us ?m ((xs @ [l]) @ e # ys)"
      by (rule held_insert [OF hl]) (use assms(2,3) k ne Cons in \<open>auto simp: back_cell_def\<close>)
    ultimately show ?thesis using Cons assms(2) k by (simp add: simpleq_at_def)
  qed
qed

lemma simpleq_remove_head:
  assumes "simpleq_at off h us m (a # as)"
  shows "\<exists>m'. SIMPLEQ_REMOVE_HEAD off h m = Inr m' \<and> simpleq_at off h us m' as"
proof -
  have at: "simpleq_at off h us m ([] @ a # as)" using assms by simp
  note k = simpleq_links [OF at] simpleq_middle [OF at]
  show ?thesis
  proof (cases as)
    case Nil
    let ?m = "m(h \<mapsto> 0, last_cell h \<mapsto> h)"
    have "SIMPLEQ_REMOVE_HEAD off h m = Inr ?m" using k Nil by (simp add: SIMPLEQ_REMOVE_HEAD_def link_access)
    moreover have "held False off h [h, last_cell h] us ?m ([] @ as)"
      by (rule held_remove [OF k(9)]) (use k Nil in \<open>auto simp: back_cell_def\<close>)
    ultimately show ?thesis using Nil by (simp add: simpleq_at_def)
  next
    case (Cons b bs)
    then have b: "b \<noteq> 0" using k(7,15) by simp
    let ?m = "m(h \<mapsto> b)"
    have "SIMPLEQ_REMOVE_HEAD off h m = Inr ?m" using k b Cons by (simp add: SIMPLEQ_REMOVE_HEAD_def link_access)
    moreover have "held False off h [h, last_cell h] us ?m ([] @ as)"
      by (rule held_remove [OF k(9)]) (use k Cons in \<open>auto simp: back_cell_def\<close>)
    ultimately show ?thesis using Cons k by (simp add: simpleq_at_def)
  qed
qed

lemma simpleq_remove_after:
  assumes "simpleq_at off h us m (xs @ l # a # ys)"
  shows "\<exists>m'. SIMPLEQ_REMOVE_AFTER off h l m = Inr m' \<and> simpleq_at off h us m' (xs @ l # ys)"
proof -
  have at: "simpleq_at off h us m ((xs @ [l]) @ a # ys)" using assms by simp
  note k = simpleq_links [OF assms] simpleq_middle [OF assms] simpleq_middle [OF at]
  have hl: "held False off h [h, last_cell h] us m ((xs @ [l]) @ a # ys)" using k(9) by simp
  show ?thesis
  proof (cases ys)
    case Nil
    let ?m = "m(next_cell off l \<mapsto> 0, last_cell h \<mapsto> next_cell off l)"
    have "SIMPLEQ_REMOVE_AFTER off h l m = Inr ?m" using k Nil by (simp add: SIMPLEQ_REMOVE_AFTER_def link_access)
    moreover have "held False off h [h, last_cell h] us ?m ((xs @ [l]) @ ys)"
      by (rule held_remove [OF hl]) (use k Nil in \<open>auto simp: back_cell_def\<close>)
    ultimately show ?thesis using Nil by (simp add: simpleq_at_def)
  next
    case (Cons b bs)
    then have b: "b \<noteq> 0" using k(7,15) by simp
    let ?m = "m(next_cell off l \<mapsto> b)"
    have "SIMPLEQ_REMOVE_AFTER off h l m = Inr ?m" using k b Cons by (simp add: SIMPLEQ_REMOVE_AFTER_def link_access)
    moreover have "held False off h [h, last_cell h] us ?m ((xs @ [l]) @ ys)"
      by (rule held_remove [OF hl]) (use k Cons in \<open>auto simp: back_cell_def\<close>)
    ultimately show ?thesis using Cons k by (simp add: simpleq_at_def)
  qed
qed

lemma simpleq_supports_cases:
  assumes "simpleq_supports x"
  obtains e where "x = Ins_Head e" | e where "x = Ins_Tail e" | l e where "x = Ins_After l e" | "x = Rem_Head" | l where "x = Rem_After l"
  using assms by (cases x) (auto simp: simpleq_supports_def)

text \<open>One operation, for both queues: only what is proved of the macros differs.\<close>

lemma simpleq_exec_holds:
  assumes at: "simpleq_at off h us m as" and s: "simpleq_supports x" and ok: "op_ok us x as"
  shows "\<exists>m'. simpleq_exec off h x m = Inr m' \<and> simpleq_at off h us m' (op_apply x as)"
proof -
  have d: "distinct as" using at by (simp add: simpleq_at_def held_def)
  from s show ?thesis
  proof (cases rule: simpleq_supports_cases)
    case (1 e)
    with at ok simpleq_insert_head show ?thesis by (simp add: simpleq_exec_def)
  next
    case (2 e)
    with at ok simpleq_insert_tail show ?thesis by (simp add: simpleq_exec_def)
  next
    case (3 l e)
    with ok have "l \<in> set as" by simp
    from split_at [OF d this] obtain xs ys where as: "as = xs @ l # ys" .
    with simpleq_insert_after [OF at [unfolded as], of e] ok 3 d op_apply_split(1) [of xs l ys e] show ?thesis
      by (simp add: simpleq_exec_def del: op_apply.simps)
  next
    case 4
    with ok obtain a bs where "as = a # bs" by (cases as) auto
    with simpleq_remove_head [of off h us m a bs] at 4 show ?thesis by (simp add: simpleq_exec_def)
  next
    case (5 l)
    with ok have l: "l \<in> set as" "l \<noteq> last as" by simp_all
    from split_at [OF d l(1)] obtain xs ys where as: "as = xs @ l # ys" .
    with l(2) obtain a zs where "ys = a # zs" by (cases ys) auto
    with simpleq_remove_after [of off h us m xs l a zs] at as 5 d op_apply_split(4) [of xs l ys] show ?thesis
      by (simp add: simpleq_exec_def del: op_apply.simps)
  qed
qed

interpretation bsd_simpleq: linked "simpleq_at off h" "simpleq_exec off h" simpleq_supports "simpleq_traverse off h" for off h
proof
  fix us m as and fuel :: nat
  assume at: "simpleq_at off h us m as" and f: "length as < fuel"
  have p: "path False m off h as 0" using at by (simp add: simpleq_at_def held_def)
  have "SIMPLEQ_NEXT off = get_next off" by (intro ext) (simp add: SIMPLEQ_NEXT_def)
  with foreach_leave [OF path_chain [OF p] f] path_first [OF p] show "simpleq_traverse off h fuel m = Inr as"
    by (simp add: simpleq_traverse_def SIMPLEQ_FOREACH_def SIMPLEQ_FIRST_def)
qed (rule simpleq_exec_holds)


section \<open>Heads\<close>

lemma simpleq_init:
  assumes "objs False m off [h, last_cell h] us"
  shows "\<exists>m'. SIMPLEQ_INIT h m = Inr m' \<and> simpleq_at off h us m' []"
proof -
  note t = two_heads [OF assms]
  let ?m = "m(h \<mapsto> 0, last_cell h \<mapsto> h)"
  have d: "dom ?m = dom m" using t by auto
  have "SIMPLEQ_INIT h m = Inr ?m" using t by (simp add: SIMPLEQ_INIT_def)
  with t objs_dom [OF assms d] show ?thesis by (simp add: simpleq_at_def held_def)
qed

lemma simpleq_initializer:
  assumes "objs False m off [h, last_cell h] us" and "(m h, m (last_cell h)) = map_prod Some Some (SIMPLEQ_HEAD_INITIALIZER h)"
  shows "simpleq_at off h us m []"
  using assms two_heads [OF assms(1)] by (simp add: SIMPLEQ_HEAD_INITIALIZER_def simpleq_at_def held_def)

lemma simpleq_concat:
  assumes "simpleq_at off h1 us m as" and "simpleq_at off h2 us m bs" and "set as \<inter> set bs = {}"
    and "objs False m off [h1, last_cell h1, h2, last_cell h2] us"
  shows "\<exists>m'. SIMPLEQ_CONCAT h1 h2 m = Inr m' \<and> simpleq_at off h1 us m' (as @ bs) \<and> simpleq_at off h2 us m' []"
proof (cases bs)
  case Nil
  with simpleq_links [OF assms(2)] have "SIMPLEQ_CONCAT h1 h2 m = Inr m"
    by (simp add: SIMPLEQ_CONCAT_def SIMPLEQ_EMPTY_def SIMPLEQ_FIRST_def)
  with assms(1,2) Nil show ?thesis by simp
next
  case (Cons b cs)
  note k1 = simpleq_links [OF assms(1)] and k2 = simpleq_links [OF assms(2)]
  let ?q = "end_of off h1 as" and ?l = "end_of off (next_cell off b) cs"
  have heads: "h1 \<noteq> h2" "h2 \<noteq> h1" "h1 \<noteq> last_cell h2" "last_cell h2 \<noteq> h1" "last_cell h1 \<noteq> h2" "h2 \<noteq> last_cell h1"
    "last_cell h1 \<noteq> last_cell h2" "last_cell h2 \<noteq> last_cell h1"
    using assms(4) by (auto simp: objs_def)
  have us: "b \<in> us" "set cs \<subseteq> us" "b \<notin> set as" "set cs \<inter> set as = {}" "set as \<subseteq> us"
    using k1(7) k2(7) assms(3) Cons by auto
  have q: "?q \<noteq> h2" "h2 \<noteq> ?q" "?q \<noteq> last_cell h2" "last_cell h2 \<noteq> ?q"
    using heads k2(18,20) by (cases rule: end_of_cases [OF us(5), of off h1]; auto)+
  have b: "b \<noteq> 0" "m h2 = Some b" using k2(6,15) us(1) Cons by auto
  let ?m = "m(?q \<mapsto> b, last_cell h1 \<mapsto> ?l, h2 \<mapsto> 0, last_cell h2 \<mapsto> h2)"
  have run: "SIMPLEQ_CONCAT h1 h2 m = Inr ?m"
    using k1 k2 heads q b Cons
    by (simp add: SIMPLEQ_CONCAT_def SIMPLEQ_EMPTY_def SIMPLEQ_FIRST_def SIMPLEQ_INIT_def)
  have d: "dom ?m = dom m" using k1(5,12) k2(5) b by auto
  have p1: "path False m off h1 as 0" and o1: "objs False m off [h1, last_cell h1] us" using k1(9) by (simp_all add: held_def)
  have p2: "path False m off h2 (b # cs) 0" and o2: "objs False m off [h2, last_cell h2] us"
    using k2(9) Cons by (simp_all add: held_def)
  have "path False ?m off h1 as b"
  proof (rule path_retarget [where m' = ?m, OF p1])
    show "distinct (h1 # cells False off as)" using o1 k1(7,8) by (intro objs_distinct [OF o1]) simp_all
    show "?m ?q = Some b" using q k1(13) by simp
    show "?m c = m c" if "c \<in> insert h1 (set (cells False off as))" "c \<noteq> ?q" for c
      using that heads k1(3,20) k2(18,20) us(5) by (auto simp: cells_set)
  qed
  moreover have "path False ?m off (next_cell off b) cs 0 = path False m off (next_cell off b) cs 0"
  proof (rule path_cong)
    fix c assume "c \<in> insert (next_cell off b) (set (cells False off cs))"
    then obtain x where x: "c = next_cell off x" "x \<in> us" "x \<notin> set as" using us by (auto simp: cells_set)
    with k1(20,22) [of x] k2(18,20) [of x] show "?m c = m c" by auto
  qed
  ultimately have "path False ?m off h1 (as @ bs) 0"
    using Cons p2 b q k1(11,13) by (simp add: path_append)
  then have "held False off h1 [h1, last_cell h1] us ?m (as @ bs)"
    using objs_dom [OF o1 d] k1(7,8) k2(7,8) assms(3) by (auto simp: held_def)
  moreover have "held False off h2 [h2, last_cell h2] us ?m []" using objs_dom [OF o2 d] k2(1,4) heads by (simp add: held_def)
  ultimately show ?thesis using run heads k2(3) Cons by (simp add: simpleq_at_def)
qed

end
