(* ===== verification/Queue_Xor.thy ===== *)
theory Queue_Xor
  imports Queue_Simple
begin

text \<open>
  The XSIMPLEQ macros of external/queue/queue.h: a SIMPLEQ whose head has a random cookie and whose
  pointers are kept XORed with it. Undoing the XOR in every cell but the cookie's (\<open>unmask\<close>) turns
  each macro into the SIMPLEQ macro, from which it inherits what holds of that.
\<close>

section \<open>The macros\<close>

definition cookie_cell :: "ptr \<Rightarrow> ptr" where
  "cookie_cell h = h + 8"

definition XSIMPLEQ_XOR :: "mem \<Rightarrow> ptr \<Rightarrow> ptr \<Rightarrow> ptr res" where
  "XSIMPLEQ_XOR m h p = bind_res (load m (cookie_cell h)) (\<lambda>c. Inr (c XOR p))"

definition XSIMPLEQ_FIRST :: "mem \<Rightarrow> ptr \<Rightarrow> ptr res" where
  "XSIMPLEQ_FIRST m h = bind_res (load m h) (XSIMPLEQ_XOR m h)"

definition XSIMPLEQ_EMPTY :: "mem \<Rightarrow> ptr \<Rightarrow> bool res" where
  "XSIMPLEQ_EMPTY m h = bind_res (XSIMPLEQ_FIRST m h) (\<lambda>f. Inr (f = 0))"

definition XSIMPLEQ_NEXT :: "ptr \<Rightarrow> ptr \<Rightarrow> mem \<Rightarrow> ptr \<Rightarrow> ptr res" where
  "XSIMPLEQ_NEXT off h m e = bind_res (get_next off m e) (XSIMPLEQ_XOR m h)"

definition XSIMPLEQ_FOREACH :: "ptr \<Rightarrow> ptr \<Rightarrow> (ptr \<Rightarrow> mem \<Rightarrow> mem res) \<Rightarrow> nat \<Rightarrow> mem \<Rightarrow> (ptr list \<times> mem) res" where
  "XSIMPLEQ_FOREACH off h body fuel m = bind_res (XSIMPLEQ_FIRST m h) (\<lambda>f. foreach (XSIMPLEQ_NEXT off h) body fuel f m)"

definition XSIMPLEQ_FOREACH_SAFE :: "ptr \<Rightarrow> ptr \<Rightarrow> (ptr \<Rightarrow> mem \<Rightarrow> mem res) \<Rightarrow> nat \<Rightarrow> mem \<Rightarrow> (ptr list \<times> mem) res" where
  "XSIMPLEQ_FOREACH_SAFE off h body fuel m = bind_res (XSIMPLEQ_FIRST m h) (\<lambda>f. foreach_safe (XSIMPLEQ_NEXT off h) body fuel f m)"

text \<open>\<open>c\<close> is what \<open>arc4random_buf\<close> fills the cookie with.\<close>

definition XSIMPLEQ_INIT :: "ptr \<Rightarrow> ptr \<Rightarrow> mem \<Rightarrow> mem res" where
  "XSIMPLEQ_INIT c h m =
     bind_res (store (cookie_cell h) c m) (\<lambda>m.
     bind_res (XSIMPLEQ_XOR m h 0) (\<lambda>v.
     bind_res (store h v m) (\<lambda>m.
     bind_res (XSIMPLEQ_XOR m h h) (\<lambda>v.
       store (last_cell h) v m))))"

definition XSIMPLEQ_INSERT_HEAD :: "ptr \<Rightarrow> ptr \<Rightarrow> ptr \<Rightarrow> mem \<Rightarrow> mem res" where
  "XSIMPLEQ_INSERT_HEAD off h elm m =
     bind_res (load m h) (\<lambda>f.
     bind_res (set_next off elm f m) (\<lambda>m.
     bind_res (XSIMPLEQ_XOR m h 0) (\<lambda>nul.
     bind_res (if f = nul
               then bind_res (XSIMPLEQ_XOR m h (next_cell off elm)) (\<lambda>v. store (last_cell h) v m)
               else Inr m) (\<lambda>m.
     bind_res (XSIMPLEQ_XOR m h elm) (\<lambda>v.
       store h v m)))))"

definition XSIMPLEQ_INSERT_TAIL :: "ptr \<Rightarrow> ptr \<Rightarrow> ptr \<Rightarrow> mem \<Rightarrow> mem res" where
  "XSIMPLEQ_INSERT_TAIL off h elm m =
     bind_res (XSIMPLEQ_XOR m h 0) (\<lambda>nul.
     bind_res (set_next off elm nul m) (\<lambda>m.
     bind_res (bind_res (load m (last_cell h)) (XSIMPLEQ_XOR m h)) (\<lambda>l.
     bind_res (XSIMPLEQ_XOR m h elm) (\<lambda>v.
     bind_res (store l v m) (\<lambda>m.
     bind_res (XSIMPLEQ_XOR m h (next_cell off elm)) (\<lambda>v.
       store (last_cell h) v m))))))"

definition XSIMPLEQ_INSERT_AFTER :: "ptr \<Rightarrow> ptr \<Rightarrow> ptr \<Rightarrow> ptr \<Rightarrow> mem \<Rightarrow> mem res" where
  "XSIMPLEQ_INSERT_AFTER off h listelm elm m =
     bind_res (get_next off m listelm) (\<lambda>n.
     bind_res (set_next off elm n m) (\<lambda>m.
     bind_res (XSIMPLEQ_XOR m h 0) (\<lambda>nul.
     bind_res (if n = nul
               then bind_res (XSIMPLEQ_XOR m h (next_cell off elm)) (\<lambda>v. store (last_cell h) v m)
               else Inr m) (\<lambda>m.
     bind_res (XSIMPLEQ_XOR m h elm) (\<lambda>v.
       set_next off listelm v m)))))"

definition XSIMPLEQ_REMOVE_HEAD :: "ptr \<Rightarrow> ptr \<Rightarrow> mem \<Rightarrow> mem res" where
  "XSIMPLEQ_REMOVE_HEAD off h m =
     bind_res (bind_res (load m h) (XSIMPLEQ_XOR m h)) (\<lambda>f.
     bind_res (get_next off m f) (\<lambda>n.
     bind_res (store h n m) (\<lambda>m.
     bind_res (XSIMPLEQ_XOR m h 0) (\<lambda>nul.
       if n = nul
       then bind_res (XSIMPLEQ_XOR m h h) (\<lambda>v. store (last_cell h) v m)
       else Inr m))))"

definition XSIMPLEQ_REMOVE_AFTER :: "ptr \<Rightarrow> ptr \<Rightarrow> ptr \<Rightarrow> mem \<Rightarrow> mem res" where
  "XSIMPLEQ_REMOVE_AFTER off h elm m =
     bind_res (bind_res (get_next off m elm) (XSIMPLEQ_XOR m h)) (\<lambda>n.
     bind_res (get_next off m n) (\<lambda>n2.
     bind_res (set_next off elm n2 m) (\<lambda>m.
     bind_res (XSIMPLEQ_XOR m h 0) (\<lambda>nul.
       if n2 = nul
       then bind_res (XSIMPLEQ_XOR m h (next_cell off elm)) (\<lambda>v. store (last_cell h) v m)
       else Inr m))))"

section \<open>The memory without the cookie\<close>

definition unmask :: "ptr \<Rightarrow> ptr \<Rightarrow> mem \<Rightarrow> mem" where
  "unmask c h m = (\<lambda>a. if a = cookie_cell h then m a else map_option ((XOR) c) (m a))"

definition xsimpleq_at :: "ptr \<Rightarrow> ptr \<Rightarrow> ptr \<Rightarrow> ptr set \<Rightarrow> mem \<Rightarrow> ptr list \<Rightarrow> bool" where
  "xsimpleq_at off h c us m as \<longleftrightarrow> cookie_cell h \<noteq> 0 \<and> m (cookie_cell h) = Some c
     \<and> (\<forall>x \<in> us. next_cell off x \<noteq> cookie_cell h) \<and> simpleq_at off h us (unmask c h m) as"

definition xsimpleq_exec :: "ptr \<Rightarrow> ptr \<Rightarrow> list_op \<Rightarrow> mem \<Rightarrow> mem res" where
  "xsimpleq_exec off h x m =
     (case x of
        Ins_Head e \<Rightarrow> XSIMPLEQ_INSERT_HEAD off h e m
      | Ins_Tail e \<Rightarrow> XSIMPLEQ_INSERT_TAIL off h e m
      | Ins_After l e \<Rightarrow> XSIMPLEQ_INSERT_AFTER off h l e m
      | Rem_Head \<Rightarrow> XSIMPLEQ_REMOVE_HEAD off h m
      | Rem_After l \<Rightarrow> XSIMPLEQ_REMOVE_AFTER off h l m
      | _ \<Rightarrow> Inr m)"

definition xsimpleq_traverse :: "ptr \<Rightarrow> ptr \<Rightarrow> nat \<Rightarrow> mem \<Rightarrow> ptr list res" where
  "xsimpleq_traverse off h fuel m = bind_res (XSIMPLEQ_FOREACH off h leave fuel m) (\<lambda>(vs, _). Inr vs)"

lemma XOR_cancel [simp]: "c XOR (c XOR v) = v" for c v :: "'a::len word"
  by (simp add: xor.assoc [symmetric])

lemma XOR_null: "c XOR v = c \<longleftrightarrow> v = 0" for c v :: "'a::len word"
  by (metis XOR_cancel xor.right_neutral)

lemma cookie_apart [simp]: "cookie_cell h \<noteq> h" "h \<noteq> cookie_cell h" "cookie_cell h \<noteq> last_cell h" "last_cell h \<noteq> cookie_cell h"
  by (simp_all add: cookie_cell_def last_cell_def)

lemma unmask_cookie [simp]: "unmask c h m (cookie_cell h) = m (cookie_cell h)"
  by (simp add: unmask_def)

text \<open>Each access through the XOR is the plain one on the unmasked memory.\<close>

lemma unmask_load: "a \<noteq> cookie_cell h \<Longrightarrow> load (unmask c h m) a = bind_res (load m a) (\<lambda>v. Inr (c XOR v))"
  by (auto simp: load_def unmask_def split: option.split)

lemma unmask_store:
  "a \<noteq> cookie_cell h \<Longrightarrow> store a (c XOR v) (unmask c h m) = bind_res (store a v m) (\<lambda>m. Inr (unmask c h m))"
  by (auto simp: store_def unmask_def)

lemma unmask_upd: "a \<noteq> cookie_cell h \<Longrightarrow> unmask c h (m(a \<mapsto> v)) = (unmask c h m)(a \<mapsto> c XOR v)"
  by (auto simp: unmask_def)


section \<open>Each macro is the SIMPLEQ macro\<close>

text \<open>The state of the cookie that the macros rely on, and what a step does to it.\<close>

definition masked :: "ptr \<Rightarrow> ptr \<Rightarrow> mem \<Rightarrow> bool" where
  "masked c h m \<longleftrightarrow> cookie_cell h \<noteq> 0 \<and> m (cookie_cell h) = Some c"

definition same_step :: "ptr \<Rightarrow> ptr \<Rightarrow> mem res \<Rightarrow> mem res \<Rightarrow> bool" where
  "same_step c h r q \<longleftrightarrow> bind_res r (\<lambda>m. Inr (unmask c h m)) = q \<and> (\<forall>m. r = Inr m \<longrightarrow> masked c h m)"

lemma masked_XOR [simp]: "masked c h m \<Longrightarrow> XSIMPLEQ_XOR m h p = Inr (c XOR p)"
  by (simp add: masked_def XSIMPLEQ_XOR_def)

lemma same_step_Inr: "masked c h m \<Longrightarrow> q = Inr (unmask c h m) \<Longrightarrow> same_step c h (Inr m) q"
  by (simp add: same_step_def)

lemma same_load:
  assumes "a \<noteq> cookie_cell h" and "\<And>v. load m a = Inr v \<Longrightarrow> same_step c h (f v) (g (c XOR v))"
  shows "same_step c h (bind_res (load m a) f) (bind_res (load (unmask c h m) a) g)"
  using assms by (cases "load m a") (auto simp: unmask_load same_step_def)

lemma same_store:
  assumes "masked c h m" and "a \<noteq> cookie_cell h" and "w = c XOR v"
    and "\<And>m'. masked c h m' \<Longrightarrow> \<forall>x. x \<noteq> a \<longrightarrow> m' x = m x \<Longrightarrow> same_step c h (f m') (g (unmask c h m'))"
  shows "same_step c h (bind_res (store a v m) f) (bind_res (store a w (unmask c h m)) g)"
proof (cases "store a v m")
  case (Inr m')
  with assms(1,2) have "masked c h m'" and "\<forall>x. x \<noteq> a \<longrightarrow> m' x = m x"
    by (auto simp: store_def masked_def split: if_splits)
  with assms Inr show ?thesis by (simp add: unmask_store)
qed (use assms in \<open>simp add: unmask_store same_step_def\<close>)

lemma same_store_last:
  assumes "masked c h m" and "a \<noteq> cookie_cell h" and "w = c XOR v"
  shows "same_step c h (store a v m) (store a w (unmask c h m))"
  using same_store [OF assms, of Inr Inr] by (simp add: same_step_Inr bind_res_def split: sum.splits)

lemma same_field: "(e \<noteq> 0 \<Longrightarrow> same_step c h (f a) (g a)) \<Longrightarrow> same_step c h (bind_res (field e a) f) (bind_res (field e a) g)"
  by (simp add: field_def same_step_def)

lemmas same_rules = same_field same_load same_store same_store_last

lemma XOR_eq_0 [simp]: "c XOR v = 0 \<longleftrightarrow> v = c" for c v :: "'a::len word"
  by (metis XOR_cancel xor_self_eq xor.right_neutral)

lemma load_cell: "load m a = Inr v \<Longrightarrow> m a = Some v"
  by (auto simp: load_def split: if_splits option.splits)

lemma insert_head_same:
  assumes "masked c h m" and "next_cell off e \<noteq> cookie_cell h"
  shows "same_step c h (XSIMPLEQ_INSERT_HEAD off h e m) (SIMPLEQ_INSERT_HEAD off h e (unmask c h m))"
  unfolding XSIMPLEQ_INSERT_HEAD_def SIMPLEQ_INSERT_HEAD_def link_access bind_res_assoc
  using assms by (auto intro!: same_rules)

lemma insert_tail_same:
  assumes "masked c h m" and "next_cell off e \<noteq> cookie_cell h"
    and "next_cell off e \<noteq> last_cell h" and "\<And>v. m (last_cell h) = Some v \<Longrightarrow> c XOR v \<noteq> cookie_cell h"
  shows "same_step c h (XSIMPLEQ_INSERT_TAIL off h e m) (SIMPLEQ_INSERT_TAIL off h e (unmask c h m))"
  unfolding XSIMPLEQ_INSERT_TAIL_def SIMPLEQ_INSERT_TAIL_def link_access bind_res_assoc
  using assms by (auto intro!: same_rules dest!: load_cell)

lemma insert_after_same:
  assumes "masked c h m" and "next_cell off e \<noteq> cookie_cell h" and "next_cell off l \<noteq> cookie_cell h"
  shows "same_step c h (XSIMPLEQ_INSERT_AFTER off h l e m) (SIMPLEQ_INSERT_AFTER off h l e (unmask c h m))"
  unfolding XSIMPLEQ_INSERT_AFTER_def SIMPLEQ_INSERT_AFTER_def link_access bind_res_assoc
  using assms by (auto intro!: same_rules dest!: load_cell)

lemma remove_head_same:
  assumes "masked c h m" and "\<And>v. m h = Some v \<Longrightarrow> next_cell off (c XOR v) \<noteq> cookie_cell h"
  shows "same_step c h (XSIMPLEQ_REMOVE_HEAD off h m) (SIMPLEQ_REMOVE_HEAD off h (unmask c h m))"
  unfolding XSIMPLEQ_REMOVE_HEAD_def SIMPLEQ_REMOVE_HEAD_def link_access bind_res_assoc
  using assms by (auto intro!: same_rules same_step_Inr dest!: load_cell)

lemma remove_after_same:
  assumes "masked c h m" and "next_cell off l \<noteq> cookie_cell h"
    and "\<And>v. m (next_cell off l) = Some v \<Longrightarrow> next_cell off (c XOR v) \<noteq> cookie_cell h"
  shows "same_step c h (XSIMPLEQ_REMOVE_AFTER off h l m) (SIMPLEQ_REMOVE_AFTER off h l (unmask c h m))"
  unfolding XSIMPLEQ_REMOVE_AFTER_def SIMPLEQ_REMOVE_AFTER_def link_access bind_res_assoc
  using assms by (auto intro!: same_rules same_step_Inr dest!: load_cell)


section \<open>XSIMPLEQ implements the operations on lists\<close>

lemma xsimpleq_links:
  assumes "xsimpleq_at off h c us m as"
  shows "masked c h m" "x \<in> us \<Longrightarrow> next_cell off x \<noteq> cookie_cell h" "simpleq_at off h us (unmask c h m) as"
  using assms by (simp_all add: xsimpleq_at_def masked_def)

lemma same_step_holds:
  assumes "same_step c h r q" and "q = Inr n \<and> simpleq_at off h us n bs" and "\<forall>x \<in> us. next_cell off x \<noteq> cookie_cell h"
  shows "\<exists>m'. r = Inr m' \<and> xsimpleq_at off h c us m' bs"
  using assms by (auto simp: same_step_def xsimpleq_at_def masked_def bind_res_Inr_iff)

lemma xsimpleq_step:
  assumes at: "xsimpleq_at off h c us m as" and s: "simpleq_supports x" and ok: "op_ok us x as"
  shows "same_step c h (xsimpleq_exec off h x m) (simpleq_exec off h x (unmask c h m))"
proof -
  note x = xsimpleq_links [OF at]
  note k = simpleq_links [OF x(3)]
  from s show ?thesis
  proof (cases rule: simpleq_supports_cases)
    case (1 e)
    with ok x insert_head_same show ?thesis by (simp add: xsimpleq_exec_def simpleq_exec_def)
  next
    case (2 e)
    have "c XOR v \<noteq> cookie_cell h" if "m (last_cell h) = Some v" for v
    proof -
      have "unmask c h m (last_cell h) = Some (c XOR v)" using that by (simp add: unmask_def)
      then have "end_of off h as = c XOR v" using k(10) by simp
      with x(2) k(7) show ?thesis by (cases rule: end_of_cases [OF k(7), of off h]) auto
    qed
    with 2 ok x k(20) insert_tail_same [OF x(1), of off e] show ?thesis
      by (simp add: xsimpleq_exec_def simpleq_exec_def)
  next
    case (3 l e)
    with ok k(7) have "l \<in> us" "e \<in> us" by auto
    with 3 x insert_after_same show ?thesis by (simp add: xsimpleq_exec_def simpleq_exec_def)
  next
    case 4
    with ok obtain a bs where as: "as = a # bs" by (cases as) auto
    have "next_cell off (c XOR v) \<noteq> cookie_cell h" if "m h = Some v" for v
    proof -
      have "unmask c h m h = Some (c XOR v)" using that by (simp add: unmask_def)
      then have "a = c XOR v" using k(6) as by simp
      with as k(7) x(2) [of a] show ?thesis by simp
    qed
    with 4 x remove_head_same show ?thesis by (simp add: xsimpleq_exec_def simpleq_exec_def)
  next
    case (5 l)
    with ok have l: "l \<in> set as" "l \<noteq> last as" by simp_all
    from split_at [OF k(8) l(1)] obtain xs ys where as: "as = xs @ l # ys" .
    with l(2) obtain a zs where ys: "ys = a # zs" by (cases ys) auto
    have "next_cell off (c XOR v) \<noteq> cookie_cell h" if "m (next_cell off l) = Some v" for v
    proof -
      have "unmask c h m (next_cell off l) = Some (c XOR v)" using that x(2) [of l] k(7) l(1) by (auto simp: unmask_def)
      then have "a = c XOR v" using simpleq_middle(4) [of off h us "unmask c h m" xs l ys] x(3) as ys by simp
      with as ys k(7) x(2) [of a] show ?thesis by simp
    qed
    with 5 x(1) x(2) [of l] k(7) l(1) remove_after_same show ?thesis
      by (auto simp: xsimpleq_exec_def simpleq_exec_def)
  qed
qed

interpretation bsd_xsimpleq: linked "xsimpleq_at off h c" "xsimpleq_exec off h" simpleq_supports "xsimpleq_traverse off h" for off h c
proof
  fix us m as x
  assume at: "xsimpleq_at off h c us m as" and s: "simpleq_supports x" and ok: "op_ok us x as"
  obtain n where "simpleq_exec off h x (unmask c h m) = Inr n \<and> simpleq_at off h us n (op_apply x as)"
    using simpleq_exec_holds [OF xsimpleq_links(3) [OF at] s ok] by blast
  from same_step_holds [OF xsimpleq_step [OF at s ok] this] xsimpleq_links(2) [OF at]
  show "\<exists>m'. xsimpleq_exec off h x m = Inr m' \<and> xsimpleq_at off h c us m' (op_apply x as)" by blast
next
  fix us m as and fuel :: nat
  assume at: "xsimpleq_at off h c us m as" and f: "length as < fuel"
  note x = xsimpleq_links [OF at]
  note k = simpleq_links [OF x(3)]
  have xr: "XSIMPLEQ_XOR m h = (\<lambda>v. Inr (c XOR v))" using x(1) by (intro ext) simp
  have "chain (unmask c h m) off (hd (as @ [0])) as" using k(9) path_chain by (auto simp: held_def)
  moreover have "XSIMPLEQ_NEXT off h m a = get_next off (unmask c h m) a" if "a \<in> set as" for a
  proof -
    have "next_cell off a \<noteq> cookie_cell h" using x(2) k(7) that by auto
    with xr show ?thesis by (cases "a = 0") (simp_all add: XSIMPLEQ_NEXT_def link_access unmask_load field_def)
  qed
  ultimately have "foreach (XSIMPLEQ_NEXT off h) leave fuel (hd (as @ [0])) m = Inr (as, m)"
    using f by (intro foreach_leave_by)
  moreover have "XSIMPLEQ_FIRST m h = Inr (hd (as @ [0]))"
    using k(1,6) xr unmask_load [of h h c m] by (simp add: XSIMPLEQ_FIRST_def)
  ultimately show "xsimpleq_traverse off h fuel m = Inr as" by (simp add: xsimpleq_traverse_def XSIMPLEQ_FOREACH_def)
qed

text \<open>A head that has been initialised is an empty queue, whatever the cookie is.\<close>

lemma xsimpleq_init:
  assumes "objs False m off [h, last_cell h, cookie_cell h] us"
  shows "\<exists>m'. XSIMPLEQ_INIT c h m = Inr m' \<and> xsimpleq_at off h c us m' []"
proof -
  let ?m = "m(cookie_cell h \<mapsto> c, h \<mapsto> c, last_cell h \<mapsto> c XOR h)"
  have a: "h \<noteq> 0" "last_cell h \<noteq> 0" "cookie_cell h \<noteq> 0" "h \<noteq> last_cell h" "\<exists>v. m h = Some v" "\<exists>v. m (last_cell h) = Some v"
    "\<exists>v. m (cookie_cell h) = Some v"
    using assms by (auto simp: objs_def)
  have "XSIMPLEQ_INIT c h m = Inr ?m" using a by (simp add: XSIMPLEQ_INIT_def XSIMPLEQ_XOR_def)
  moreover have "objs False (unmask c h ?m) off [h, last_cell h] us"
    using assms a by (auto simp: objs_def unmask_def)
  moreover have "unmask c h ?m h = Some 0" "unmask c h ?m (last_cell h) = Some h" using a by (simp_all add: unmask_def)
  ultimately show ?thesis using assms a by (simp add: xsimpleq_at_def simpleq_at_def held_def objs_def)
qed


section \<open>Properties\<close>

lemma xsimpleq_runs:
  assumes "xsimpleq_at off h c us m as" and "list_all simpleq_supports ops" and "ops_ok us ops as"
  shows "\<exists>m'. fold (\<lambda>x s. bind_res s (xsimpleq_exec off h x)) ops (Inr m) = Inr m'
    \<and> fold (\<lambda>x s. bind_res s (simpleq_exec off h x)) ops (Inr (unmask c h m)) = Inr (unmask c h m')
    \<and> xsimpleq_at off h c us m' (fold op_apply ops as)"
  using assms
proof (induction ops arbitrary: m as)
  case (Cons x ops)
  have x: "simpleq_supports x" "op_ok us x as" using Cons.prems(2,3) by simp_all
  obtain m1 where m1: "xsimpleq_exec off h x m = Inr m1" "xsimpleq_at off h c us m1 (op_apply x as)"
    using bsd_xsimpleq.exec_holds [OF Cons.prems(1) x] by blast
  with xsimpleq_step [OF Cons.prems(1) x] have "simpleq_exec off h x (unmask c h m) = Inr (unmask c h m1)"
    by (simp add: same_step_def)
  with Cons.IH [OF m1(2)] Cons.prems(2,3) m1(1) show ?case by simp
qed simp

text \<open>
  C20. XSIMPLEQ is SIMPLEQ behind a mask: whatever cookie is drawn, any sequence of its macros from an
  initialised head does not fault, and undoing the XOR in the memory it leaves gives the memory that
  the same sequence of SIMPLEQ macros leaves; a traversal visits exactly the elements that the
  operations give on a list.
\<close>

theorem xsimpleq_is_simpleq:
  assumes "objs False m off [h, last_cell h, cookie_cell h] us" and "list_all simpleq_supports ops" and "ops_ok us ops []"
    and "length (fold op_apply ops []) < fuel"
  shows "\<exists>m0 m'. XSIMPLEQ_INIT c h m = Inr m0
    \<and> fold (\<lambda>x s. bind_res s (xsimpleq_exec off h x)) ops (Inr m0) = Inr m'
    \<and> fold (\<lambda>x s. bind_res s (simpleq_exec off h x)) ops (Inr (unmask c h m0)) = Inr (unmask c h m')
    \<and> xsimpleq_traverse off h fuel m' = Inr (fold op_apply ops [])
    \<and> simpleq_traverse off h fuel (unmask c h m') = Inr (fold op_apply ops [])"
proof -
  obtain m0 where m0: "XSIMPLEQ_INIT c h m = Inr m0" "xsimpleq_at off h c us m0 []" using xsimpleq_init [OF assms(1)] by blast
  from xsimpleq_runs [OF m0(2) assms(2,3)] obtain m' where m':
    "fold (\<lambda>x s. bind_res s (xsimpleq_exec off h x)) ops (Inr m0) = Inr m'"
    "fold (\<lambda>x s. bind_res s (simpleq_exec off h x)) ops (Inr (unmask c h m0)) = Inr (unmask c h m')"
    "xsimpleq_at off h c us m' (fold op_apply ops [])" by blast
  from bsd_xsimpleq.traverse_holds [OF m'(3) assms(4)] bsd_simpleq.traverse_holds [OF xsimpleq_links(3) [OF m'(3)] assms(4)]
    m0(1) m'(1,2) show ?thesis by blast
qed

theorem xsimpleq_is_simpleq_witness:
  "\<exists>m m0 m'. XSIMPLEQ_INIT 0xA5A5 16 m = Inr m0
    \<and> fold (\<lambda>x s. bind_res s (xsimpleq_exec 8 16 x)) [Ins_Tail 32, Ins_Head 48, Rem_Head, Ins_Tail 64] (Inr m0) = Inr m'
    \<and> xsimpleq_traverse 8 16 4 m' = Inr [32, 64]"
proof -
  let ?m = "map_of (map (\<lambda>a. (a, 0)) [16, 20, 24, 40, 56, 72]) :: mem"
  have o: "objs False ?m 8 [16, last_cell 16, cookie_cell 16] {32, 48, 64}"
    by (simp add: objs_def next_cell_def last_cell_def cookie_cell_def)
  have ops: "list_all simpleq_supports [Ins_Tail 32, Ins_Head 48, Rem_Head, Ins_Tail 64]"
    "ops_ok {32, 48, 64} [Ins_Tail 32, Ins_Head 48, Rem_Head, Ins_Tail 64] []"
    "fold op_apply [Ins_Tail 32, Ins_Head 48, Rem_Head, Ins_Tail 64] [] = [32, 64]"
    by (simp_all add: simpleq_supports_def)
  from xsimpleq_is_simpleq [OF o ops(1,2), of 4 "0xA5A5"] ops(3) show ?thesis by auto
qed

end
