(* ===== verification/Upload.thy ===== *)
theory Upload
  imports Config Http
begin

text \<open>
  The upload service (http_upload/http_upload.c), the program that puts WASM files into the folder
  from which the bridge installs them. It has its own configuration of three strings and one
  request handler. Mongoose's \<open>mg_get_http_var\<close> and the file system are parameters; \<open>fwrite\<close> and
  \<open>fclose\<close> are represented by the number of bytes that reach the file.
\<close>

section \<open>Configuration\<close>

record upload_config =
  up_http_port :: cbuf
  up_enable_directory_listing :: cbuf
  upload_folder :: cbuf

definition upload_g_config :: upload_config where
  "upload_g_config = \<lparr>up_http_port = zero_buf STR_MAXLEN, up_enable_directory_listing = zero_buf STR_MAXLEN,
     upload_folder = zero_buf STR_MAXLEN\<rparr>"

text \<open>\<open>user\<close> tells whether the pointer that inih hands through is not NULL.\<close>

definition upload_conf_handler ::
    "bool \<Rightarrow> upload_config \<Rightarrow> string \<Rightarrow> string \<Rightarrow> string \<Rightarrow> (int \<times> upload_config) res" where
  "upload_conf_handler user c sec name val =
     (if user then Inr (- 1, c)
      else if sec = ''http-upload'' \<and> name = ''port''
      then bind_res (copy_field (up_http_port c) val) (\<lambda>b. Inr (1, c\<lparr>up_http_port := b\<rparr>))
      else if sec = ''http-upload'' \<and> name = ''enable-directory-listing''
      then bind_res (copy_field (up_enable_directory_listing c) val) (\<lambda>b. Inr (1, c\<lparr>up_enable_directory_listing := b\<rparr>))
      else if sec = ''http-upload'' \<and> name = ''upload-folder''
      then bind_res (copy_field (upload_folder c) val) (\<lambda>b. Inr (1, c\<lparr>upload_folder := b\<rparr>))
      else Inr (0, c))"

fun upload_entries :: "(string \<times> string \<times> string) list \<Rightarrow> upload_config \<Rightarrow> upload_config res" where
  "upload_entries [] c = Inr c"
| "upload_entries ((sec, name, val) # es) c =
     bind_res (upload_conf_handler False c sec name val) (\<lambda>(_, c). upload_entries es c)"

definition upload_read_config ::
    "(string \<times> string \<times> string) list \<Rightarrow> int \<Rightarrow> upload_config \<Rightarrow> (int \<times> upload_config) res" where
  "upload_read_config entries ini_ret c =
     bind_res (upload_entries entries c) (\<lambda>c. Inr (if ini_ret < 0 then - 1 else 0, c))"

section \<open>The request handler\<close>

datatype upload_reply = Up_Bad_Request | Up_Ok   \<comment> \<open>the 400 answer; the 200 answer with its JSON body\<close>

record upload_os =
  up_get_var :: "string \<Rightarrow> string \<Rightarrow> nat \<Rightarrow> int \<times> string"  \<comment> \<open>result and stored text of \<open>mg_get_http_var\<close>\<close>
  up_fopen :: "string \<Rightarrow> bool"
  up_stored :: "string \<Rightarrow> nat \<Rightarrow> nat"                  \<comment> \<open>how much of a write reaches the file\<close>

record upload_state =
  up_files :: "(string \<times> string) list"   \<comment> \<open>files written, newest first\<close>
  up_replies :: "upload_reply list"

definition ok_chars :: string where
  "ok_chars = ''abcdefghijklmnopqrstuvwxyzABCDEFGHIJKLMNOPQRSTUVWXYZ1234567890_-.@''"

definition strspn :: "string \<Rightarrow> string \<Rightarrow> nat" where
  "strspn s accept = length (takeWhile (\<lambda>c. c \<in> set accept) s)"

text \<open>
  The loop over \<open>cp\<close>, on the text up to \<open>end\<close>; nothing in its syntax makes it end, so that it
  does is part of a theorem.
\<close>

partial_function (option) sanitize_loop :: "string \<Rightarrow> nat \<Rightarrow> string option" where
  "sanitize_loop s cp =
     (if cp = length s then Some s
      else let s = s[cp := CHR ''_''] in sanitize_loop s (cp + strspn (drop cp s) ok_chars))"

definition sanitize :: "string \<Rightarrow> string option" where
  "sanitize arg_name = sanitize_loop arg_name (strspn arg_name ok_chars)"

definition upload_filename :: "upload_config \<Rightarrow> string \<Rightarrow> string res" where
  "upload_filename c arg_name =
     bind_res (read_cstr (upload_folder c) 0) (\<lambda>folder. local_text 200 (folder @ ''/'' @ arg_name @ ''.wasm''))"

text \<open>
  \<open>file_buf\<close> points \<open>param_len\<close> bytes behind the start of the body, whose length is \<open>size_t\<close> cut to
  32 bits. \<open>fwrite\<close> with a NULL stream is undefined, and so is reading behind the body.
\<close>

definition file_upload ::
    "upload_os \<Rightarrow> upload_config \<Rightarrow> http_message \<Rightarrow> upload_state \<Rightarrow> upload_state res" where
  "file_upload os c hm s =
     (let (ret, arg_name) = up_get_var os (hm_body hm) ''name'' 99;
          s = (if ret < 0 then s\<lparr>up_replies := up_replies s @ [Up_Bad_Request]\<rparr> else s);
          param_len = (word_of_nat (length arg_name + length ''name'' + 2) :: 32 word);
          file_len = (word_of_nat (length (hm_body hm)) :: 32 word) - param_len
      in case sanitize arg_name of
           None \<Rightarrow> Inl Diverges
         | Some arg_name \<Rightarrow>
             bind_res (upload_filename c arg_name) (\<lambda>filename.
               if \<not> up_fopen os filename then Inl Null_Deref
               else if length (hm_body hm) < unat param_len + unat file_len then Inl Out_Of_Bounds
               else let data = take (unat file_len) (drop (unat param_len) (hm_body hm))
                    in Inr (s\<lparr>up_files := (filename, take (up_stored os filename (length data)) data) # up_files s,
                              up_replies := up_replies s @ [Up_Ok]\<rparr>)))"

definition upload_ev_handler ::
    "upload_os \<Rightarrow> upload_config \<Rightarrow> http_message \<Rightarrow> upload_state \<Rightarrow> upload_state res" where
  "upload_ev_handler os c hm s =
     (if hm_uri hm = ''/upload'' \<and> hm_method hm = ''POST'' then file_upload os c hm s else Inr s)"

datatype upload_start = Up_Return int | Up_Exit_Failure | Up_Serving upload_config

text \<open>\<open>main\<close> up to its loop of \<open>mg_mgr_poll\<close>; \<open>bound\<close>: \<open>mg_bind\<close> gave a connection.\<close>

definition upload_main :: "(string \<times> string \<times> string) list \<Rightarrow> int \<Rightarrow> bool \<Rightarrow> upload_start res" where
  "upload_main entries ini_ret bound =
     bind_res (upload_read_config entries ini_ret upload_g_config) (\<lambda>(r, c).
       Inr (if r < 0 then Up_Return (- 1) else if \<not> bound then Up_Exit_Failure else Up_Serving c))"

section \<open>The sanitised name\<close>

definition clean :: "string \<Rightarrow> string" where
  "clean s = map (\<lambda>c. if c \<in> set ok_chars then c else CHR ''_'') s"

lemma underscore_ok [simp]: "CHR ''_'' \<in> set ok_chars"
  by (simp add: ok_chars_def)

lemma ok_chars_no: "CHR ''/'' \<notin> set ok_chars" "NUL \<notin> set ok_chars"
  by (simp_all add: ok_chars_def)

lemma clean_simps [simp]:
  "clean [] = []" "clean (s @ t) = clean s @ clean t" "length (clean s) = length s"
  by (simp_all add: clean_def)

lemma clean_takeWhile: "clean (takeWhile (\<lambda>c. c \<in> set ok_chars) s) = takeWhile (\<lambda>c. c \<in> set ok_chars) s"
  by (induction s) (auto simp: clean_def)

lemma clean_chars: "set (clean s) \<subseteq> set ok_chars"
  by (auto simp: clean_def)

lemma clean_fixed: "set s \<subseteq> set ok_chars \<Longrightarrow> clean s = s"
  by (induction s) (auto simp: clean_def)

text \<open>Invariant of the loop: what lies before \<open>cp\<close> is already clean.\<close>

lemma sanitize_loop_clean:
  "p @ r = s \<Longrightarrow> clean p = p \<Longrightarrow> length p \<le> cp \<Longrightarrow> cp = length p + strspn r ok_chars \<Longrightarrow> sanitize_loop s cp = Some (p @ clean r)"
proof (induction "length r" arbitrary: p r s cp rule: less_induct)
  case less
  define w where "w = takeWhile (\<lambda>c. c \<in> set ok_chars) r"
  obtain v where r: "r = w @ v" using takeWhile_dropWhile_id [of "\<lambda>c. c \<in> set ok_chars" r] unfolding w_def by metis
  have cp: "cp = length (p @ w)" using less.prems(4) by (simp add: strspn_def w_def)
  have w: "clean w = w" unfolding w_def by (rule clean_takeWhile)
  show ?case
  proof (cases v)
    case Nil
    with r cp less.prems(1) w show ?thesis by (subst sanitize_loop.simps) auto
  next
    case (Cons x v')
    have x: "x \<notin> set ok_chars"
    proof -
      have "dropWhile (\<lambda>c. c \<in> set ok_chars) r = v"
        using r w_def takeWhile_dropWhile_id [of "\<lambda>c. c \<in> set ok_chars" r] by (metis same_append_eq)
      with Cons show ?thesis by (metis dropWhile_eq_Cons_conv)
    qed
    let ?s = "(p @ w @ [CHR ''_'']) @ v'"
    have upd: "s[cp := CHR ''_''] = ?s" using r cp Cons less.prems(1) by (auto simp: list_update_append)
    have pos: "cp + strspn (drop cp ?s) ok_chars = length (p @ w @ [CHR ''_'']) + strspn v' ok_chars"
      by (simp add: cp strspn_def)
    have "cp \<noteq> length s" using r cp Cons less.prems(1) by auto
    then have "sanitize_loop s cp = sanitize_loop ?s (length (p @ w @ [CHR ''_'']) + strspn v' ok_chars)"
      by (subst sanitize_loop.simps) (simp only: upd pos Let_def if_False)
    also have "\<dots> = Some ((p @ w @ [CHR ''_'']) @ clean v')"
      using less.prems(2) w by (intro less.hyps) (auto simp: r Cons clean_def)
    finally show ?thesis using x w by (simp add: r Cons clean_def)
  qed
qed


section \<open>Properties\<close>

text \<open>
  C25. The sanitising loop ends for every name and is equivalent to replacing each character that is
  not allowed by an underscore; the allowed ones have no slash, so the name cannot leave the folder.
\<close>

theorem sanitize_is_clean:
  "sanitize arg_name = Some (clean arg_name) \<and> set (clean arg_name) \<subseteq> set ok_chars \<and> CHR ''/'' \<notin> set (clean arg_name)"
  using sanitize_loop_clean [of "[]" arg_name arg_name "strspn arg_name ok_chars"] clean_chars [of arg_name] ok_chars_no(1)
  by (auto simp: sanitize_def)

text \<open>What the handler does, given the text that \<open>mg_get_http_var\<close> stored.\<close>

definition upload_target :: "string \<Rightarrow> string \<Rightarrow> string" where
  "upload_target folder n = take 199 (folder @ ''/'' @ clean n @ ''.wasm'')"

lemma sanitize_clean [simp]: "sanitize n = Some (clean n)"
  using sanitize_loop_clean [of "[]" n n "strspn n ok_chars"] by (simp add: sanitize_def)

lemma clean_cstring [simp]: "cstring (clean n)"
  using clean_chars [of n] ok_chars_no(2) by (auto simp: cstring_def)

lemma upload_filename_ok:
  assumes "text_of (upload_folder c) folder"
  shows "upload_filename c (clean n) = Inr (upload_target folder n)"
proof -
  have "cstring folder" and "read_cstr (upload_folder c) 0 = Inr folder"
    using assms by (auto simp: text_of_iff read_cstr_terminated)
  then show ?thesis by (simp add: upload_filename_def local_text_ok upload_target_def del: take_append append.simps)
qed

lemma file_upload_outcome:
  assumes "up_get_var os (hm_body hm) ''name'' 99 = (ret, n)" and "length n < 99" and "text_of (upload_folder c) folder"
    and "up_fopen os (upload_target folder n)" and "length (hm_body hm) < 2 ^ 32"
  shows "file_upload os c hm s =
    (if length (hm_body hm) < length n + 6 then Inl Out_Of_Bounds
     else let data = drop (length n + 6) (hm_body hm)
          in Inr (s\<lparr>up_files := (upload_target folder n, take (up_stored os (upload_target folder n) (length data)) data) # up_files s,
                    up_replies := up_replies s @ (if ret < 0 then [Up_Bad_Request] else []) @ [Up_Ok]\<rparr>))"
proof -
  let ?p = "word_of_nat (length n + 6) :: 32 word" and ?b = "word_of_nat (length (hm_body hm)) :: 32 word"
  have w: "unat (word_of_nat m :: 32 word) = m" if "m < 2 ^ 32" for m using that by (simp add: unat_of_nat)
  have p: "unat ?p = length n + 6" and b: "unat ?b = length (hm_body hm)"
    by (rule w, use assms(2,5) in simp)+
  have l: "unat (?b - ?p) = (if length (hm_body hm) < length n + 6 then 2 ^ 32 + length (hm_body hm) - (length n + 6)
      else length (hm_body hm) - (length n + 6))"
    using unat_sub_if' [of ?b ?p] p b by (auto simp: word_less_nat_alt word_le_nat_alt)
  have six: "length n + length ''name'' + 2 = length n + 6" by simp
  show ?thesis
    unfolding file_upload_def six Let_def assms(1) prod.case sanitize_clean option.case upload_filename_ok [OF assms(3)] bind_res_simps p l
    using assms(2,4,5) by auto
qed

text \<open>
  An upload without a usable name is answered twice and still written: when mongoose finds no
  name, the handler sends 400, goes on with an empty name, takes the first 6 bytes of the body off
  and writes the rest to \<open><folder>/.wasm\<close>, then sends 200; a body of fewer than 6 bytes makes the
  32-bit length wrap around, so that the write reads far behind the body.
\<close>

theorem upload_without_name:
  assumes "up_get_var os (hm_body hm) ''name'' 99 = (ret, [])" and "ret < 0" and "text_of (upload_folder c) folder"
    and "up_fopen os (upload_target folder [])" and "length (hm_body hm) < 2 ^ 32"
  shows "(length (hm_body hm) < 6 \<longrightarrow> file_upload os c hm s = Inl Out_Of_Bounds)
    \<and> (6 \<le> length (hm_body hm) \<longrightarrow> (\<exists>s' content. file_upload os c hm s = Inr s'
        \<and> up_files s' = (upload_target folder [], content) # up_files s
        \<and> up_replies s' = up_replies s @ [Up_Bad_Request, Up_Ok]))"
  using assms by (auto simp: file_upload_outcome [OF assms(1) _ assms(3-5)] Let_def)

text \<open>
  C24. What is saved is what was sent, exactly for names that need no URL encoding: when the body is
  \<open>name=<r>&<data>\<close> and \<open>r\<close> decodes to the name \<open>n\<close>, the offset of the data is computed from the
  decoded name, so the file gets all of \<open>data\<close>, preceded by the last bytes of \<open>r\<close> and the
  \<open>&\<close> when \<open>r\<close> is longer than \<open>n\<close>.
\<close>

theorem upload_saves_data:
  assumes "hm_body hm = ''name='' @ r @ ''&'' @ data" and "up_get_var os (hm_body hm) ''name'' 99 = (ret, n)"
    and "0 \<le> ret" and "length n < 99" and "length n \<le> length r" and "text_of (upload_folder c) folder"
    and "up_fopen os (upload_target folder n)" and "length (hm_body hm) < 2 ^ 32"
  shows "\<exists>s' content. file_upload os c hm s = Inr s' \<and> up_replies s' = up_replies s @ [Up_Ok]
    \<and> up_files s' = (upload_target folder n, take (up_stored os (upload_target folder n) (length content)) content) # up_files s
    \<and> content = drop (Suc (length n)) (r @ ''&'') @ data \<and> (content = data \<longleftrightarrow> length r = length n)"
proof -
  have d: "drop (length n + 6) (hm_body hm) = drop (Suc (length n)) (r @ ''&'') @ data"
  proof -
    have "drop (length n + 6) (hm_body hm) = drop (Suc (length n)) (drop 5 (hm_body hm))" by (simp add: add.commute)
    also have "drop 5 (hm_body hm) = (r @ ''&'') @ data" by (simp add: assms(1))
    also have "drop (Suc (length n)) \<dots> = drop (Suc (length n)) (r @ ''&'') @ data"
      using assms(5) by (subst drop_append) simp
    finally show ?thesis .
  qed
  have "length n + 6 \<le> length (hm_body hm)" using assms(1,5) by simp
  moreover have "drop (Suc (length n)) (r @ ''&'') @ data = data \<longleftrightarrow> length r = length n"
    using assms(5) by auto
  ultimately show ?thesis
    using assms(3) file_upload_outcome [OF assms(2,4,6-8), of s] d by (simp add: Let_def)
qed


text \<open>A service in the folder \<open>up\<close>; \<open>demo_get_var\<close> decodes plain values at the start of the body.\<close>

definition demo_get_var :: "string \<Rightarrow> string \<Rightarrow> nat \<Rightarrow> int \<times> string" where
  "demo_get_var body name n =
     (let v = takeWhile (\<lambda>c. c \<noteq> CHR ''&'') (drop (Suc (length name)) body)
      in if take (Suc (length name)) body = name @ ''='' \<and> length v < n then (int (length v), v) else (- 4, []))"

definition demo_upload_os :: upload_os where
  "demo_upload_os = \<lparr>up_get_var = demo_get_var, up_fopen = (\<lambda>_. True), up_stored = (\<lambda>_ n. n)\<rparr>"

definition demo_upload_config :: upload_config where
  "demo_upload_config = upload_g_config\<lparr>upload_folder := text_buf 100 ''up''\<rparr>"

definition demo_upload_request :: "string \<Rightarrow> http_message" where
  "demo_upload_request b = \<lparr>hm_method = ''POST'', hm_uri = ''/upload'', hm_body = b, hm_content_type = None\<rparr>"

lemma demo_upload:
  "text_of (upload_folder demo_upload_config) ''up''" "up_fopen demo_upload_os f"
  "hm_body (demo_upload_request b) = b" "up_get_var demo_upload_os = demo_get_var" "up_stored demo_upload_os f n = n"
  by (simp_all add: demo_upload_config_def text_buf_text demo_upload_os_def demo_upload_request_def)

theorem upload_without_name_witness:
  "file_upload demo_upload_os demo_upload_config (demo_upload_request ''x'') \<lparr>up_files = [], up_replies = []\<rparr> = Inl Out_Of_Bounds
   \<and> (\<exists>s' content. file_upload demo_upload_os demo_upload_config (demo_upload_request ''0123456789'') \<lparr>up_files = [], up_replies = []\<rparr> = Inr s'
        \<and> up_files s' = [(''up/.wasm'', content)] \<and> up_replies s' = [Up_Bad_Request, Up_Ok])"
proof -
  have t: "upload_target ''up'' [] = ''up/.wasm''" by (simp add: upload_target_def)
  have v: "up_get_var demo_upload_os (hm_body (demo_upload_request b)) ''name'' 99 = (- 4, [])"
    if "take 5 b \<noteq> ''name=''" for b
    using that by (simp add: demo_upload demo_get_var_def Let_def eval_nat_numeral)
  show ?thesis
    using upload_without_name [OF v _ demo_upload(1) demo_upload(2), of "''x''" "\<lparr>up_files = [], up_replies = []\<rparr>"]
      upload_without_name [OF v _ demo_upload(1) demo_upload(2), of "''0123456789''" "\<lparr>up_files = [], up_replies = []\<rparr>"]
    by (auto simp: demo_upload t)
qed

theorem upload_saves_data_witness:
  "\<exists>s'. file_upload demo_upload_os demo_upload_config (demo_upload_request ''name=pub&DATA'') \<lparr>up_files = [], up_replies = []\<rparr> = Inr s'
    \<and> up_files s' = [(''up/pub.wasm'', ''DATA'')] \<and> up_replies s' = [Up_Ok]"
proof -
  have t: "upload_target ''up'' ''pub'' = ''up/pub.wasm''" by (simp add: upload_target_def clean_fixed ok_chars_def)
  have "hm_body (demo_upload_request ''name=pub&DATA'') = ''name='' @ ''pub'' @ ''&'' @ ''DATA''"
    and "up_get_var demo_upload_os (hm_body (demo_upload_request ''name=pub&DATA'')) ''name'' 99 = (3, ''pub'')"
    by (simp_all add: demo_upload demo_get_var_def)
  from upload_saves_data [OF this _ _ _ demo_upload(1) demo_upload(2), of "\<lparr>up_files = [], up_replies = []\<rparr>"]
  show ?thesis by (auto simp: demo_upload t)
qed

end
