(* ===== verification/Runtime_Host.thy ===== *)
theory Runtime_Host
  imports Runtime_Conn
begin

text \<open>
  The runtime's end of the link (runtime/iwasm_main.c): the thread that accepts or opens the TCP
  connection and hands what it reads to the application manager, \<open>host_send\<close>, which other
  threads call to write to the connection, \<open>host_destroy\<close>, the serial variant, the command line and the start of
  the program. The C file is compiled in two variants (\<open>CONNECTION_UART\<close> or not); both are here.

  The connection thread advances from one place of its code to the next (\<open>host_pc\<close>), each time with
  what the system calls at that place answer. \<open>open_fds\<close> is the kernel's view: the descriptors that
  are open. \<open>getopt_long\<close>, WAMR's start-up functions and the kernel's answers are parameters.
\<close>

section \<open>State\<close>

datatype lock_holder = Server_Thread | Sender

datatype host_pc =
    Srv_Init | Srv_Lock | Srv_Accept | Srv_Check | Srv_Read | Srv_Close
  | Cli_Top | Cli_Socket | Cli_Connect | Cli_Read | Cli_End

record host =
  server_mode :: bool
  listenfd :: int
  sockfd :: int
  sock_lock :: "lock_holder option"
  sigpipe_ignored :: bool
  open_fds :: "int set"
  host_pc :: host_pc
  host_msgs :: "byte list list"              \<comment> \<open>calls of \<open>aee_host_msg_callback\<close>\<close>
  host_writes :: "(int \<times> byte list) list"    \<comment> \<open>calls of \<open>write\<close>: descriptor and bytes\<close>

record host_io =
  h_socket :: int
  h_bind :: int
  h_accept :: int
  h_connect :: int
  h_read :: "byte list"   \<comment> \<open>empty when \<open>read\<close> gives 0 or less\<close>

datatype thread_result = Goes_On host | Blocked | Exits int

definition MAX_BUFF :: nat where
  "MAX_BUFF = 2048"

text \<open>The threads start with both descriptors at -1 and the lock free.\<close>

definition host_start :: "bool \<Rightarrow> host" where
  "host_start srv = \<lparr>server_mode = srv, listenfd = - 1, sockfd = - 1, sock_lock = None, sigpipe_ignored = False,
     open_fds = {}, host_pc = (if srv then Srv_Init else Cli_Top), host_msgs = [], host_writes = []\<rparr>"

section \<open>Sending\<close>

text \<open>
  \<open>host_send\<close> up to the \<open>write\<close> (Some: it returned) and from there; it holds the lock in between.
\<close>

definition host_send_enter :: "host \<Rightarrow> int option \<times> host" where
  "host_send_enter s =
     (if sock_lock s \<noteq> None then (Some (- 1), s)
      else if sockfd s = - 1 then (Some 0, s)
      else (None, s\<lparr>sock_lock := Some Sender\<rparr>))"

definition host_send_write :: "int \<Rightarrow> byte list \<Rightarrow> host \<Rightarrow> int \<times> host" where
  "host_send_write ret buf s = (ret, s\<lparr>host_writes := host_writes s @ [(sockfd s, buf)], sock_lock := None\<rparr>)"

definition host_send :: "int \<Rightarrow> byte list \<Rightarrow> host \<Rightarrow> int \<times> host" where
  "host_send ret buf s =
     (case host_send_enter s of (Some r, s) \<Rightarrow> (r, s) | (None, s) \<Rightarrow> host_send_write ret buf s)"

text \<open>
  \<open>host_destroy\<close>, in its two parts: up to the lock, and with the lock. The second leaves \<open>sockfd\<close> as
  it is. None: it waits for the lock.
\<close>

definition host_destroy_listen :: "host \<Rightarrow> host" where
  "host_destroy_listen s = (if server_mode s then s\<lparr>open_fds := open_fds s - {listenfd s}\<rparr> else s)"

definition host_destroy_sock :: "host \<Rightarrow> host option" where
  "host_destroy_sock s = (if sock_lock s \<noteq> None then None else Some (s\<lparr>open_fds := open_fds s - {sockfd s}\<rparr>))"

definition host_destroy :: "host \<Rightarrow> host option" where
  "host_destroy s = host_destroy_sock (host_destroy_listen s)"

section \<open>The server thread\<close>

definition srv_init :: "host_io \<Rightarrow> host \<Rightarrow> thread_result" where
  "srv_init io s =
     (let s = s\<lparr>sigpipe_ignored := True, listenfd := h_socket io\<rparr>
      in if h_socket io < 0 then Exits 1
         else if h_bind io < 0 then Exits 1
         else Goes_On (s\<lparr>open_fds := insert (h_socket io) (open_fds s), host_pc := Srv_Lock\<rparr>))"

definition srv_accept :: "host_io \<Rightarrow> host \<Rightarrow> thread_result" where
  "srv_accept io s =
     (let fd = h_accept io
      in Goes_On (s\<lparr>sockfd := fd, open_fds := (if fd < 0 then open_fds s else insert fd (open_fds s)),
                    sock_lock := None, host_pc := Srv_Check\<rparr>))"

definition read_message :: "host_io \<Rightarrow> host \<Rightarrow> host" where
  "read_message io s = s\<lparr>host_msgs := host_msgs s @ [take MAX_BUFF (h_read io)]\<rparr>"

definition func_server_mode :: "host_io \<Rightarrow> host \<Rightarrow> thread_result" where
  "func_server_mode io s =
     (case host_pc s of
        Srv_Init \<Rightarrow> srv_init io s
      | Srv_Lock \<Rightarrow> if sock_lock s \<noteq> None then Blocked
                    else Goes_On (s\<lparr>sock_lock := Some Server_Thread, host_pc := Srv_Accept\<rparr>)
      | Srv_Accept \<Rightarrow> srv_accept io s
      | Srv_Check \<Rightarrow> if sockfd s < 0 then Exits 1 else Goes_On (s\<lparr>host_pc := Srv_Read\<rparr>)
      | Srv_Read \<Rightarrow> if h_read io = [] then Goes_On (s\<lparr>host_pc := Srv_Close\<rparr>) else Goes_On (read_message io s)
      | Srv_Close \<Rightarrow> if sock_lock s \<noteq> None then Blocked
                     else Goes_On (s\<lparr>open_fds := open_fds s - {sockfd s}, sockfd := - 1, host_pc := Srv_Lock\<rparr>)
      | _ \<Rightarrow> Blocked)"

section \<open>The client thread\<close>

definition func :: "host_io \<Rightarrow> host \<Rightarrow> thread_result" where
  "func io s =
     (case host_pc s of
        Cli_Top \<Rightarrow>
          Goes_On (s\<lparr>open_fds := (if sockfd s \<noteq> - 1 then open_fds s - {sockfd s} else open_fds s), host_pc := Cli_Socket\<rparr>)
      | Cli_Socket \<Rightarrow>
          if h_socket io = - 1 then Goes_On (s\<lparr>sockfd := - 1, host_pc := Cli_End\<rparr>)
          else Goes_On (s\<lparr>sockfd := h_socket io, open_fds := insert (h_socket io) (open_fds s), host_pc := Cli_Connect\<rparr>)
      | Cli_Connect \<Rightarrow> Goes_On (s\<lparr>host_pc := (if h_connect io \<noteq> 0 then Cli_Top else Cli_Read)\<rparr>)
      | Cli_Read \<Rightarrow> if h_read io = [] then Goes_On (s\<lparr>host_pc := Cli_Top\<rparr>) else Goes_On (read_message io s)
      | _ \<Rightarrow> Blocked)"

section \<open>The connection thread, a sender and the shutdown\<close>

datatype host_label = H_Thread host_io | H_Enter | H_Write int "byte list" | H_Destroy_Listen | H_Destroy_Sock

text \<open>A descriptor that the kernel gives out is not open already.\<close>

definition io_fresh :: "host_io \<Rightarrow> host \<Rightarrow> bool" where
  "io_fresh io s \<longleftrightarrow> h_accept io \<notin> open_fds s \<and> h_socket io \<notin> open_fds s \<and> - 1 \<le> h_accept io \<and> - 1 \<le> h_socket io"

inductive host_step :: "host_label \<Rightarrow> host \<Rightarrow> host \<Rightarrow> bool" where
  thread: "io_fresh io s \<Longrightarrow> (if server_mode s then func_server_mode io s else func io s) = Goes_On s' \<Longrightarrow>
     host_step (H_Thread io) s s'"
| enter: "sock_lock s \<noteq> Some Sender \<Longrightarrow> host_send_enter s = (r, s') \<Longrightarrow> host_step H_Enter s s'"
| put: "sock_lock s = Some Sender \<Longrightarrow> host_send_write ret buf s = (r, s') \<Longrightarrow> host_step (H_Write ret buf) s s'"
| destroy_listen: "host_step H_Destroy_Listen s (host_destroy_listen s)"
| destroy_sock: "host_destroy_sock s = Some s' \<Longrightarrow> host_step H_Destroy_Sock s s'"

text \<open>Before the shutdown: \<open>host_destroy\<close> has not been called.\<close>

definition serving :: "host_label list \<Rightarrow> bool" where
  "serving ls \<longleftrightarrow> H_Destroy_Listen \<notin> set ls \<and> H_Destroy_Sock \<notin> set ls"

inductive host_run :: "host_label list \<Rightarrow> host \<Rightarrow> host \<Rightarrow> bool" where
  stop: "host_run [] s s"
| go: "host_step l s s1 \<Longrightarrow> host_run ls s1 s2 \<Longrightarrow> host_run (l # ls) s s2"

inductive_cases host_stepE: "host_step l s s'"
inductive_simps host_run_Nil [simp]: "host_run [] s s'"
inductive_simps host_run_Cons: "host_run (l # ls) s s'"

lemma host_run_invariant:
  assumes "host_run ls s s'" and "I s" and "\<And>l a b. l \<in> set ls \<Longrightarrow> host_step l a b \<Longrightarrow> I a \<Longrightarrow> I b"
  shows "I s'"
  using assms by (induction rule: host_run.induct) auto

text \<open>
  The invariant of the server: the thread holds the lock exactly while it waits for a client, there
  is a connection exactly while it reads from it, and a descriptor that a sender can see is open.
\<close>

definition server_inv :: "host \<Rightarrow> bool" where
  "server_inv s \<longleftrightarrow>
     server_mode s \<and> host_pc s \<in> {Srv_Init, Srv_Lock, Srv_Accept, Srv_Check, Srv_Read, Srv_Close}
     \<and> (sock_lock s = Some Server_Thread \<longleftrightarrow> host_pc s = Srv_Accept)
     \<and> (sock_lock s = Some Sender \<longrightarrow> sockfd s \<noteq> - 1)
     \<and> (sockfd s = - 1 \<or> sockfd s \<in> open_fds s)
     \<and> (host_pc s \<in> {Srv_Init, Srv_Lock, Srv_Accept} \<longrightarrow> sockfd s = - 1)
     \<and> (host_pc s \<in> {Srv_Read, Srv_Close} \<longrightarrow> sockfd s \<noteq> - 1)"

lemma server_inv_start: "server_inv (host_start True)"
  by (simp add: server_inv_def host_start_def)

lemma server_inv_step:
  assumes "host_step l s s'" and "server_inv s" and "l \<notin> {H_Destroy_Listen, H_Destroy_Sock}"
  shows "server_inv s'"
  using assms(1)
proof cases
  case (thread io)
  then show ?thesis using assms(2)
    by (cases "host_pc s")
       (auto simp: server_inv_def func_server_mode_def srv_init_def srv_accept_def read_message_def io_fresh_def Let_def
         split: if_splits)
next
  case (enter r)
  then show ?thesis using assms(2) by (auto simp: server_inv_def host_send_enter_def split: if_splits)
next
  case (put ret buf r)
  then show ?thesis using assms(2) by (auto simp: server_inv_def host_send_write_def)
qed (use assms(3) in simp_all)

lemma serving_inv: "host_run ls (host_start True) s \<Longrightarrow> serving ls \<Longrightarrow> server_inv s"
  by (rule host_run_invariant [where I = server_inv, OF _ server_inv_start server_inv_step]) (auto simp: serving_def)

text \<open>\<open>host_destroy\<close> on a server with a connection, and a sender behind it.\<close>

lemma destroy_then_send:
  assumes "server_inv s" and "sock_lock s = None" and "sockfd s \<noteq> - 1"
  shows "\<exists>s'. host_run [H_Destroy_Listen, H_Destroy_Sock, H_Enter] s s' \<and> host_destroy s \<noteq> None
    \<and> sock_lock s' = Some Sender \<and> sockfd s' = sockfd s \<and> sockfd s' \<notin> open_fds s'
    \<and> host_writes (snd (host_send_write ret buf s')) = host_writes s @ [(sockfd s, buf)]"
proof -
  define d where "d = (host_destroy_listen s)\<lparr>open_fds := open_fds (host_destroy_listen s) - {sockfd s}\<rparr>"
  have same: "sock_lock (host_destroy_listen s) = None" "sockfd (host_destroy_listen s) = sockfd s"
    "host_writes (host_destroy_listen s) = host_writes s"
    using assms(2) by (simp_all add: host_destroy_listen_def)
  then have sock: "host_destroy_sock (host_destroy_listen s) = Some d" by (simp add: host_destroy_sock_def d_def)
  moreover have "host_step H_Enter d (d\<lparr>sock_lock := Some Sender\<rparr>)"
    using same assms(3) by (intro host_step.enter [where r = None]) (simp_all add: d_def host_send_enter_def)
  ultimately have "host_run [H_Destroy_Listen, H_Destroy_Sock, H_Enter] s (d\<lparr>sock_lock := Some Sender\<rparr>)"
    by (intro host_run.go [OF host_step.destroy_listen] host_run.go [OF host_step.destroy_sock] host_run.go) simp_all
  then show ?thesis using same sock
    by (intro exI [of _ "d\<lparr>sock_lock := Some Sender\<rparr>"]) (simp add: d_def host_destroy_def host_send_write_def)
qed


section \<open>The serial variant\<close>

definition rt_parse_baudrate :: "net_os \<Rightarrow> int \<Rightarrow> 32 word" where
  "rt_parse_baudrate os baud =
     (if baud = 9600 then speed os 9600
      else if baud = 19200 then speed os 19200
      else if baud = 38400 then speed os 38400
      else if baud = 57600 then speed os 57600
      else if baud = 115200 then speed os 115200
      else if baud = 230400 then speed os 230400
      else if baud = 460800 then speed os 460800
      else if baud = 500000 then speed os 500000
      else if baud = 576000 then speed os 576000
      else if baud = 921600 then speed os 921600
      else if baud = 1000000 then speed os 1000000
      else if baud = 1152000 then speed os 1152000
      else if baud = 1500000 then speed os 1500000
      else if baud = 2000000 then speed os 2000000
      else if baud = 2500000 then speed os 2500000
      else if baud = 3000000 then speed os 3000000
      else if baud = 3500000 then speed os 3500000
      else if baud = 4000000 then speed os 4000000
      else - 1)"

text \<open>The result, \<open>*fd\<close> when it was written, and the descriptors that were opened and closed.\<close>

definition rt_uart_init :: "net_os \<Rightarrow> string \<Rightarrow> 32 word \<Rightarrow> bool \<times> int option \<times> int list \<times> int list" where
  "rt_uart_init os device baudrate =
     (let uart_fd = sys_open os device
      in if uart_fd \<le> 0 then (False, None, [], [])
         else let uart_term = \<lparr>c_cflag = baudrate OR CS8 os OR CLOCAL os OR CREAD os, c_iflag = IGNPAR os,
                    c_oflag = 0, c_lflag = 0, cc_vtime = 30, cc_vmin = 1\<rparr>
              in if sys_tcsetattr os uart_fd uart_term \<noteq> 0 then (False, None, [uart_fd], [uart_fd])
                 else (True, Some uart_fd, [uart_fd], []))"

record uart_host =
  uartfd :: int
  uart_msgs :: "byte list list"
  uart_closed :: "int list"
  uart_writes :: "(int \<times> byte list) list"

text \<open>The loop of \<open>func_uart_mode\<close> over what \<open>read\<close> delivers, the empty list for 0 or less.\<close>

fun uart_reads :: "byte list list \<Rightarrow> uart_host \<Rightarrow> uart_host" where
  "uart_reads [] s = s"
| "uart_reads (buf # bufs) s =
     (if buf = [] then s\<lparr>uart_closed := uart_closed s @ [uartfd s], uartfd := - 1\<rparr>
      else uart_reads bufs (s\<lparr>uart_msgs := uart_msgs s @ [take MAX_BUFF buf]\<rparr>))"

definition func_uart_mode :: "net_os \<Rightarrow> string \<Rightarrow> 32 word \<Rightarrow> byte list list \<Rightarrow> uart_host \<Rightarrow> uart_host" where
  "func_uart_mode os uart_device baudrate bufs s =
     (case rt_uart_init os uart_device baudrate of
        (True, Some fd, _, cl) \<Rightarrow> uart_reads bufs (s\<lparr>uartfd := fd, uart_closed := uart_closed s @ cl\<rparr>)
      | (_, _, _, cl) \<Rightarrow> s\<lparr>uart_closed := uart_closed s @ cl\<rparr>)"

definition uart_send :: "int \<Rightarrow> byte list \<Rightarrow> uart_host \<Rightarrow> int \<times> uart_host" where
  "uart_send ret buf s = (ret, s\<lparr>uart_writes := uart_writes s @ [(uartfd s, buf)]\<rparr>)"

definition uart_destroy :: "uart_host \<Rightarrow> uart_host" where
  "uart_destroy s = s\<lparr>uart_closed := uart_closed s @ [uartfd s]\<rparr>"

section \<open>Command line and start\<close>

record host_args =
  arg_server_mode :: bool
  arg_host_address :: string
  arg_port :: int
  arg_uart_device :: string
  arg_baudrate :: "32 word"

definition default_args :: "net_os \<Rightarrow> host_args" where
  "default_args os = \<lparr>arg_server_mode = False, arg_host_address = ''127.0.0.1'', arg_port = 8888,
     arg_uart_device = ''/dev/ttyS2'', arg_baudrate = speed os 115200\<rparr>"

text \<open>
  \<open>uart\<close> is \<open>CONNECTION_UART\<close>; the options are what \<open>getopt_long\<close> delivers before -1, each with
  \<open>optarg\<close>. The first component is false when the usage was shown.
\<close>

fun parse_args :: "net_os \<Rightarrow> bool \<Rightarrow> (char \<times> string) list \<Rightarrow> host_args \<Rightarrow> bool \<times> host_args" where
  "parse_args os uart [] a = (True, a)"
| "parse_args os uart ((c, optarg) # opts) a =
     (if \<not> uart \<and> c = CHR ''s'' then parse_args os uart opts (a\<lparr>arg_server_mode := True\<rparr>)
      else if \<not> uart \<and> c = CHR ''a'' then parse_args os uart opts (a\<lparr>arg_host_address := optarg\<rparr>)
      else if \<not> uart \<and> c = CHR ''p'' then parse_args os uart opts (a\<lparr>arg_port := atol optarg\<rparr>)
      else if uart \<and> c = CHR ''u'' then parse_args os uart opts (a\<lparr>arg_uart_device := optarg\<rparr>)
      else if uart \<and> c = CHR ''b'' then parse_args os uart opts (a\<lparr>arg_baudrate := rt_parse_baudrate os (atol optarg)\<rparr>)
      else (False, a))"

datatype rt_thread = T_Server | T_Client | T_Uart

datatype rt_action =
    Pool_Init | Sys_Init | Connection_Init | Sensor_Init | Timer_Init | Thread_Create rt_thread | App_Manager
  | Sys_Destroy | Pool_Destroy

record start_answers =
  pool_ok :: bool
  sys_ok :: bool
  connection_ok :: bool

definition iwasm_main ::
    "net_os \<Rightarrow> bool \<Rightarrow> start_answers \<Rightarrow> (char \<times> string) list \<Rightarrow> int \<times> rt_action list" where
  "iwasm_main os uart w opts =
     (case parse_args os uart opts (default_args os) of
        (False, _) \<Rightarrow> (- 1, [])
      | (True, a) \<Rightarrow>
          if \<not> pool_ok w then (- 1, [Pool_Init])
          else if \<not> sys_ok w then (- 1, [Pool_Init, Sys_Init, Pool_Destroy])
          else if \<not> connection_ok w then (- 1, [Pool_Init, Sys_Init, Connection_Init, Sys_Destroy, Pool_Destroy])
          else (- 1, [Pool_Init, Sys_Init, Connection_Init, Sensor_Init, Timer_Init,
                      Thread_Create (if uart then T_Uart else if arg_server_mode a then T_Server else T_Client),
                      App_Manager, Pool_Destroy]))"

definition rt_main :: "net_os \<Rightarrow> bool \<Rightarrow> start_answers \<Rightarrow> (char \<times> string) list \<Rightarrow> rt_action list" where
  "rt_main os uart w opts = snd (iwasm_main os uart w opts)"

text \<open>The last argument of an option.\<close>

definition last_arg :: "char \<Rightarrow> (char \<times> string) list \<Rightarrow> string option" where
  "last_arg c opts = map_of (rev opts) c"

lemma last_arg_Cons: "last_arg c ((d, v) # opts) = (case last_arg c opts of None \<Rightarrow> if d = c then Some v else None | Some w \<Rightarrow> Some w)"
  by (auto simp: last_arg_def map_add_def split: option.splits)

lemma parse_args_tcp:
  "parse_args os False opts a = (True, b) \<Longrightarrow>
     fst ` set opts \<subseteq> {CHR ''s'', CHR ''a'', CHR ''p''}
     \<and> arg_server_mode b = (arg_server_mode a \<or> CHR ''s'' \<in> fst ` set opts)
     \<and> arg_port b = (case last_arg CHR ''p'' opts of None \<Rightarrow> arg_port a | Some v \<Rightarrow> atol v)
     \<and> arg_host_address b = (case last_arg CHR ''a'' opts of None \<Rightarrow> arg_host_address a | Some v \<Rightarrow> v)"
proof (induction opts arbitrary: a)
  case Nil
  then show ?case by (simp add: last_arg_def)
next
  case (Cons o1 opts)
  obtain c v where o1: "o1 = (c, v)" by (cases o1)
  show ?case using Cons.prems Cons.IH by (auto simp: o1 last_arg_Cons split: if_splits option.splits)
qed

lemma parse_args_refused:
  "\<not> fst ` set opts \<subseteq> {CHR ''s'', CHR ''a'', CHR ''p''} \<Longrightarrow> fst (parse_args os False opts a) = False"
  using parse_args_tcp [of os opts a "snd (parse_args os False opts a)"]
  by (cases "parse_args os False opts a") auto

lemma parse_args_accepted:
  "fst ` set opts \<subseteq> {CHR ''s'', CHR ''a'', CHR ''p''} \<Longrightarrow> fst (parse_args os False opts a) = True"
  by (induction opts arbitrary: a) auto

section \<open>Properties\<close>

text \<open>
  C10. The server of the runtime, until it is shut down: in every state that its thread and the
  senders reach before \<open>host_destroy\<close> is called, the thread holds the lock exactly while it waits for
  a client, and a sender that got the lock has a connection whose descriptor is open, so that
  \<open>host_send\<close> does not write to a closed one; while the thread waits for a client \<open>host_send\<close> is
  refused with -1 and does not block. The shutdown ends this: \<open>host_destroy\<close> closes the connection
  under the lock but leaves its number in \<open>sockfd\<close>, and in every such state with a connection and
  the lock free, a sender behind it gets the lock and writes to the closed descriptor.
\<close>

theorem server_send_safe:
  assumes "host_run ls (host_start True) s" and "serving ls"
  shows "(sock_lock s = Some Server_Thread \<longleftrightarrow> host_pc s = Srv_Accept)
    \<and> (sock_lock s = Some Sender \<longrightarrow> sockfd s \<in> open_fds s)
    \<and> (host_pc s = Srv_Accept \<longrightarrow> host_send ret buf s = (- 1, s))
    \<and> (sock_lock s = None \<longrightarrow> sockfd s \<noteq> - 1 \<longrightarrow>
        (\<exists>s'. host_run [H_Destroy_Listen, H_Destroy_Sock, H_Enter] s s' \<and> host_destroy s \<noteq> None
          \<and> sock_lock s' = Some Sender \<and> sockfd s' = sockfd s \<and> sockfd s' \<notin> open_fds s'
          \<and> host_writes (snd (host_send_write ret buf s')) = host_writes s @ [(sockfd s, buf)]))"
proof -
  have inv: "server_inv s" by (rule serving_inv [OF assms])
  then have "(sock_lock s = Some Server_Thread \<longleftrightarrow> host_pc s = Srv_Accept)
    \<and> (sock_lock s = Some Sender \<longrightarrow> sockfd s \<in> open_fds s) \<and> (host_pc s = Srv_Accept \<longrightarrow> host_send ret buf s = (- 1, s))"
    by (auto simp: server_inv_def host_send_def host_send_enter_def)
  with destroy_then_send [OF inv, of ret buf] show ?thesis by blast
qed

definition demo_h_io :: "byte list \<Rightarrow> host_io" where
  "demo_h_io buf = \<lparr>h_socket = 3, h_bind = 0, h_accept = 4, h_connect = 0, h_read = buf\<rparr>"

definition demo_connected :: host where
  "demo_connected = (host_start True)\<lparr>listenfd := 3, sockfd := 4, open_fds := {3, 4}, sigpipe_ignored := True, host_pc := Srv_Check\<rparr>"

definition demo_h_io2 :: host_io where
  "demo_h_io2 = (demo_h_io [])\<lparr>h_socket := 5\<rparr>"

lemma demo_server_run:
  "host_run [H_Thread (demo_h_io []), H_Thread demo_h_io2, H_Thread demo_h_io2, H_Enter] (host_start True)
     (demo_connected\<lparr>sock_lock := Some Sender\<rparr>)"
  by (auto simp: host_run_Cons host_step.simps host_start_def demo_h_io_def demo_h_io2_def io_fresh_def func_server_mode_def
      srv_init_def srv_accept_def Let_def host_send_enter_def demo_connected_def)

theorem server_send_safe_witness:
  "sockfd (demo_connected\<lparr>sock_lock := Some Sender\<rparr>) \<in> {3, 4}
   \<and> (\<exists>s'. host_run [H_Destroy_Listen, H_Destroy_Sock, H_Enter] demo_connected s' \<and> sockfd s' = 4 \<and> 4 \<notin> open_fds s')"
proof -
  have "host_run [H_Thread (demo_h_io []), H_Thread demo_h_io2, H_Thread demo_h_io2] (host_start True) demo_connected"
    by (auto simp: host_run_Cons host_step.simps host_start_def demo_h_io_def demo_h_io2_def io_fresh_def func_server_mode_def
        srv_init_def srv_accept_def Let_def demo_connected_def)
  from server_send_safe [OF this, of 0 "[]"] server_send_safe [OF demo_server_run, of 0 "[]"]
  show ?thesis by (auto simp: demo_connected_def host_start_def serving_def)
qed

text \<open>
  The client thread of the runtime closes its socket without the lock: there is a run in which
  a sender, holding the lock, writes to a descriptor that is no longer open.
\<close>

theorem client_send_races:
  "\<exists>ls s. host_run ls (host_start False) s \<and> sock_lock s = Some Sender \<and> sockfd s \<noteq> - 1 \<and> sockfd s \<notin> open_fds s
    \<and> host_writes (snd (host_send_write (- 1) buf s)) = [(sockfd s, buf)]"
proof -
  let ?io = "demo_h_io []"
  define s where "s = (host_start False)\<lparr>sockfd := 3, host_pc := Cli_Socket, sock_lock := Some Sender\<rparr>"
  have "host_run [H_Thread ?io, H_Thread ?io, H_Thread demo_h_io2, H_Enter, H_Thread demo_h_io2, H_Thread demo_h_io2] (host_start False) s"
    by (auto simp: host_run_Cons host_step.simps host_start_def demo_h_io_def demo_h_io2_def io_fresh_def func_def Let_def host_send_enter_def s_def)
  moreover have "sock_lock s = Some Sender" "sockfd s \<noteq> - 1" "sockfd s \<notin> open_fds s"
    "host_writes (snd (host_send_write (- 1) buf s)) = [(sockfd s, buf)]"
    by (simp_all add: s_def host_start_def host_send_write_def)
  ultimately show ?thesis by blast
qed

text \<open>
  The two ends of a serial line agree on what a baud rate means: the runtime's \<open>parse_baudrate\<close>
  and \<open>uart_init\<close> compute what the bridge's do, for every number, device and kernel.
\<close>

theorem uart_ends_agree:
  "rt_parse_baudrate os baud = parse_baudrate os baud
   \<and> (case rt_uart_init os dev b of (ok, fd, _, _) \<Rightarrow> fd = uart_init os dev b \<and> (ok \<longleftrightarrow> fd \<noteq> None))"
proof
  show "rt_parse_baudrate os baud = parse_baudrate os baud"
  proof (cases "0 \<le> baud")
    case True
    then have "(nat baud = numeral n) = (baud = numeral n)" for n by (metis nat_numeral numeral_eq_iff int_nat_eq nat_0_le of_nat_numeral)
    with True show ?thesis by (simp add: rt_parse_baudrate_def parse_baudrate_def baud_rates_def)
  next
    case False
    then show ?thesis by (simp add: rt_parse_baudrate_def parse_baudrate_def)
  qed
  show "case rt_uart_init os dev b of (ok, fd, _, _) \<Rightarrow> fd = uart_init os dev b \<and> (ok \<longleftrightarrow> fd \<noteq> None)"
    by (simp add: rt_uart_init_def uart_init_def uart_term_def Let_def)
qed

text \<open>
  The command line of the TCP build: it is accepted exactly when it has no other option than
  \<open>-s\<close>, \<open>-a\<close> and \<open>-p\<close>; then the port and the address are those of the last option of their kind or
  the defaults, and the thread that is started is the server's exactly when \<open>-s\<close> was given.
  The start has no success: the result is always -1, and the memory pool is destroyed exactly when
  it could be initialised, also while the connection thread still runs.
\<close>

theorem runtime_start:
  assumes "pool_ok w" and "sys_ok w" and "connection_ok w"
  shows "(fst (parse_args os False opts (default_args os)) \<longleftrightarrow> fst ` set opts \<subseteq> {CHR ''s'', CHR ''a'', CHR ''p''})
    \<and> (fst ` set opts \<subseteq> {CHR ''s'', CHR ''a'', CHR ''p''} \<longrightarrow>
         arg_port (snd (parse_args os False opts (default_args os)))
           = (case last_arg CHR ''p'' opts of None \<Rightarrow> 8888 | Some v \<Rightarrow> atol v)
         \<and> iwasm_main os False w opts = (- 1, [Pool_Init, Sys_Init, Connection_Init, Sensor_Init, Timer_Init,
             Thread_Create (if CHR ''s'' \<in> fst ` set opts then T_Server else T_Client), App_Manager, Pool_Destroy]))"
proof (cases "fst ` set opts \<subseteq> {CHR ''s'', CHR ''a'', CHR ''p''}")
  case True
  obtain b where b: "parse_args os False opts (default_args os) = (True, b)"
    using parse_args_accepted [OF True, of os "default_args os"] by (cases "parse_args os False opts (default_args os)") auto
  have d: "arg_port (default_args os) = 8888" "\<not> arg_server_mode (default_args os)" by (simp_all add: default_args_def)
  from True b parse_args_tcp [OF b] assms d show ?thesis
    by (simp add: iwasm_main_def cong: option.case_cong)
next
  case False
  with parse_args_refused [OF False, of os "default_args os"] show ?thesis by simp
qed

theorem runtime_start_witness:
  "iwasm_main demo_os False \<lparr>pool_ok = True, sys_ok = True, connection_ok = True\<rparr> [(CHR ''p'', ''80''), (CHR ''s'', []), (CHR ''p'', ''9000'')]
     = (- 1, [Pool_Init, Sys_Init, Connection_Init, Sensor_Init, Timer_Init, Thread_Create T_Server, App_Manager, Pool_Destroy])
   \<and> arg_port (snd (parse_args demo_os False [(CHR ''p'', ''80''), (CHR ''s'', []), (CHR ''p'', ''9000'')] (default_args demo_os))) = 9000"
proof -
  have "atol ''9000'' = 9000" by code_simp
  with runtime_start [of "\<lparr>pool_ok = True, sys_ok = True, connection_ok = True\<rparr>" demo_os
      "[(CHR ''p'', ''80''), (CHR ''s'', []), (CHR ''p'', ''9000'')]"]
  show ?thesis by (simp add: last_arg_def)
qed

end
