(* ===== verification/Mqtt_Pubsub.thy ===== *)
theory Mqtt_Pubsub
  imports Mqtt
begin

text \<open>
  The library that the modules share with the runtime (runtime/demo-libs/mqtt_pubsub.c), and what a
  module asks the runtime for: the list of \<open>app_call\<close>s. The attribute container functions, \<open>gcvt\<close>,
  \<open>rand\<close>, the arithmetic on \<open>float\<close> and WAMR's packing are fields of \<open>app_env\<close>; a container that
  could not be made is None, and the container functions take it as NULL.
\<close>

section \<open>The application environment\<close>

datatype app_call =
    Post_Request "byte list"
  | Register_Url string
  | Register_Resource string
  | Subscribe_Event string
  | Publish_Event string int "byte list option" int
  | Send_Request request_t string          \<comment> \<open>with the tag for the response handler\<close>
  | Send_Response request_t int int "byte list option" int   \<comment> \<open>the request it answers first\<close>
  | Timer_Create int bool bool
  | Timer_Restart nat int
  | Timer_Cancel "nat option"
  | Dump_Container "byte list option"
  | Read_Raw_Str "byte list option"
  | Malloc int
  | Sensor_Open string
  | Sensor_Config nat int int int
  | Open_Connection "byte list option"
  | Close_Connection nat
  | Send_On_Connection nat string
  | Printf string
  | Print_Response response_t string    \<comment> \<open>the line with the fields of a response and a tag\<close>
  | Print_Handle nat

record ('d, 'f) app_env =
  app_wamr :: wamr_api
  app_create :: "string \<Rightarrow> byte list option"
  app_set_int :: "byte list option \<Rightarrow> string \<Rightarrow> 32 word \<Rightarrow> byte list option"
  app_set_uint16 :: "byte list option \<Rightarrow> string \<Rightarrow> 16 word \<Rightarrow> byte list option"
  app_set_string :: "byte list option \<Rightarrow> string \<Rightarrow> string \<Rightarrow> byte list option"
  app_serialize_length :: "byte list option \<Rightarrow> int"
  app_register_url :: "string \<Rightarrow> bool"
  app_rand :: "nat \<Rightarrow> nat"              \<comment> \<open>the results of \<open>rand\<close>, by number of the call\<close>
  gcvt5 :: "'f \<Rightarrow> string"               \<comment> \<open>the text of \<open>gcvt (x, 5, ...)\<close>\<close>
  walk :: "'f \<Rightarrow> nat \<Rightarrow> 'f"             \<comment> \<open>\<open>x + (rand () / RAND_MAX - 0.5) / 2.0\<close>\<close>
  CONTENT_2_05_code :: int
  DELETED_2_02_code :: int

section \<open>mqtt_pubsub.c\<close>

definition mqtt_publish ::
    "('d, 'f) app_env \<Rightarrow> string \<Rightarrow> int \<Rightarrow> byte list option \<Rightarrow> int \<Rightarrow> app_call list \<Rightarrow> bool \<times> app_call list" where
  "mqtt_publish e u f pl len cs =
     (let request = init_request (app_wamr e) u (COAP_EVENT_PUB (app_wamr e)) f pl len
      in case pack_request (app_wamr e) request of
           None \<Rightarrow> (False, cs)
         | Some buffer \<Rightarrow> (True, cs @ [Post_Request buffer]))"

text \<open>The loop of \<open>mqtt_subscribe\<close> over \<open>topic\<close> and \<open>i\<close>.\<close>

fun copy_topic :: "cbuf \<Rightarrow> nat \<Rightarrow> string \<Rightarrow> (cbuf \<times> nat) res" where
  "copy_topic url_buf i [] = Inr (url_buf, i)"
| "copy_topic url_buf i (c # topic) =
     (if i < length url_buf - 1
      then bind_res (buf_write url_buf i [c]) (\<lambda>b. copy_topic b (i + 1) topic)
      else Inr (url_buf, i))"

text \<open>The content of \<open>url_buf\<close> before it is written does not matter; it is a parameter.\<close>

definition mqtt_subscribe ::
    "('d, 'f) app_env \<Rightarrow> cbuf \<Rightarrow> string \<Rightarrow> app_call list \<Rightarrow> (bool \<times> app_call list) res" where
  "mqtt_subscribe e url_buf topic cs =
     bind_res (strncpy_at url_buf 0 ''/arena/'' (length ''/arena/'')) (\<lambda>b.
     bind_res (copy_topic b (length ''/arena/'') topic) (\<lambda>(b, i).
     bind_res (buf_write b i [NUL]) (\<lambda>b.
     bind_res (read_cstr b 0) (\<lambda>u.
       Inr (app_register_url e u, cs @ [Printf (''registering '' @ u @ '':''), Register_Url u])))))"

section \<open>Lemmas\<close>

lemma copy_topic_text:
  assumes "length b = 256" and "i \<le> 255" and "cstring topic" and "cstring (take i b)"
  shows "\<exists>b' j. copy_topic b i topic = Inr (b', j) \<and> length b' = 256 \<and> j \<le> 255
    \<and> take j b' = take 255 (take i b @ topic) \<and> j = length (take 255 (take i b @ topic))"
  using assms
proof (induction topic arbitrary: b i)
  case Nil
  then show ?case by (simp add: min_def)
next
  case (Cons c topic)
  show ?case
  proof (cases "i < 255")
    case True
    define b1 where "b1 = take i b @ [c] @ drop (Suc i) b"
    have w: "buf_write b i [c] = Inr b1" using True Cons.prems(1) by (simp add: buf_write_def b1_def)
    have l: "length b1 = 256" and t: "take (Suc i) b1 = take i b @ [c]"
      using True Cons.prems(1) by (simp_all add: b1_def)
    have "cstring (take (Suc i) b1)" using Cons.prems(3,4) by (simp add: t)
    from Cons.IH [OF l _ _ this] True Cons.prems(3) obtain b' j where
      "copy_topic b1 (Suc i) topic = Inr (b', j)" "length b' = 256" "j \<le> 255"
      "take j b' = take 255 (take i b @ c # topic)" "j = length (take 255 (take i b @ c # topic))"
      unfolding t append_assoc append_Cons append_Nil by auto
    with w True Cons.prems(1) show ?thesis by simp
  next
    case False
    then have i: "i = 255" using Cons.prems(2) by simp
    with Cons.prems show ?thesis by (simp add: min_def)
  qed
qed

definition demo_container :: "string \<Rightarrow> string \<Rightarrow> byte list" where
  "demo_container k v = [7, 1] @ enc_attr demo_code (k, VString v)"

definition demo_app :: "(int, int) app_env" where
  "demo_app = \<lparr>app_wamr = demo_wamr\<lparr>pack_request := (\<lambda>_. Some [9])\<rparr>, app_create = (\<lambda>_. Some [7, 0]),
     app_set_int = (\<lambda>c _ _. c), app_set_uint16 = (\<lambda>c _ _. c), app_set_string = (\<lambda>_ k v. Some (demo_container k v)),
     app_serialize_length = (\<lambda>c. case c of None \<Rightarrow> 0 | Some b \<Rightarrow> int (length b)), app_register_url = (\<lambda>_. True), app_rand = (\<lambda>n. 7), gcvt5 = (\<lambda>_. ''0.5''),
     walk = (\<lambda>x _. x), CONTENT_2_05_code = 69, DELETED_2_02_code = 66\<rparr>"

text \<open>
  Subscribing to a topic never leaves \<open>url_buf\<close>: whatever the array held before and however
  long the topic is, the registered URL is \<open>/arena/<topic>\<close> cut at 255 bytes, and terminated.
\<close>

theorem mqtt_subscribe_bounded:
  assumes "length url_buf = 256" and "cstring topic"
  shows "\<exists>u. u = take 255 (''/arena/'' @ topic) \<and> cstring u
    \<and> mqtt_subscribe e url_buf topic cs = Inr (app_register_url e u, cs @ [Printf (''registering '' @ u @ '':''), Register_Url u])"
proof -
  define b where "b = ''/arena/'' @ drop 7 url_buf"
  have seven: "length ''/arena/'' = 7" by simp
  have b: "strncpy_at url_buf 0 ''/arena/'' 7 = Inr b" "length b = 256" "take 7 b = ''/arena/''"
    using assms(1) by (simp_all add: strncpy_at_def buf_write_def b_def eval_nat_numeral)
  obtain b' j where c: "copy_topic b 7 topic = Inr (b', j)" "length b' = 256" "j \<le> 255"
    "take j b' = take 255 (''/arena/'' @ topic)" "j = length (take 255 (''/arena/'' @ topic))"
    using copy_topic_text [OF b(2) _ assms(2), of 7] b(3) by (auto simp del: take_append append.simps)
  have t: "cstring (take j b')" unfolding c(4) using assms(2) by (intro cstring_take) simp
  from t have "read_cstr (take j b' @ [NUL] @ drop (Suc j) b') 0 = Inr (take j b')"
    by (simp add: read_cstr_terminated)
  then obtain x where "buf_write b' j [NUL] = Inr x" and "read_cstr x 0 = Inr (take 255 (''/arena/'' @ topic))"
    using c(2-4) by (simp add: buf_write_def del: take_append append.simps)
  with b(1) c(1) t [unfolded c(4)] show ?thesis
    by (intro exI [of _ "take 255 (''/arena/'' @ topic)"]) (simp only: mqtt_subscribe_def seven bind_res_simps prod.case simp_thms)
qed

theorem mqtt_subscribe_bounded_witness:
  "mqtt_subscribe demo_app (replicate 256 CHR ''z'') ''topic/test'' []
     = Inr (True, [Printf ''registering /arena/topic/test:'', Register_Url ''/arena/topic/test''])"
  using mqtt_subscribe_bounded [of "replicate 256 CHR ''z''" "''topic/test''" demo_app "[]"] by (simp add: demo_app_def)

end
