(* ===== verification/Wasm_Apps.thy ===== *)
theory Wasm_Apps
  imports Mqtt_Pubsub
begin

text \<open>
  The modules that run in the WASM runtime (wasm-apps/*.c). A module is a few callbacks over its
  global variables and the list of what it asks the runtime for (theory Mqtt_Pubsub). Lines that
  only compute the text of a \<open>printf\<close> keep it as a call without the newline.
\<close>

section \<open>Publishers and subscribers\<close>

text \<open>\<open>timer\<close> is the handle that the runtime gives to the timer.\<close>

definition start_timer :: "nat \<Rightarrow> app_call list \<Rightarrow> app_call list" where
  "start_timer timer cs = cs @ [Timer_Create 1000 True False, Timer_Restart timer 1000]"

text \<open>timer.c\<close>

definition timer_update :: "32 word \<Rightarrow> app_call list \<Rightarrow> 32 word \<times> app_call list" where
  "timer_update num cs = (num + 1, cs @ [Printf (''Timer update '' @ show_int (sint num))])"

definition timer_on_init :: "nat \<Rightarrow> app_call list \<Rightarrow> app_call list" where
  "timer_on_init timer cs = cs @ [Timer_Create 1000 True False, Timer_Restart timer 1000]"

text \<open>mqtt_publisher.c and mqtt_publisher1.c, which differ in the topic only.\<close>

definition publish_alert :: "('d, 'f) app_env \<Rightarrow> string \<Rightarrow> app_call list \<Rightarrow> app_call list" where
  "publish_alert e topic cs =
     (let msg = app_set_int e (app_set_int e (app_create e ''msg'') ''x'' 5) ''y'' 10
      in snd (mqtt_publish e topic (FMT_ATTR_CONTAINER (app_wamr e)) msg (app_serialize_length e msg) cs))"

definition mqtt_publisher_update :: "('d, 'f) app_env \<Rightarrow> app_call list \<Rightarrow> app_call list" where
  "mqtt_publisher_update e cs = publish_alert e ''topic/test'' cs"

definition mqtt_publisher_on_init :: "nat \<Rightarrow> app_call list \<Rightarrow> app_call list" where
  "mqtt_publisher_on_init timer cs = start_timer timer cs"

definition mqtt_publisher1_update :: "('d, 'f) app_env \<Rightarrow> app_call list \<Rightarrow> app_call list" where
  "mqtt_publisher1_update e cs = publish_alert e ''topic/test1'' cs"

definition mqtt_publisher1_on_init :: "nat \<Rightarrow> app_call list \<Rightarrow> app_call list" where
  "mqtt_publisher1_on_init timer cs = start_timer timer cs"

text \<open>event_publisher.c and event_subscriber.c\<close>

definition publish_overheat_event :: "('d, 'f) app_env \<Rightarrow> app_call list \<Rightarrow> app_call list" where
  "publish_overheat_event e cs =
     (let event = app_set_string e (app_create e ''event'') ''warning'' ''temperature is over high''
      in cs @ [Publish_Event ''alert/overheat'' (FMT_ATTR_CONTAINER (app_wamr e)) event (app_serialize_length e event)])"

definition event_publisher_on_init :: "nat \<Rightarrow> app_call list \<Rightarrow> app_call list" where
  "event_publisher_on_init timer cs = start_timer timer cs"

definition over_heat_event_handler :: "('d, 'f) app_env \<Rightarrow> request_t \<Rightarrow> app_call list \<Rightarrow> app_call list" where
  "over_heat_event_handler e request cs =
     (let cs = cs @ [Printf ''### user over heat event handler called'']
      in if rq_payload request \<noteq> None \<and> fmt request = FMT_ATTR_CONTAINER (app_wamr e)
         then cs @ [Dump_Container (rq_payload request)] else cs)"

text \<open>
  mqtt_subscriber.c and mqtt_subscriber1.c. The condition \<open>request->payload += NULL || ...\<close> adds the
  truth value of the rest to the pointer and tests the sum. The payload is the address in the
  32-bit memory of the module (0 for NULL); the result has the new pointer.
\<close>

definition mqtt_evt_handler ::
    "('d, 'f) app_env \<Rightarrow> 32 word \<Rightarrow> int \<Rightarrow> (32 word \<Rightarrow> byte list) \<Rightarrow> app_call list \<Rightarrow> 32 word \<times> app_call list" where
  "mqtt_evt_handler e pl f mem cs =
     (let cs = cs @ [Printf ''### event handler for 'alert/overheat' called''];
          pl = pl + (if f \<noteq> FMT_ATTR_CONTAINER (app_wamr e) then 1 else 0)
      in if pl \<noteq> 0 then (pl, cs)
         else (pl, cs @ [Read_Raw_Str (if pl = 0 then None else Some (mem pl))]))"

definition mqtt_evt_handler1 ::
    "('d, 'f) app_env \<Rightarrow> 32 word \<Rightarrow> int \<Rightarrow> (32 word \<Rightarrow> byte list) \<Rightarrow> app_call list \<Rightarrow> 32 word \<times> app_call list" where
  "mqtt_evt_handler1 e pl f mem cs = mqtt_evt_handler e pl f mem cs"

text \<open>request_handler.c, request_sender.c, sensor.c\<close>

definition url1_request_handler :: "('d, 'f) app_env \<Rightarrow> request_t \<Rightarrow> app_call list \<Rightarrow> app_call list" where
  "url1_request_handler e request cs =
     (let cs = cs @ [Printf ''[resp] ### user resource 1 handler called''];
          cs = (if rq_payload request \<noteq> None \<and> fmt request = FMT_ATTR_CONTAINER (app_wamr e)
                then cs @ [Dump_Container (rq_payload request)] else cs);
          pl = app_create e ''wasm app response payload''
      in if pl = None then cs
         else let pl = app_set_string e (app_set_string e pl ''key1'' ''value1'') ''key2'' ''value2''
              in cs @ [Send_Response request (CONTENT_2_05_code e) (FMT_ATTR_CONTAINER (app_wamr e)) pl (app_serialize_length e pl)])"

definition url2_request_handler :: "('d, 'f) app_env \<Rightarrow> request_t \<Rightarrow> app_call list \<Rightarrow> app_call list" where
  "url2_request_handler e request cs =
     cs @ [Send_Response request (DELETED_2_02_code e) 0 None 0, Printf ''### user resource 2 handler called'']"

definition my_response_handler ::
    "('d, 'f) app_env \<Rightarrow> response_t option \<Rightarrow> string \<Rightarrow> app_call list \<Rightarrow> app_call list" where
  "my_response_handler e response tag cs =
     (case response of
        None \<Rightarrow> cs @ [Printf ''[req] request timeout!'']
      | Some r \<Rightarrow>
          let cs = cs @ [Print_Response r tag]
          in if r_payload r \<noteq> None \<and> 0 < r_payload_len r \<and> r_fmt r = FMT_ATTR_CONTAINER (app_wamr e)
             then cs @ [Printf ''[req] dump the response payload:'', Dump_Container (r_payload r)] else cs)"

definition test_send_request :: "('d, 'f) app_env \<Rightarrow> string \<Rightarrow> string \<Rightarrow> app_call list \<Rightarrow> app_call list" where
  "test_send_request e u tag cs = cs @ [Send_Request (init_request (app_wamr e) u (COAP_PUT (app_wamr e)) 0 None 0) tag]"

text \<open>The handlers that \<open>on_init\<close> installs, for the modules without a timer.\<close>

definition event_subscriber_on_init :: "app_call list \<Rightarrow> app_call list" where
  "event_subscriber_on_init cs = cs @ [Subscribe_Event ''alert/overheat'']"

definition request_handler_on_init :: "app_call list \<Rightarrow> app_call list" where
  "request_handler_on_init cs = cs @ [Register_Resource ''/url1'', Register_Resource ''/url2'']"

definition request_sender_on_init :: "('d, 'f) app_env \<Rightarrow> app_call list \<Rightarrow> app_call list" where
  "request_sender_on_init e cs =
     test_send_request e ''url1'' ''a general request''
       (test_send_request e ''/app/request_handler/url1'' ''a request to target app'' cs)"

definition mqtt_subscriber_on_init :: "('d, 'f) app_env \<Rightarrow> cbuf \<Rightarrow> app_call list \<Rightarrow> (bool \<times> app_call list) res" where
  "mqtt_subscriber_on_init e url_buf cs = mqtt_subscribe e url_buf ''topic/test'' cs"

definition mqtt_subscriber1_on_init :: "('d, 'f) app_env \<Rightarrow> cbuf \<Rightarrow> app_call list \<Rightarrow> (bool \<times> app_call list) res" where
  "mqtt_subscriber1_on_init e url_buf cs = mqtt_subscribe e url_buf ''topic/test1'' cs"

definition sensor_event_handler :: "byte list option \<Rightarrow> app_call list \<Rightarrow> app_call list" where
  "sensor_event_handler event cs = cs @ [Printf ''### app get sensor event'', Dump_Container event]"

text \<open>The handle of \<open>sensor_open\<close> is a parameter, None for NULL; \<open>sensor_config\<close> gets it as it is.\<close>

definition sensor_on_init :: "nat option \<Rightarrow> app_call list \<Rightarrow> nat option \<times> app_call list" where
  "sensor_on_init h cs =
     (h, cs @ [Printf ''### app on_init 1'', Malloc 100, Printf ''### app on_init 2'', Sensor_Open ''sensor_test'',
               Printf ''### app on_init 3'', Sensor_Config (case h of None \<Rightarrow> 0 | Some n \<Rightarrow> n) 1000 0 0,
               Printf ''### app on_init 4''])"

definition sensor_on_destroy :: "nat option \<Rightarrow> app_call list \<Rightarrow> app_call list" where
  "sensor_on_destroy sensor cs = (case sensor of None \<Rightarrow> cs | Some n \<Rightarrow> cs @ [Sensor_Config n 0 0 0])"

section \<open>Moving objects\<close>

text \<open>The global variables of arena-demo.c, random-walk.c and random-walk-earth.c.\<close>

record 'f walker =
  obj_name :: cbuf
  topic_buf :: cbuf
  pos_x :: 'f
  pos_z :: 'f
  rands :: nat
  calls :: "app_call list"

definition gcvt_text :: "('d, 'f) app_env \<Rightarrow> 'f \<Rightarrow> string res" where
  "gcvt_text e v = bind_res (sprintf_at (zero_buf 20) 0 (gcvt5 e v)) (\<lambda>b. read_cstr b 0)"

definition arena_msg :: "string \<Rightarrow> string \<Rightarrow> string \<Rightarrow> string" where
  "arena_msg n x z =
     ''{\"object_id\" : \"'' @ n @ ''\", \"action\": \"create\", \"type\": \"object\", \"data\": {\"object_type\": \"sphere\", \"position\": {\"x\": \"''
     @ x @ ''\", \"y\": \"1\", \"z\": \"'' @ z @ ''\"}, \"color\": \"#FF0000\"}}''"

definition walk_msg :: "string \<Rightarrow> string \<Rightarrow> string \<Rightarrow> string" where
  "walk_msg n x z = n @ '','' @ x @ '',1,'' @ z @ '',0,0,0,0,0.2,0.2,0.2,#FFEEAA,on''"

text \<open>
  The end of \<open>timer1_update\<close> and of \<open>on_init\<close>: the position is printed into a buffer of \<open>n\<close> bytes and
  published as the attribute \<open>raw_str\<close>.
\<close>

definition publish_position ::
    "('d, 'f) app_env \<Rightarrow> nat \<Rightarrow> (string \<Rightarrow> string \<Rightarrow> string \<Rightarrow> string) \<Rightarrow> 'f walker \<Rightarrow> 'f walker res" where
  "publish_position e n layout s =
     bind_res (gcvt_text e (pos_x s)) (\<lambda>x.
     bind_res (gcvt_text e (pos_z s)) (\<lambda>z.
     bind_res (read_cstr (obj_name s) 0) (\<lambda>nm.
     bind_res (local_text n (layout nm x z)) (\<lambda>m.
     bind_res (read_cstr (topic_buf s) 0) (\<lambda>t.
       let msg = app_set_string e (app_create e ''msg'') ''raw_str'' m
       in Inr (s\<lparr>calls := snd (mqtt_publish e t (FMT_ATTR_CONTAINER (app_wamr e)) msg (app_serialize_length e msg) (calls s))\<rparr>))))))"

definition move :: "('d, 'f) app_env \<Rightarrow> 'f walker \<Rightarrow> 'f walker" where
  "move e s = s\<lparr>pos_x := walk e (pos_x s) (app_rand e (rands s)), pos_z := walk e (pos_z s) (app_rand e (Suc (rands s))),
     rands := Suc (Suc (rands s))\<rparr>"

text \<open>\<open>srand\<close> selects the results of \<open>rand\<close>; the first one is not used.\<close>

definition choose_names :: "('d, 'f) app_env \<Rightarrow> nat \<Rightarrow> string \<Rightarrow> 'f walker \<Rightarrow> 'f walker res" where
  "choose_names e n pfx s =
     (let r = app_rand e (Suc (rands s)); s = s\<lparr>rands := Suc (Suc (rands s))\<rparr>
      in bind_res (snprintf_at (obj_name s) 0 n (''sphere_'' @ show_int (1000 + int r mod 1000))) (\<lambda>nm.
         bind_res (read_cstr nm 0) (\<lambda>t.
         bind_res (snprintf_at (topic_buf s) 0 n (pfx @ t)) (\<lambda>tp.
           Inr (s\<lparr>obj_name := nm, topic_buf := tp\<rparr>)))))"

definition arena_update :: "('d, 'f) app_env \<Rightarrow> 'f walker \<Rightarrow> 'f walker res" where
  "arena_update e s = publish_position e 500 arena_msg (move e s)"

definition arena_on_init :: "('d, 'f) app_env \<Rightarrow> nat \<Rightarrow> 'f walker \<Rightarrow> 'f walker res" where
  "arena_on_init e timer s =
     bind_res (choose_names e 50 ''realm/s/render/'' s) (\<lambda>s.
     bind_res (publish_position e 500 arena_msg s) (\<lambda>s. Inr (s\<lparr>calls := start_timer timer (calls s)\<rparr>)))"

definition random_walk_update :: "('d, 'f) app_env \<Rightarrow> 'f walker \<Rightarrow> 'f walker res" where
  "random_walk_update e s = publish_position e 100 walk_msg (move e s)"

definition random_walk_on_init :: "('d, 'f) app_env \<Rightarrow> nat \<Rightarrow> 'f walker \<Rightarrow> 'f walker res" where
  "random_walk_on_init e timer s =
     bind_res (choose_names e 100 ''/topic/render/'' s) (\<lambda>s. Inr (s\<lparr>calls := start_timer timer (calls s)\<rparr>))"

definition random_walk_earth_update :: "('d, 'f) app_env \<Rightarrow> 'f walker \<Rightarrow> 'f walker res" where
  "random_walk_earth_update e s = publish_position e 100 walk_msg (move e s)"

definition random_walk_earth_on_init :: "('d, 'f) app_env \<Rightarrow> nat \<Rightarrow> 'f walker \<Rightarrow> 'f walker res" where
  "random_walk_earth_on_init e timer s =
     bind_res (choose_names e 100 ''/topic/earth/'' s) (\<lambda>s. Inr (s\<lparr>calls := start_timer timer (calls s)\<rparr>))"

section \<open>connection.c\<close>

text \<open>
  The variables of the module and, for the runtime, the timers that tick and the connections that
  are open.
\<close>

record conn_app =
  conn_num :: "32 word"
  g_timer :: "nat option"
  g_conn :: "nat option"
  ticking :: "nat set"
  open_conns :: "nat set"
  conn_calls :: "app_call list"

datatype conn_event = CONN_EVENT_TYPE_DATA | CONN_EVENT_TYPE_DISCONNECT | CONN_EVENT_OTHER

definition conn_call :: "app_call \<Rightarrow> conn_app \<Rightarrow> conn_app" where
  "conn_call c s = s\<lparr>conn_calls := conn_calls s @ [c]\<rparr>"

text \<open>\<open>data\<close> is what lies behind the pointer, \<open>len\<close> bytes of it.\<close>

definition on_data1 :: "conn_event \<Rightarrow> string \<Rightarrow> conn_app \<Rightarrow> conn_app res" where
  "on_data1 ev data s =
     (if ev = CONN_EVENT_TYPE_DATA
      then bind_res (buf_write (zero_buf 64) 0 data) (\<lambda>b.
           bind_res (read_cstr b 0) (\<lambda>message.
             Inr (conn_call (Printf (''Client got a message from server -> '' @ message)) s)))
      else if ev = CONN_EVENT_TYPE_DISCONNECT then Inr (conn_call (Printf ''connection is close by server!'') s)
      else Inr (conn_call (Printf ''error: got unknown event type!!!'') s))"

definition conn_on_init :: "('d, 'f) app_env \<Rightarrow> nat option \<Rightarrow> nat \<Rightarrow> conn_app \<Rightarrow> conn_app" where
  "conn_on_init e opened timer s =
     (let args = app_set_uint16 e (app_set_string e (app_create e []) ''address'' ''127.0.0.1'') ''port'' 7777;
          s = conn_call (Open_Connection args) (conn_call (Register_Resource ''/close'') s)\<lparr>g_conn := opened\<rparr>
      in case opened of
           None \<Rightarrow> conn_call (Printf ''connect to server fail!'') s
         | Some c \<Rightarrow> s\<lparr>open_conns := insert c (open_conns s), ticking := insert timer (ticking s),
                       conn_calls := start_timer timer (conn_calls s @ [Print_Handle c])\<rparr>)"

text \<open>The callback of a timer that ticks; \<open>api_send_on_connection\<close> gets the handle as it is.\<close>

definition conn_timer_update :: "conn_app \<Rightarrow> conn_app res" where
  "conn_timer_update s =
     bind_res (local_text 64 (''Hello '' @ show_int (sint (conn_num s)))) (\<lambda>message.
       Inr (conn_call (Send_On_Connection (case g_conn s of None \<Rightarrow> 0 | Some c \<Rightarrow> c) message) (s\<lparr>conn_num := conn_num s + 1\<rparr>)))"

text \<open>\<open>g_timer\<close> is NULL unless someone sets it; cancelling it stops that timer.\<close>

definition my_close_handler :: "('d, 'f) app_env \<Rightarrow> request_t \<Rightarrow> conn_app \<Rightarrow> conn_app" where
  "my_close_handler e request s =
     (let s = (case g_conn s of
                 None \<Rightarrow> s
               | Some c \<Rightarrow> conn_call (Close_Connection c) (conn_call (Timer_Cancel (g_timer s))
                   (s\<lparr>ticking := ticking s - set_option (g_timer s), open_conns := open_conns s - {c}\<rparr>)))
      in conn_call (Send_Response request (DELETED_2_02_code e) 0 None 0) s)"

definition conn_start :: conn_app where
  "conn_start = \<lparr>conn_num = 0, g_timer = None, g_conn = None, ticking = {}, open_conns = {}, conn_calls = []\<rparr>"


section \<open>Lemmas\<close>


lemma gcvt_text_ok: "cstring (gcvt5 e v) \<Longrightarrow> length (gcvt5 e v) < 20 \<Longrightarrow> gcvt_text e v = Inr (gcvt5 e v)"
  using sprintf_at_iff(1) [of "gcvt5 e v" "zero_buf 20"] by (auto simp: gcvt_text_def text_of_def)

lemma publish_position_ok:
  assumes "\<forall>v. cstring (gcvt5 e v) \<and> length (gcvt5 e v) < 20" and "text_of (obj_name s) nm" and "text_of (topic_buf s) t"
    and "cstring (layout nm (gcvt5 e (pos_x s)) (gcvt5 e (pos_z s)))" and "0 < n"
  shows "publish_position e n layout s =
    (let msg = app_set_string e (app_create e ''msg'') ''raw_str'' (take (n - 1) (layout nm (gcvt5 e (pos_x s)) (gcvt5 e (pos_z s))))
     in Inr (s\<lparr>calls := snd (mqtt_publish e t (FMT_ATTR_CONTAINER (app_wamr e)) msg (app_serialize_length e msg) (calls s))\<rparr>))"
  using assms by (simp add: publish_position_def gcvt_text_ok local_text_ok text_of_def)

lemma arena_msg_fits:
  assumes "cstring nm" and "cstring x" and "cstring z" and "length nm < 50" and "length x < 20" and "length z < 20"
  shows "cstring (arena_msg nm x z)" and "take 499 (arena_msg nm x z) = arena_msg nm x z"
  using assms by (simp_all add: arena_msg_def)

lemma raw_str_message:
  assumes "holds_attrs (attrs (base e)) c [(''raw_str'', VString m)]" and "mem_ok (base e) = (\<lambda>_. True)"
    and "cJSON_GetObjectItemCaseSensitive (json e) (CObject [(''raw_str'', CString m)]) ''raw_str'' = Some (CString m)"
  shows "event_message e c len = Inr m"
  using holds_attrs_json [OF assms(1)] assms(2,3) by (simp add: event_message_def json_string_def)

text \<open>
  What WAMR's packing is relied on for: the bridge unpacks \<open>b\<close> into a publication with the topic
  \<open>u\<close> and the container \<open>c\<close> of \<open>n\<close> bytes.
\<close>

definition unpacks_as :: "'d bridge_env \<Rightarrow> byte list \<Rightarrow> request_t \<Rightarrow> string \<Rightarrow> byte list \<Rightarrow> int \<Rightarrow> bool" where
  "unpacks_as e b event u c n \<longleftrightarrow>
     unpack_request (wamr (base e)) (Some b) = Some event \<and> url event = u \<and> rq_payload event = Some c
     \<and> payload_len event = n \<and> 0 < n \<and> action event = COAP_EVENT_PUB (wamr (base e))
     \<and> COAP_EVENT_PUB (wamr (base e)) \<notin> {COAP_EVENT_SUB (wamr (base e)), COAP_EVENT_UNSUB (wamr (base e))}"

lemma raw_str_publication:
  assumes "unpacks_as e b event u c n" and "holds_attrs (attrs (base e)) c [(''raw_str'', VString m)]"
    and "mem_ok (base e) = (\<lambda>_. True)"
    and "cJSON_GetObjectItemCaseSensitive (json e) (CObject [(''raw_str'', CString m)]) ''raw_str'' = Some (CString m)"
  shows "publication e event m"
  using assms(1) raw_str_message [OF assms(2-4)] by (simp add: publication_def unpacks_as_def)

lemma arena_posts:
  assumes "text_of (obj_name s) nm" and "text_of (topic_buf s) t" and "length nm < 50"
    and "\<forall>v. cstring (gcvt5 a v) \<and> length (gcvt5 a v) < 20"
    and "m = arena_msg nm (gcvt5 a (pos_x (move a s))) (gcvt5 a (pos_z (move a s)))"
    and "app_set_string a (app_create a ''msg'') ''raw_str'' m = Some c"
    and "pack_request (app_wamr a) (init_request (app_wamr a) t (COAP_EVENT_PUB (app_wamr a))
           (FMT_ATTR_CONTAINER (app_wamr a)) (Some c) (app_serialize_length a (Some c))) = Some b"
  shows "arena_update a s = Inr ((move a s)\<lparr>calls := calls s @ [Post_Request b]\<rparr>)"
proof -
  have cs: "cstring nm" using assms(1) by (simp add: text_of_iff)
  have m: "cstring m" "take 499 m = m"
    using arena_msg_fits [OF cs _ _ assms(3)] assms(4) unfolding assms(5) by simp_all
  have names: "text_of (obj_name (move a s)) nm" "text_of (topic_buf (move a s)) t" "calls (move a s) = calls s"
    using assms(1,2) by (simp_all add: move_def)
  show ?thesis
    unfolding arena_update_def
    using publish_position_ok [OF assms(4) names(1,2), of arena_msg 500] m assms(6,7)
    by (simp add: assms(5) [symmetric] mqtt_publish_def names(3))
qed

section \<open>Properties\<close>

definition demo_walker :: "int walker" where
  "demo_walker = \<lparr>obj_name = text_buf 50 ''sphere_1007'', topic_buf = text_buf 50 ''realm/s/render/sphere_1007'', pos_x = 0,
     pos_z = 1, rands = 2, calls = []\<rparr>"

definition demo_arena_msg :: string where
  "demo_arena_msg = arena_msg ''sphere_1007'' ''0.5'' ''0.5''"

definition demo_position :: request_t where
  "demo_position = \<lparr>mid = 9, url = ''realm/s/render/sphere_1007'', action = 0xAA, fmt = 99,
     rq_payload = Some (demo_container ''raw_str'' demo_arena_msg),
     payload_len = int (length (demo_container ''raw_str'' demo_arena_msg)), sender = 7\<rparr>"

text \<open>
  The subscriber never looks at a message: \<open>request->payload += NULL || ...\<close> makes the handler
  return for every message with a payload, moving the pointer by one when the format is another;
  for a message without a payload in the right format it goes on and reads through NULL.
\<close>

theorem subscriber_ignores_messages:
  "(pl \<noteq> 0 \<and> f = FMT_ATTR_CONTAINER (app_wamr e)
      \<longrightarrow> mqtt_evt_handler e pl f mem cs = (pl, cs @ [Printf ''### event handler for 'alert/overheat' called'']))
   \<and> (pl \<noteq> - 1 \<and> f \<noteq> FMT_ATTR_CONTAINER (app_wamr e)
      \<longrightarrow> mqtt_evt_handler e pl f mem cs = (pl + 1, cs @ [Printf ''### event handler for 'alert/overheat' called'']))
   \<and> (pl = 0 \<and> f = FMT_ATTR_CONTAINER (app_wamr e)
      \<longrightarrow> mqtt_evt_handler e pl f mem cs = (0, cs @ [Printf ''### event handler for 'alert/overheat' called'', Read_Raw_Str None]))
   \<and> Read_Raw_Str (Some bs) \<notin> set (snd (mqtt_evt_handler e pl f mem []))"
proof -
  have "pl + 1 = 0 \<longleftrightarrow> pl = - 1" by (simp add: eq_neg_iff_add_eq_0)
  then show ?thesis by (auto simp: mqtt_evt_handler_def Let_def)
qed

theorem subscriber_ignores_messages_witness:
  "mqtt_evt_handler demo_app 64 99 (\<lambda>_. [1]) [] = (64, [Printf ''### event handler for 'alert/overheat' called''])
   \<and> mqtt_evt_handler demo_app 64 0 (\<lambda>_. [1]) [] = (65, [Printf ''### event handler for 'alert/overheat' called''])
   \<and> mqtt_evt_handler demo_app 0 99 (\<lambda>_. [1]) [] = (0, [Printf ''### event handler for 'alert/overheat' called'', Read_Raw_Str None])"
proof -
  have "FMT_ATTR_CONTAINER (app_wamr demo_app) = 99" by (simp add: demo_app_def demo_wamr_def)
  then show ?thesis
    using subscriber_ignores_messages [of 64 99 demo_app "\<lambda>_. [1]" "[]"] subscriber_ignores_messages [of 64 0 demo_app "\<lambda>_. [1]" "[]"]
      subscriber_ignores_messages [of 0 99 demo_app "\<lambda>_. [1]" "[]"] by simp
qed

text \<open>
  A message of the server is printed without leaving its array exactly when it is shorter than
  64 bytes, or has 64 bytes and a terminator among them.
\<close>

theorem on_data1_bounds:
  "(\<exists>s'. on_data1 CONN_EVENT_TYPE_DATA data s = Inr s') \<longleftrightarrow> length data < 64 \<or> length data = 64 \<and> NUL \<in> set data"
proof (cases "length data \<le> 64")
  case True
  then have "buf_write (zero_buf 64) 0 data = Inr (data @ zero_buf (64 - length data))"
    by (simp add: buf_write_def zero_buf_def)
  moreover have "NUL \<in> set (data @ zero_buf (64 - length data)) \<longleftrightarrow> length data < 64 \<or> NUL \<in> set data"
    by (auto simp: zero_buf_def)
  ultimately show ?thesis using True by (auto simp: on_data1_def read_cstr_def)
qed (simp add: on_data1_def buf_write_def)

text \<open>
  Closing does not stop the client: the timer of \<open>on_init\<close> is kept in a local variable and the
  one that \<open>/close\<close> cancels is a global that nobody sets, so after the request the timer still
  ticks and each tick sends on the connection that has been closed.
\<close>

theorem close_leaves_timer:
  "let s = my_close_handler e request (conn_on_init e (Some c) timer conn_start)
   in timer \<in> ticking s \<and> c \<notin> open_conns s \<and> Close_Connection c \<in> set (conn_calls s)
     \<and> (\<exists>s'. conn_timer_update s = Inr s' \<and> conn_calls s' = conn_calls s @ [Send_On_Connection c ''Hello 0''] \<and> timer \<in> ticking s')"
proof -
  define s where "s = my_close_handler e request (conn_on_init e (Some c) timer conn_start)"
  have s: "timer \<in> ticking s" "c \<notin> open_conns s" "Close_Connection c \<in> set (conn_calls s)" "g_conn s = Some c" "conn_num s = 0"
    by (simp_all add: s_def my_close_handler_def conn_on_init_def conn_start_def conn_call_def Let_def)
  have "show_int 0 = ''0''" by code_simp
  then have "local_text 64 (''Hello '' @ show_int (sint (conn_num s))) = Inr ''Hello 0''"
    using local_text_ok [of "''Hello 0''" 64] s(5) by simp
  with s show ?thesis by (simp add: s_def [symmetric] conn_timer_update_def conn_call_def)
qed

end
