(* ===== verification/Spec2Isabelle.thy ===== *)
theory Spec2Isabelle
  imports Send_Threads Pending_Threads Reconnect Queue_Tails Queue_Xor Upload Runtime_Host Wasm_Apps
begin

text \<open>
  Verification of wamr-demo: WebAssembly modules on an embedded runtime (WAMR), a bridge that
  connects the runtime with MQTT and REST clients, and a service that takes uploads of module files.

  The program and where it is modelled.

  (1) The bridge, bridge-tool/src, one process with two threads. The main thread
  (bridge-tool.c, \<open>main\<close>) keeps the connection to the runtime, waits for it and for MQTT with
  \<open>select\<close>, and passes messages on; the HTTP thread (http.c) serves REST clients, sends a request to
  the runtime and waits until the main thread has seen the response.

    Imrt_Link: the receiver of the link. \<open>on_imrt_link_byte_arrive\<close> and \<open>process_rcvd_data\<close>
      (runtime_conn.c) over \<open>imrt_link_recv_context_t\<close> (runtime_conn.h); \<open>receive_reads\<close> is the reads
      of the main loop one after the other.
    Runtime_Send: the sender. \<open>host_tool_send_data\<close> with its retries (runtime_conn.c) and
      \<open>send_request\<close> (runtime_request.c) over the record \<open>link_out\<close> of what reached the wire.
    Send_Threads: the same four calls of \<open>send_request\<close>, taken in turns by the two threads.
    C_Strings, Attr_Json: fixed arrays of \<open>char\<close>; \<open>attr2json\<close> and \<open>json2attr\<close>
      (bridge_tool_utils.c).
    Runtime_Request: the requests \<open>rt_req_*\<close> (runtime_request.c) and the record of the pending
      request, the variables \<open>g_mid\<close> and \<open>g_req_op_type\<close> (runtime_conn.c).
    Runtime_Reply: unpacking and reading responses and events (runtime_conn.c).
    Runtime_Conn: TCP, UDP and serial connections, \<open>runtime_conn_init\<close> (runtime_conn.c).
    Config: config.c. The entries of the file, in order, are the argument.
    Slist, Module_List: the \<open>SLIST\<close> macros (external/queue/queue.h) on a heap of nodes, and the
      registry of modules and their topics (module_list.c), refined to a list of modules.
    Queue_Cells, Queue_Lists, Queue_Tails, Queue_Simple, Queue_Xor: the other macros of queue.h, which
      keep addresses of link cells, so that their memory is cells of one pointer; the program has no
      list of these kinds yet.
    Mqtt: mqtt.c. Mongoose is what it delivers (\<open>poll\<close>) and what it is asked to do (\<open>mq_out\<close>).
    Http: http.c. A handler is two steps: up to the wait (\<open>http_ev_handler\<close>) and behind it
      (\<open>http_answer\<close>).
    Bridge_Main: bridge-tool.c. One turn of the loop is \<open>main_iter\<close> over the answers of its system
      calls; \<open>bridge_step\<close> interleaves turns with the two steps of the HTTP thread.
    Sessions, Reconnect: runs of \<open>bridge_step\<close> with any number of queries, publications of modules
      and idle turns, over keep-alive periods (\<open>session_steps\<close>), and with connections that are lost
      and opened again (\<open>lost\<close>, \<open>outage\<close>, \<open>reconnected\<close>, \<open>mqtt_null\<close>).
    Pending_Threads: the record of the pending request between the two threads, with the calls of the
      response handling as single steps (\<open>pending_step\<close>), and runs of \<open>bridge_step\<close> in which a message
      from MQTT comes between a request, its response and the answer.

  (2) The runtime's host program, runtime/. Runtime_Host models iwasm_main.c: the connection thread by
  the places in its code where another thread can come in (\<open>host_pc\<close>), \<open>host_send\<close> with its lock and
  \<open>host_destroy\<close> as steps of the other threads, the serial variant, the command line and the start. Mqtt_Pubsub models demo-libs/mqtt_pubsub.c, the
  library that modules call.

  (3) The modules, wasm-apps/. Wasm_Apps models the callbacks of each over its global variables.

  (4) The upload service, http_upload/http_upload.c, in Upload: configuration, request handler and
  sanitising of names.

  C that is undefined is a value: a routine that may read or write outside an object, through NULL,
  or a variable that was not written, gives \<open>Inl\<close> of a \<open>fault\<close> (theory Bridge_Prelude), and the
  properties say on which inputs it does. Integers whose width matters are words; where the code
  compares an \<open>int\<close> that cannot leave its range they are \<open>int\<close> or \<open>nat\<close>.

  What the lemmas show. Of the link: every frame is received exactly once however the transport cuts
  it, the receiver leaves its buffers exactly when it stores a byte in memory that \<open>malloc\<close> did not
  give, a sent frame is a prefix of the right bytes and all of
  them exactly when 0 is returned (\<open>byte_sink\<close> is the contract of one write; \<open>host_sink\<close> is the
  interpretation), and two threads that send at once can lose both requests, while one after the other
  both arrive if no read holds bytes of both. Of the registry: the
  operations on the heap implement those on a list (\<open>module_registry\<close>, interpreted as \<open>reg\<close>), except
  where they read a freed node. Of the queues: every sequence of macros does to the cells what the
  operations do to a list (\<open>linked\<close>, interpreted for each of the four kinds), and the masked links
  of \<open>XSIMPLEQ\<close> are equivalent to plain ones. Of texts: what the builders of URLs hold (\<open>bounded_text\<close>, interpreted
  as \<open>url_buf\<close>). Of the JSON translations: a container decodes to its attributes, a plain object comes
  back from a container as it was, and a byte array of 65536 bytes or more has no translation. Of the
  two threads of the bridge: what is kept by every step (\<open>keeping\<close>), from which follow that only a
  response ends a wait, that the static texts stay terminated and hold every MQTT event, and in which
  runs the receiver leaves its memory; that handling the response to an installation is undefined, so
  that a run is followed no further than to there and no module is registered in it; and what the missing locks lead to: an answer to another client's
  request, a wake-up that is lost, a response that ends the program. Of sessions: every query gets
  its own answer in its turn, and MQTT every publication and one ping per elapsed period
  (\<open>session_run\<close>), also after a runtime that was lost between two frames and reached again within the
  attempts; inside a frame the stale receiver swallows what follows; a failure to open MQTT again
  leaves a NULL pointer that the next turn reads. Of the whole: a query is answered through both
  threads, what a module publishes is what the bridge publishes to MQTT, a message from MQTT arrives
  at the other end of the link as one event, the bridge opens the file that the upload
  service saved, and an uploaded module is on the wire to the runtime as one install frame.

  Steps of the threads. In \<open>bridge_step\<close> a turn of the main loop and each half of an HTTP request are
  one step; the finer interleavings that matter have their own relations: the writes to the link in
  Send_Threads, the calls on the pending request in Pending_Threads, the socket and its lock in
  Runtime_Host.

  Bounds and fuel. A send tries each of its four pieces at most eleven times (44 calls of \<open>write\<close>); a
  frame has at most 1 MB of payload and one read at most \<open>BUF_SIZE\<close> = 1024 bytes. The list loops have
  as fuel the number of addresses that were ever handed out, which no list without a cycle exceeds
  (\<open>mlist_rep_fuel\<close>). The loops of \<open>attr2json\<close> over byte arrays and of the upload service's sanitising may
  not end a priori and are partial functions into \<open>option\<close>; it is proved that the first, on an array of
  65536 bytes or more, ends only when memory runs out and then with NULL, and that the second always
  ends. The endless loops of \<open>main\<close> and of the threads are step relations
  with runs of any finite length.

  Parameters. WAMR's packing, its containers and its constants (\<open>wamr_api\<close>, \<open>attr_api\<close>), cJSON, inih,
  Mongoose, the C library's \<open>rand\<close>, \<open>gcvt\<close> and \<open>malloc\<close>, the kernel's answers. Where a property relies on
  how one of them behaves, it is a hypothesis with a witness. The copies that the MQTT and HTTP
  handlers make with \<open>malloc\<close> are assumed to be made; \<open>fwrite\<close> is assumed to store what it is given.

  Not modelled. \<open>mg_mgr_poll\<close> and the loops around it, which only call Mongoose; the texts that the
  bridge prints to its terminal, except where printing is undefined; \<open>showUsage\<close>; the table of native
  symbols (runtime/ext_lib_export.c), which an included WAMR file fills; \<open>_Q_INVALIDATE\<close> of queue.h, which
  is empty in this build; the network visualiser (Python and JavaScript); the
  build and container scripts.
\<close>

section \<open>Properties that span components\<close>

text \<open>
  C5. From a module to MQTT, at any point of any run that began without registered modules: when the
  timer of the arena demo ticks, the demo posts one packet; the turn of the bridge's main loop that
  reads this packet in a frame publishes, under the module's topic, the message with the new
  position, character for character, and is ready for the next frame. The container functions build
  what their names say (\<open>holds_attrs\<close>), WAMR unpacks what it packed (\<open>unpacks_as\<close>), cJSON's lookup
  finds the member, and MQTT delivers nothing during the turn (\<open>quiet\<close>, \<open>quiet_turn\<close>).
\<close>

theorem arena_position_reaches_mqtt:
  assumes "text_of (obj_name w) nm" and "text_of (topic_buf w) t" and "length nm < 50"
    and "\<forall>v. cstring (gcvt5 a v) \<and> length (gcvt5 a v) < 20"
    and "m = arena_msg nm (gcvt5 a (pos_x (move a w))) (gcvt5 a (pos_z (move a w)))"
    and "app_set_string a (app_create a ''msg'') ''raw_str'' m = Some c"
    and "pack_request (app_wamr a) (init_request (app_wamr a) t (COAP_EVENT_PUB (app_wamr a))
           (FMT_ATTR_CONTAINER (app_wamr a)) (Some c) (app_serialize_length a (Some c))) = Some b"
    and "unpacks_as (br (he e)) b event t c (app_serialize_length a (Some c))"
    and "holds_attrs (attrs (m_base e)) c [(''raw_str'', VString m)]" and "mem_ok (m_base e) = (\<lambda>_. True)"
    and "cJSON_GetObjectItemCaseSensitive (json (br (he e))) (CObject [(''raw_str'', CString m)]) ''raw_str'' = Some (CString m)"
    and "quiet (br (he e))" and "bridge_run e ls s0 s" and "represents (m_reg (mq (hs s0))) []"
    and "quiet_turn e io s (link_frame ty b)" and "frame_arrives e s ty b"
    and "uint ty = REQUEST_PACKET (link_consts (wamr (m_base e)))"
    and "REQUEST_PACKET (link_consts (wamr (m_base e))) \<noteq> RESPONSE_PACKET (link_consts (wamr (m_base e)))"
  shows "\<exists>w' s'. arena_update a w = Inr w' \<and> calls w' = calls w @ [Post_Request b]
    \<and> bridge_run e (ls @ [S_main io]) s0 s'
    \<and> mq_out (mq (hs s')) = mq_out (mq (hs s)) @ [Mq_Publish t m] \<and> phase (recv_ctx s') = Phase_Non_Start"
proof -
  have event: "unpack_request (wamr (m_base e)) (Some b) = Some event" "url event = t"
    using assms(8) by (simp_all add: unpacks_as_def)
  have reg: "represents (m_reg (mq (hs s))) []" using run_lasts [OF assms(13)] assms(14) by (simp add: lasts_def)
  obtain s' where "bridge_step e (S_main io) s s'" "mq_out (mq (hs s')) = mq_out (mq (hs s)) @ [Mq_Publish t m]"
    "phase (recv_ctx s') = Phase_Non_Start"
    using event_published [OF assms(15-18) event(1) raw_str_publication [OF assms(8-11)] assms(12) reg] event(2) by blast
  with arena_posts [OF assms(1-7)] run_snoc [OF assms(13)] show ?thesis by auto
qed

definition demo_app_main :: "int main_env" where
  "demo_app_main = demo_main\<lparr>he := (he demo_main)\<lparr>br := (br (he demo_main))\<lparr>base := demo_env\<lparr>wamr := demo_wamr
     \<lparr>unpack_request := (\<lambda>p. if p = Some [9] then Some demo_position else None)\<rparr>\<rparr>\<rparr>\<rparr>\<rparr>"

lemma demo_container_holds:
  assumes "cstring v" and "length v < 65535"
  shows "holds_attrs demo_attr (demo_container ''raw_str'' v) [(''raw_str'', VString v)]"
  unfolding holds_attrs_def demo_container_def
proof (intro conjI exI)
  show "\<forall>a. attr_kind_of demo_attr (scast (demo_code a)) = Some a" using demo_codes by blast
  show "attr_begin demo_attr ([7, 1] @ enc_attr demo_code (''raw_str'', VString v))
      = Some (length [7 :: byte, 1], 0, word_of_nat (length [(''raw_str'', VString v)]))"
    by (simp add: demo_attr_def)
  show "[7, 1] @ enc_attr demo_code (''raw_str'', VString v)
      = [7, 1] @ concat (map (enc_attr demo_code) [(''raw_str'', VString v)]) @ []" by simp
qed (use assms in \<open>simp_all add: demo_attr_def attr_fits_def\<close>)

theorem arena_position_reaches_mqtt_witness:
  "\<exists>w' s'. arena_update demo_app demo_walker = Inr w' \<and> calls w' = [Post_Request [9]]
    \<and> bridge_run demo_app_main [S_main (demo_io (link_frame 50 [9]))] demo_idle s'
    \<and> mq_out (mq (hs s')) = [Mq_Publish ''realm/s/render/sphere_1007'' demo_arena_msg]"
proof -
  have names: "text_of (obj_name demo_walker) ''sphere_1007''" "text_of (topic_buf demo_walker) ''realm/s/render/sphere_1007''"
    by (simp_all add: demo_walker_def text_buf_text)
  have short: "length ''sphere_1007'' < 50" "\<forall>v. cstring (gcvt5 demo_app v) \<and> length (gcvt5 demo_app v) < 20"
    by (simp_all add: demo_app_def)
  have m: "demo_arena_msg = arena_msg ''sphere_1007'' (gcvt5 demo_app (pos_x (move demo_app demo_walker)))
      (gcvt5 demo_app (pos_z (move demo_app demo_walker)))"
    by (simp add: demo_app_def demo_arena_msg_def)
  have set: "app_set_string demo_app (app_create demo_app ''msg'') ''raw_str'' demo_arena_msg
      = Some (demo_container ''raw_str'' demo_arena_msg)" by (simp add: demo_app_def)
  have pack: "pack_request (app_wamr demo_app) r = Some [9]" for r by (simp add: demo_app_def)
  have unpack: "unpacks_as (br (he demo_app_main)) [9] demo_position ''realm/s/render/sphere_1007''
      (demo_container ''raw_str'' demo_arena_msg) (app_serialize_length demo_app (Some (demo_container ''raw_str'' demo_arena_msg)))"
    by (simp add: unpacks_as_def demo_app_main_def demo_position_def demo_wamr_def demo_app_def demo_container_def)
  have "cstring demo_arena_msg" and "length demo_arena_msg < 65535" by (simp_all add: demo_arena_msg_def arena_msg_def)
  then have holds: "holds_attrs (attrs (m_base demo_app_main)) (demo_container ''raw_str'' demo_arena_msg) [(''raw_str'', VString demo_arena_msg)]"
    using demo_container_holds by (simp add: demo_app_main_def demo_env_def)
  have bridge: "mem_ok (m_base demo_app_main) = (\<lambda>_. True)"
    "cJSON_GetObjectItemCaseSensitive (json (br (he demo_app_main))) (CObject [(''raw_str'', CString demo_arena_msg)]) ''raw_str''
      = Some (CString demo_arena_msg)" "quiet (br (he demo_app_main))"
    by (simp_all add: demo_app_main_def demo_main_def demo_http_def demo_bridge_def demo_json_def demo_env_def quiet_def)
  have start: "bridge_run demo_app_main [] demo_idle demo_idle" "represents (m_reg (mq (hs demo_idle))) []"
    by (simp_all add: demo_idle_def represents_empty)
  have link: "quiet_turn demo_app_main (demo_io (link_frame 50 [9])) demo_idle (link_frame 50 [9])"
    "frame_arrives demo_app_main demo_idle 50 [9]" "uint (50 :: 16 word) = REQUEST_PACKET (link_consts (wamr (m_base demo_app_main)))"
    "REQUEST_PACKET (link_consts (wamr (m_base demo_app_main))) \<noteq> RESPONSE_PACKET (link_consts (wamr (m_base demo_app_main)))"
    by (simp_all add: quiet_turn_def calm_turn_def frame_arrives_def demo_app_main_def demo_main_def demo_http_def demo_idle_def demo_io_def
        recv_ctx_init_def payload_fits_def zeroed_def demo_env_def demo_wamr_def demo_consts_def BUF_SIZE_def link_frame_def
        leading_def mem16_def mem32_def)
  have "calls demo_walker = []" and "mq_out (mq (hs demo_idle)) = []"
    by (simp_all add: demo_walker_def demo_idle_def demo_mqtt_def)
  with arena_position_reaches_mqtt [OF names short m set pack unpack holds bridge start link] show ?thesis by auto
qed

text \<open>
  C6. From MQTT to the runtime: a turn of the main loop in which MQTT delivers one message on a topic
  that is not the bridge's own puts one frame on the connection, and a receiver at the other end, in
  whatever pieces it reads it, gets exactly one message with the packed event on \<open>/event/<topic>\<close>
  whose payload is the container made of the message's JSON (of its text as \<open>raw_str\<close> when it does
  not parse). The event is then the pending request. The connection takes what is written; WAMR
  packs the request into \<open>p\<close>, and the container can be made.
\<close>

theorem mqtt_message_reaches_runtime:
  assumes "mqtt_turn e io s [MG_EV_MQTT_PUBLISH topic m]" and "text_of (s_rt_topic (mq (hs s))) own"
    and "cstring topic" and "cstring m" and "topic \<noteq> own"
    and "incoming_json (br (he e)) m = Some j" and "json2attr (attrs (m_base e)) (mem_ok (m_base e)) j = Some c"
    and "pack_request (wamr (m_base e))
          ((init_request (wamr (m_base e)) (''/event/'' @ topic) (COAP_EVENT_PUB (wamr (m_base e)))
              (FMT_ATTR_CONTAINER (wamr (m_base e))) (Some c) (attr_serialize_length (attrs (m_base e)) c))
            \<lparr>mid := rnd (m_base e) (rand_calls (rt_of s))\<rparr>) = Some p"
    and "payload_fits p" and "accepts n (kern (m_base e))" and "length p \<le> n" and "4 \<le> n"
    and "g_runtime_conn_fd (lnk (rt_of s)) \<noteq> - 1"
    and "phase ctx = Phase_Non_Start" and "malloc_sized malloc" and "malloc (length p) = Some b"
    and "reply_of k (request_msg_type (wamr (m_base e)) False) \<noteq> - 1"
  shows "\<exists>s' q. bridge_step e (S_main io) s s'
    \<and> get_pending_request_info (rt_of s') = (rnd (m_base e) (rand_calls (rt_of s)), REQUEST)
    \<and> written (lnk (rt_of s')) = written (lnk (rt_of s)) @ q
    \<and> (\<forall>reads. concat reads = q \<longrightarrow> receive_reads malloc k reads ctx
        = Inr ([(reply_of k (request_msg_type (wamr (m_base e)) False),
                 message (received (request_msg_type (wamr (m_base e)) False) p))],
               received (request_msg_type (wamr (m_base e)) False) p))"
proof -
  let ?q = "link_frame (request_msg_type (wamr (m_base e)) False) p"
  obtain s' where s': "bridge_step e (S_main io) s s'"
    "rt_of s' = snd (rt_req_request (m_base e) (''/event/'' @ topic) (COAP_EVENT_PUB (wamr (m_base e))) (Some j) (rt_of s))"
    using mqtt_turn_step [OF assms(1-5)] assms(6) by auto
  obtain r rt where rt: "rt_req_request (m_base e) (''/event/'' @ topic) (COAP_EVENT_PUB (wamr (m_base e))) (Some j) (rt_of s) = (r, rt)"
    by fastforce
  have i: "issue (m_base e) REQUEST False (''/event/'' @ topic) (COAP_EVENT_PUB (wamr (m_base e)))
      (FMT_ATTR_CONTAINER (wamr (m_base e))) (Some c) (attr_serialize_length (attrs (m_base e)) c) (rt_of s) = (r, rt)"
    using rt assms(7) by (simp add: rt_req_request_def)
  have "int_sized p" using assms(9) by (simp add: payload_fits_def int_sized_def)
  from issue_effect(3) [OF i] accepting_request [OF assms(10,8) this assms(11-13)]
  have "written (lnk rt) = written (lnk (rt_of s)) @ ?q" by simp
  moreover have "get_pending_request_info rt = (rnd (m_base e) (rand_calls (rt_of s)), REQUEST)"
    using issue_pending [OF i] by (simp add: get_pending_request_info_def)
  moreover have "rt_of s' = rt" using s'(2) rt by simp
  ultimately show ?thesis
    using s'(1) receive_frame_fragmented [OF _ assms(14,9,15-17)] by blast
qed

definition demo_mqtt_main :: "int main_env" where
  "demo_mqtt_main = demo_main\<lparr>he := (he demo_main)\<lparr>br := (br (he demo_main))
     \<lparr>base := demo_env\<lparr>wamr := demo_wamr\<lparr>pack_request := (\<lambda>_. Some [9, 9])\<rparr>\<rparr>, poll := (\<lambda>_. [MG_EV_MQTT_PUBLISH ''light'' ''on''])\<rparr>\<rparr>\<rparr>"

theorem mqtt_message_reaches_runtime_witness:
  "\<exists>s' q. bridge_step demo_mqtt_main (S_main ((demo_io [])\<lparr>io_select := Select_Ready True False\<rparr>)) demo_idle s'
    \<and> written (lnk (rt_of s')) = q
    \<and> (\<forall>reads. concat reads = q \<longrightarrow> receive_reads zeroed demo_consts reads recv_ctx_init
        = Inr ([(REPLY_TYPE_EVENT, message (received 50 [9, 9]))], received 50 [9, 9]))"
proof -
  let ?io = "(demo_io [])\<lparr>io_select := Select_Ready True False\<rparr>"
  let ?j = "CObject [(''id'', CString ''12''), (''name'', CString ''on'')]"
  note defs = demo_mqtt_main_def demo_main_def demo_http_def demo_bridge_def demo_idle_def demo_io_def demo_env_def demo_http_state_def
    demo_mqtt_def demo_rt_def demo_out_def demo_wamr_def
  have t: "mqtt_turn demo_mqtt_main ?io demo_idle [MG_EV_MQTT_PUBLISH ''light'' ''on'']"
    unfolding mqtt_turn_def by (intro conjI exI [of _ False]) (simp_all add: calm_turn_def defs)
  have own: "text_of (s_rt_topic (mq (hs demo_idle))) ''realm/r/runtime1''"
    using demo_names by (simp add: mq_names_def demo_idle_def)
  have texts: "cstring ''light''" "cstring ''on''" "''light'' \<noteq> ''realm/r/runtime1''" by simp_all
  have json: "incoming_json (br (he demo_mqtt_main)) ''on'' = Some ?j" by (simp add: incoming_json_def defs demo_json_def)
  obtain c where c: "json2attr (attrs (m_base demo_mqtt_main)) (mem_ok (m_base demo_mqtt_main)) ?j = Some c"
    by (auto simp: json2attr_def defs demo_attr_def)
  have pack: "pack_request (wamr (m_base demo_mqtt_main)) r = Some [9, 9]" for r by (simp add: defs)
  have link: "payload_fits [9, 9]" "accepts 100 (kern (m_base demo_mqtt_main))" "length [9 :: byte, 9] \<le> 100" "4 \<le> (100 :: nat)"
    "g_runtime_conn_fd (lnk (rt_of demo_idle)) \<noteq> - 1" "phase recv_ctx_init = Phase_Non_Start" "malloc_sized zeroed"
    "zeroed (length [9 :: byte, 9]) = Some [0, 0]"
    "reply_of demo_consts (request_msg_type (wamr (m_base demo_mqtt_main)) False) \<noteq> - 1"
    by (simp_all add: payload_fits_def accepts_def defs recv_ctx_init_def zeroed_def reply_of_def request_msg_type_def demo_consts_def)
  have ty: "request_msg_type (wamr (m_base demo_mqtt_main)) False = 50" "reply_of demo_consts 50 = REPLY_TYPE_EVENT"
    "written (lnk (rt_of demo_idle)) = []"
    by (simp_all add: request_msg_type_def reply_of_def defs demo_consts_def)
  from mqtt_message_reaches_runtime [OF t own texts json c pack link] show ?thesis
    unfolding ty by auto
qed

text \<open>
  The two programs that share the folder of WASM files agree on a file's name only up to 99
  bytes: what the upload service saves under a name is the file that the bridge opens when it is
  asked to install that name with \<open>.wasm\<close>, exactly when the path has at most 99 bytes (the upload
  service keeps 199, the bridge 99).
\<close>

theorem uploaded_file_is_opened:
  assumes "text_of (upload_folder c) folder" and "text_of (rt_wasm_files_folder (conf (br e))) folder"
    and "up_get_var os (hm_body hm) ''name'' 99 = (ret, n)" and "0 \<le> ret" and "length n < 99"
    and "up_fopen os (upload_target folder n)" and "length n + 6 \<le> length (hm_body hm)" and "length (hm_body hm) < 2 ^ 32"
  shows "\<exists>s' saved content path. file_upload os c hm s = Inr s' \<and> up_files s' = (saved, content) # up_files s
    \<and> wasm_path e (clean n @ ''.wasm'') = Inr path
    \<and> (path = saved \<longleftrightarrow> length (folder @ ''/'' @ clean n @ ''.wasm'') \<le> 99)"
proof -
  let ?p = "folder @ ''/'' @ clean n @ ''.wasm''"
  have f: "cstring folder" "read_cstr (rt_wasm_files_folder (conf (br e))) 0 = Inr folder"
    using assms(2) by (auto simp: text_of_iff read_cstr_terminated)
  have path: "wasm_path e (clean n @ ''.wasm'') = Inr (take 99 ?p)"
    using f by (simp add: wasm_path_def local_text_ok del: take_append append.simps)
  have "take 99 ?p = take 199 ?p \<longleftrightarrow> length ?p \<le> 99"
  proof
    assume "take 99 ?p = take 199 ?p"
    then have "length (take 99 ?p) = length (take 199 ?p)" by (rule arg_cong)
    then show "length ?p \<le> 99" by simp
  next
    assume "length ?p \<le> 99"
    then have "take 99 ?p = ?p" and "take 199 ?p = ?p" by (intro take_all; linarith)+
    then show "take 99 ?p = take 199 ?p" by (rule trans [OF _ sym])
  qed
  with file_upload_outcome [OF assms(3,5,1,6,8), of s] assms(4,7) path show ?thesis
    by (simp add: Let_def upload_target_def del: take_append append.simps length_append)
qed

theorem uploaded_file_is_opened_witness:
  "\<exists>s' content. file_upload demo_upload_os (upload_g_config\<lparr>upload_folder := text_buf 100 ''wasm-apps''\<rparr>)
        (demo_upload_request ''name=pub&DATA'') \<lparr>up_files = [], up_replies = []\<rparr> = Inr s'
    \<and> up_files s' = [(''wasm-apps/pub.wasm'', content)] \<and> wasm_path demo_http ''pub.wasm'' = Inr ''wasm-apps/pub.wasm''"
proof -
  let ?c = "upload_g_config\<lparr>upload_folder := text_buf 100 ''wasm-apps''\<rparr>"
  have f: "text_of (upload_folder ?c) ''wasm-apps''" "text_of (rt_wasm_files_folder (conf (br demo_http))) ''wasm-apps''"
    by (simp_all add: text_buf_text demo_http_def)
  have v: "up_get_var demo_upload_os (hm_body (demo_upload_request ''name=pub&DATA'')) ''name'' 99 = (3, ''pub'')"
    by (simp add: demo_upload demo_get_var_def)
  have c: "clean ''pub'' = ''pub''" by (simp add: clean_fixed ok_chars_def)
  have t: "upload_target ''wasm-apps'' ''pub'' = ''wasm-apps/pub.wasm''" by (simp add: upload_target_def c)
  from uploaded_file_is_opened [OF f v _ _ demo_upload(2), of "\<lparr>up_files = [], up_replies = []\<rparr>"]
    file_upload_outcome [OF v _ f(1) demo_upload(2), of "\<lparr>up_files = [], up_replies = []\<rparr>"]
  show ?thesis by (simp add: demo_upload c t Let_def)
qed

text \<open>\<open>shares_files\<close>: the bridge reads from its file system what the upload service has saved last under a name.\<close>

definition shares_files :: "'d main_env \<Rightarrow> upload_state \<Rightarrow> bool" where
  "shares_files e u \<longleftrightarrow> (\<forall>f c. map_of (up_files u) f = Some c \<longrightarrow>
     fs (m_base e) f = \<lparr>fa_open = True, fa_stat = Some (length c), fa_malloc = True, fa_read = Some (bytes c)\<rparr>)"

lemma shared_file:
  assumes "shares_files e u" and "map_of (up_files u) f = Some c"
  shows "read_file_to_buffer (fs (m_base e)) (Some f) = Some (bytes c, int (length (bytes c)))"
  using assms by (simp add: shares_files_def read_file_to_buffer_def Let_def bytes_def)

lemma upload_plain:
  assumes "hm_body hm = ''name='' @ n @ ''&'' @ data" and "up_get_var os (hm_body hm) ''name'' 99 = (ret, n)"
    and "length n < 99" and "text_of (upload_folder c) folder" and "up_fopen os (upload_target folder n)"
    and "length (hm_body hm) < 2 ^ 32" and "up_stored os (upload_target folder n) (length data) = length data"
  shows "\<exists>u'. file_upload os c hm u = Inr u' \<and> up_files u' = (upload_target folder n, data) # up_files u"
proof -
  have "drop (length n + 6) (hm_body hm) = drop (length n + 1) (drop 5 (hm_body hm))" by (simp add: add.commute)
  also have "\<dots> = data" by (simp add: assms(1))
  finally have "drop (length n + 6) (hm_body hm) = data" .
  moreover have "length n + 6 \<le> length (hm_body hm)" by (simp add: assms(1))
  ultimately show ?thesis using file_upload_outcome [OF assms(2-6), of u] assms(7) by (simp add: Let_def)
qed

lemma wasm_path_short:
  assumes "text_of (rt_wasm_files_folder (conf (br e))) folder" and "length (folder @ ''/'' @ clean n @ ''.wasm'') \<le> 99"
  shows "take 99 (folder @ ''/'' @ clean n @ ''.wasm'') = upload_target folder n"
proof -
  have "take 99 (folder @ ''/'' @ clean n @ ''.wasm'') = folder @ ''/'' @ clean n @ ''.wasm''"
    and "upload_target folder n = folder @ ''/'' @ clean n @ ''.wasm''"
    unfolding upload_target_def using assms(2) by (intro take_all; linarith)+
  then show ?thesis by (rule trans [OF _ sym])
qed

lemma install_request_sent:
  assumes "rt_req_install (m_base e) (Some f) None 0 v None 0 0 0 (rt_of s) = Inr (issue (m_base e) INSTALL w u a fm (Some b) l (rt_of s))"
    and "hm_uri hm = ''/cwasm/v1/modules''" and "\<not> http_waiting s"
    and "http_handle_modules (he e) hm (hs s) = bind_res (rt_req_install (m_base e) (Some f) None 0 v None 0 0 0 (rt_of s))
          (\<lambda>(r, rt). Inr (True, let h = (hs s)\<lparr>mq := (mq (hs s))\<lparr>m_rt := rt\<rparr>\<rparr>
             in if r < 0 then http_send (Http_Reply 400 CT_HEADER_JSON
                  (FMT_STR_JSON_ERROR_MSG ''Error installing (wasm file not found?).'')) h else h))"
    and "accepts n (kern (m_base e))" and "4 \<le> n" and "g_runtime_conn_fd (lnk (rt_of s)) \<noteq> - 1"
    and "pack_request (wamr (m_base e)) ((init_request (wamr (m_base e)) u a fm (Some b) l)\<lparr>mid := rnd (m_base e) (rand_calls (rt_of s))\<rparr>) = Some p"
    and "length p \<le> n" and "int_sized p"
  shows "\<exists>s'. bridge_step e (S_request hm) s s' \<and> http_waiting s'
    \<and> get_pending_request_info (rt_of s') = (rnd (m_base e) (rand_calls (rt_of s)), INSTALL)
    \<and> written (lnk (rt_of s')) = written (lnk (rt_of s)) @ link_frame (request_msg_type (wamr (m_base e)) w) p"
proof -
  obtain r rt where i: "issue (m_base e) INSTALL w u a fm (Some b) l (rt_of s) = (r, rt)" by fastforce
  have out: "r = 0" "written (lnk rt) = written (lnk (rt_of s)) @ link_frame (request_msg_type (wamr (m_base e)) w) p"
    using issue_effect(3) [OF i] accepting_request [OF assms(5,8,10,9,6,7), of w] by (simp_all add: prod_eq_iff)
  have "http_ev_handler (he e) hm (hs s) = Inr (True, (hs s)\<lparr>mq := (mq (hs s))\<lparr>m_rt := rt\<rparr>\<rparr>)"
    using assms(1,2,4) i out(1) by (simp add: http_ev_handler_def Let_def)
  from request [OF assms(3) this] show ?thesis
    using issue_pending [OF i] out(2)
    by (intro exI [of _ "s\<lparr>hs := (hs s)\<lparr>mq := (mq (hs s))\<lparr>m_rt := rt\<rparr>\<rparr>, http_waiting := True\<rparr>"]) (simp add: get_pending_request_info_def)
qed

text \<open>
  C7. From an upload to the link: a client uploads a module under a name that needs no URL
  encoding, and another (or the same) asks the bridge by JSON to install the file under the
  sanitised name. When the two programs have the same folder, a path of at most 99 bytes and the same
  files (\<open>shares_files\<close>), the upload saves the module, the install request becomes the pending one, and
  what the bridge writes to the runtime's connection is one frame, byte for byte: the leading bytes,
  the type in network order, which is the one for byte code exactly when the module starts like it,
  the length in network order and the packed install request with the bytes of the module. The
  connection takes what is written; WAMR packs the request into \<open>p\<close>. How WAMR receives the frame is
  not part of this.
\<close>

theorem uploaded_module_on_the_wire:
  assumes "hm_body up = ''name='' @ n @ ''&'' @ data" and "up_get_var os (hm_body up) ''name'' 99 = (ret, n)"
    and "length n < 99" and "text_of (upload_folder c) folder" and "up_fopen os (upload_target folder n)"
    and "length (hm_body up) < 2 ^ 32" and "up_stored os (upload_target folder n) (length data) = length data" and "data \<noteq> []"
    and "text_of (rt_wasm_files_folder (conf (br (he e)))) folder" and "length (folder @ ''/'' @ clean n @ ''.wasm'') \<le> 99"
    and "hm_method hm = ''POST''" and "hm_uri hm = ''/cwasm/v1/modules''" and "hm_content_type hm = Some JSON"
    and "body_json (he e) hm = Some j" and "json_member (he e) j ''name'' = Some v" and "cstring v" and "length v < 50"
    and "json_member (he e) j ''wasm_file'' = Some (clean n @ ''.wasm'')" and "\<not> http_waiting s"
    and "pack_request (wamr (m_base e)) ((init_request (wamr (m_base e)) (take 254 (''/applet?name='' @ v)) (COAP_PUT (wamr (m_base e)))
          (FMT_APP_RAW_BINARY (wamr (m_base e))) (Some (bytes data)) (int (length data)))
            \<lparr>mid := rnd (m_base e) (rand_calls (rt_of s))\<rparr>) = Some p"
    and "payload_fits p" and "accepts m (kern (m_base e))" and "length p \<le> m" and "4 \<le> m"
    and "g_runtime_conn_fd (lnk (rt_of s)) \<noteq> - 1" and "t = request_msg_type (wamr (m_base e)) (is_wasm_file (bytes data))"
  shows "\<exists>u'. file_upload os c up u = Inr u' \<and> (shares_files e u' \<longrightarrow>
    (\<exists>s'. bridge_step e (S_request hm) s s' \<and> http_waiting s'
      \<and> get_pending_request_info (rt_of s') = (rnd (m_base e) (rand_calls (rt_of s)), INSTALL)
      \<and> written (lnk (rt_of s')) = written (lnk (rt_of s)) @ link_frame t p))"
proof -
  let ?f = "upload_target folder n"
  obtain u' where u': "file_upload os c up u = Inr u'" "map_of (up_files u') ?f = Some data"
    using upload_plain [OF assms(1-7), of u] by auto
  have path: "take 99 (folder @ ''/'' @ clean n @ ''.wasm'') = ?f" using wasm_path_short [OF assms(9,10)] .
  have name: "cstring (clean n @ ''.wasm'')" by simp
  note http = json_install_cases [OF assms(11,13-15,18,9,16) name, of "hs s", THEN conjunct2, rule_format, OF assms(17), unfolded path]
  have "\<exists>s'. bridge_step e (S_request hm) s s' \<and> http_waiting s'
      \<and> get_pending_request_info (rt_of s') = (rnd (m_base e) (rand_calls (rt_of s)), INSTALL)
      \<and> written (lnk (rt_of s')) = written (lnk (rt_of s)) @ link_frame t p" if "shares_files e u'"
  proof -
    have "bytes data \<noteq> []" and len: "length (bytes data) = length data" using assms(8) by (simp_all add: bytes_def)
    note issued = rt_req_install_issue [OF assms(16) shared_file [OF that u'(2)] this(1), of "rt_of s"]
    have "int_sized p" using assms(21) by (simp add: payload_fits_def int_sized_def)
    from install_request_sent [OF issued assms(12,19) http assms(22,24,25) _ assms(23) this] assms(20,26) show ?thesis by (simp add: len)
  qed
  then show ?thesis using u'(1) by blast
qed

definition demo_install_main :: "int main_env" where
  "demo_install_main = demo_main\<lparr>he := (he demo_main)\<lparr>br := (br (he demo_main))\<lparr>base := demo_env, json := demo_json
     \<lparr>cJSON_Parse := (\<lambda>_. Some (CObject [(''name'', CString ''pub''), (''wasm_file'', CString ''pub.wasm'')]))\<rparr>\<rparr>\<rparr>\<rparr>"

definition demo_module :: string where
  "demo_module = [CHR 0x00, CHR ''a'', CHR ''s'', CHR ''m'', CHR 0x01]"

theorem uploaded_module_on_the_wire_witness:
  "\<exists>u' s'. file_upload demo_upload_os (upload_g_config\<lparr>upload_folder := text_buf 100 ''wasm-apps''\<rparr>)
        (demo_upload_request (''name=pub&'' @ demo_module)) \<lparr>up_files = [], up_replies = []\<rparr> = Inr u'
    \<and> bridge_step demo_install_main (S_request demo_post) demo_idle s' \<and> get_pending_request_info (rt_of s') = (41, INSTALL)
    \<and> written (lnk (rt_of s')) = [0x12, 0x34, 0, 51, 0, 0, 0, 17] @ 3 # bytes ''/applet?name=pub''"
proof -
  let ?c = "upload_g_config\<lparr>upload_folder := text_buf 100 ''wasm-apps''\<rparr>"
  let ?up = "demo_upload_request (''name=pub&'' @ demo_module)"
  let ?j = "CObject [(''name'', CString ''pub''), (''wasm_file'', CString ''pub.wasm'')] :: int cJSON"
  note defs = demo_install_main_def demo_main_def demo_http_def demo_bridge_def demo_env_def
  have u: "hm_body ?up = ''name='' @ ''pub'' @ ''&'' @ demo_module" by (simp add: demo_upload)
  have v: "up_get_var demo_upload_os (hm_body ?up) ''name'' 99 = (3, ''pub'')"
    by (simp add: demo_upload demo_get_var_def demo_module_def)
  have cl: "clean ''pub'' = ''pub''" by (simp add: clean_fixed ok_chars_def)
  have f: "text_of (upload_folder ?c) ''wasm-apps''" "text_of (rt_wasm_files_folder (conf (br (he demo_install_main)))) ''wasm-apps''"
    by (simp_all add: text_buf_text defs)
  have data: "length (hm_body ?up) < 2 ^ 32" "up_stored demo_upload_os (upload_target ''wasm-apps'' ''pub'') (length demo_module) = length demo_module"
    "demo_module \<noteq> []" "length ''pub'' < 99" "length (''wasm-apps'' @ ''/'' @ clean ''pub'' @ ''.wasm'') \<le> 99" "length ''pub'' < 50"
    "cstring ''pub''" and b: "bytes demo_module = [0, 0x61, 0x73, 0x6D, 1]"
    by (simp_all add: demo_upload demo_module_def cl bytes_def)
  have post: "hm_method demo_post = ''POST''" "hm_uri demo_post = ''/cwasm/v1/modules''" "hm_content_type demo_post = Some JSON"
    "body_json (he demo_install_main) demo_post = Some ?j" "json_member (he demo_install_main) ?j ''name'' = Some ''pub''"
    and member: "json_member (he demo_install_main) ?j ''wasm_file'' = Some (clean ''pub'' @ ''.wasm'')" "\<not> http_waiting demo_idle"
    by (simp_all add: demo_post_def body_json_def json_member_def json_string_def demo_json_def defs demo_idle_def cl)
  have pack: "pack_request (wamr (m_base demo_install_main)) ((init_request (wamr (m_base demo_install_main)) (take 254 (''/applet?name='' @ ''pub''))
      (COAP_PUT (wamr (m_base demo_install_main))) (FMT_APP_RAW_BINARY (wamr (m_base demo_install_main))) (Some (bytes demo_module)) (int (length demo_module)))
        \<lparr>mid := rnd (m_base demo_install_main) (rand_calls (rt_of demo_idle))\<rparr>) = Some (3 # bytes ''/applet?name=pub'')"
    by (simp add: defs demo_wamr_def bytes_def)
  have link: "payload_fits (3 # bytes ''/applet?name=pub'')" "accepts 100 (kern (m_base demo_install_main))"
    "length (3 # bytes ''/applet?name=pub'') \<le> 100" "4 \<le> (100 :: nat)" "g_runtime_conn_fd (lnk (rt_of demo_idle)) \<noteq> - 1"
    "51 = request_msg_type (wamr (m_base demo_install_main)) (is_wasm_file (bytes demo_module))"
    unfolding b
    by (simp_all add: payload_fits_def accepts_def bytes_def defs demo_idle_def demo_http_state_def demo_mqtt_def demo_rt_def demo_out_def
        request_msg_type_def is_wasm_file_def demo_wamr_def demo_consts_def )
  obtain u' where u': "file_upload demo_upload_os ?c ?up \<lparr>up_files = [], up_replies = []\<rparr> = Inr u'"
    "up_files u' = [(upload_target ''wasm-apps'' ''pub'', demo_module)]"
    using upload_plain [OF u v data(4) f(1) demo_upload(2) data(1,2), of "\<lparr>up_files = [], up_replies = []\<rparr>"] by auto
  have "upload_target ''wasm-apps'' ''pub'' = ''wasm-apps/pub.wasm''" by (simp add: upload_target_def cl)
  then have shared: "shares_files demo_install_main u'" using u'(2) b by (simp add: shares_files_def defs demo_module_def)
  have start: "written (lnk (rt_of demo_idle)) = []" "rnd (m_base demo_install_main) (rand_calls (rt_of demo_idle)) = 41"
    by (simp_all add: demo_idle_def demo_http_state_def demo_mqtt_def demo_rt_def demo_out_def defs)
  have "link_frame 51 (3 # bytes ''/applet?name=pub'') = [0x12, 0x34, 0, 51, 0, 0, 0, 17] @ 3 # bytes ''/applet?name=pub''"
    by (simp add: link_frame_def leading_def mem16_def mem32_def byte_at_def ntohs_def ntohl_def mask_eq_exp_minus_1 bytes_def)
  with uploaded_module_on_the_wire [OF u v data(4) f(1) demo_upload(2) data(1,2,3) f(2) data(5) post data(7,6) member pack link,
      of "\<lparr>up_files = [], up_replies = []\<rparr>"] u'(1) shared
  show ?thesis unfolding start by auto
qed

end
